(* ===== verification/Prelude.thy ===== *)
theory Prelude
  imports
    Main
    "HOL-Library.Word"
    "HOL-Library.AList"
    "HOL-Library.Char_ord"
    "HOL-Library.List_Lexorder"
    "HOL-Library.Product_Lexorder"
begin

text \<open>
  Shared vocabulary of the development: the machine types of the Rust sources, 64-bit atomic
  counters with their wrap-around written out, big-endian byte encodings, the error monad used
  for \<^verbatim>\<open>?\<close> on \<^verbatim>\<open>io::Result\<close>, and a generic notion of reachability with its
  invariant rule.
\<close>

unbundle bit_operations_syntax

named_theorems counter_simps \<open>wrap-around arithmetic of 64-bit counters\<close>
named_theorems wire_simps \<open>facts about big-endian encodings\<close>

section \<open>Machine types\<close>

type_synonym u8 = "8 word"
type_synonym u16 = "16 word"
type_synonym u32 = "32 word"

text \<open>Counters, sizes and inode numbers of type \<^verbatim>\<open>u64\<close> are natural numbers; each operation that
  can wrap says so explicitly.\<close>

type_synonym u64 = nat

abbreviation two64 :: nat where "two64 \<equiv> 18446744073709551616"
abbreviation i64_max :: nat where "i64_max \<equiv> 9223372036854775807"
abbreviation u64_max :: nat where "u64_max \<equiv> 18446744073709551615"

definition fetch_add64 :: "u64 \<Rightarrow> u64 \<Rightarrow> u64" where
  "fetch_add64 a b = (a + b) mod two64"

definition fetch_sub64 :: "u64 \<Rightarrow> u64 \<Rightarrow> u64" where
  "fetch_sub64 a b = (a + (two64 - b mod two64)) mod two64"

definition checked_add64 :: "u64 \<Rightarrow> u64 \<Rightarrow> u64 option" where
  "checked_add64 a b = (if a + b < two64 then Some (a + b) else None)"

definition saturating_add64 :: "u64 \<Rightarrow> u64 \<Rightarrow> u64" where
  "saturating_add64 a b = (if a + b < two64 then a + b else u64_max)"

lemma fetch_add64_lt [counter_simps]: "a + b < two64 \<Longrightarrow> fetch_add64 a b = a + b"
  by (simp add: fetch_add64_def)

lemma fetch_add64_bound: "fetch_add64 a b < two64"
  by (simp add: fetch_add64_def)

lemma fetch_sub64_le [counter_simps]: "b \<le> a \<Longrightarrow> a < two64 \<Longrightarrow> fetch_sub64 a b = a - b"
proof -
  assume le: "b \<le> a" and lt: "a < two64"
  then have "b mod two64 = b" by simp
  then have "a + (two64 - b mod two64) = (a - b) + two64" using le lt by simp
  then show ?thesis using lt by (simp add: fetch_sub64_def)
qed

lemma fetch_sub64_bound: "fetch_sub64 a b < two64"
  by (simp add: fetch_sub64_def)

lemma fetch_sub64_wraps [counter_simps]:
  "a < b \<Longrightarrow> b < two64 \<Longrightarrow> fetch_sub64 a b = two64 - (b - a)"
  by (simp add: fetch_sub64_def)

lemma checked_add64_Some [simp]:
  "checked_add64 a b = Some c \<longleftrightarrow> a + b < two64 \<and> c = a + b"
  by (auto simp: checked_add64_def)

lemma checked_add64_None [simp]: "checked_add64 a b = None \<longleftrightarrow> two64 \<le> a + b"
  by (auto simp: checked_add64_def)

section \<open>Results\<close>

text \<open>The effect of the question mark on a result in a function that threads the state \<open>s\<close>: an
  error returns at once and leaves the state as it is.\<close>

definition try_res :: "'e + 'a \<Rightarrow> 's \<Rightarrow> ('a \<Rightarrow> ('e + 'b) \<times> 's) \<Rightarrow> ('e + 'b) \<times> 's" where
  "try_res r s k = (case r of Inl e \<Rightarrow> (Inl e, s) | Inr a \<Rightarrow> k a)"

lemma try_res_simps [simp]:
  "try_res (Inl e) s k = (Inl e, s)"
  "try_res (Inr a) s k = k a"
  by (simp_all add: try_res_def)

definition ok_or :: "'a option \<Rightarrow> 'e \<Rightarrow> 'e + 'a" where
  "ok_or opt e = (case opt of None \<Rightarrow> Inl e | Some a \<Rightarrow> Inr a)"

lemma ok_or_simps [simp]:
  "ok_or None e = Inl e"
  "ok_or (Some a) e = Inr a"
  by (simp_all add: ok_or_def)

lemma ok_or_Inr [simp]: "ok_or opt e = Inr a \<longleftrightarrow> opt = Some a"
  by (cases opt) auto

lemma ok_or_Inl [simp]: "ok_or opt e = Inl e' \<longleftrightarrow> opt = None \<and> e' = e"
  by (cases opt) auto

section \<open>Big-endian encodings\<close>

text \<open>\<open>be_bytes n v\<close> is the \<open>n\<close>-byte big-endian encoding of \<open>v\<close> (Rust's \<^verbatim>\<open>to_be_bytes\<close>),
  and \<open>from_be\<close> reads such an encoding back.\<close>

primrec be_bytes :: "nat \<Rightarrow> nat \<Rightarrow> u8 list" where
  "be_bytes 0 v = []"
| "be_bytes (Suc n) v = be_bytes n (v div 256) @ [of_nat (v mod 256)]"

definition from_be :: "u8 list \<Rightarrow> nat" where
  "from_be bs = foldl (\<lambda>acc b. acc * 256 + unat b) 0 bs"

lemma length_be_bytes [simp, wire_simps]: "length (be_bytes n v) = n"
  by (induction n arbitrary: v) auto

lemma be_bytes_numeral:
  "be_bytes (numeral n) v = be_bytes (pred_numeral n) (v div 256) @ [of_nat (v mod 256)]"
  by (subst numeral_eq_Suc [of n]) (rule be_bytes.simps(2))

lemma from_be_snoc [simp]: "from_be (bs @ [b]) = from_be bs * 256 + unat b"
  by (simp add: from_be_def)

lemma from_be_Nil [simp]: "from_be [] = 0"
  by (simp add: from_be_def)

lemma unat_byte [simp]: "unat (of_nat (v mod 256) :: u8) = v mod 256"
  by (simp add: unat_of_nat)

lemma from_be_be_bytes [wire_simps]: "v < 256 ^ n \<Longrightarrow> from_be (be_bytes n v) = v"
proof (induction n arbitrary: v)
  case 0
  then show ?case by simp
next
  case (Suc n)
  then have "v div 256 < 256 ^ n" by (simp add: less_mult_imp_div_less mult.commute)
  then have "from_be (be_bytes n (v div 256)) = v div 256" by (rule Suc.IH)
  then show ?case by simp
qed

lemma from_be_bound: "from_be bs < 256 ^ length bs"
proof (induction bs rule: rev_induct)
  case Nil
  then show ?case by simp
next
  case (snoc b bs)
  have "unat b < 256" using unsigned_less [of b] by simp
  with snoc show ?case by simp
qed

lemma be_bytes_from_be: "length bs = n \<Longrightarrow> be_bytes n (from_be bs) = bs"
proof (induction n arbitrary: bs)
  case 0
  then show ?case by simp
next
  case (Suc n)
  then obtain cs c where bs: "bs = cs @ [c]" and len: "length cs = n"
    by (cases bs rule: rev_cases) auto
  have c: "unat c < 256" using unsigned_less [of c] by simp
  have "be_bytes n (from_be cs) = cs" using len by (rule Suc.IH)
  moreover have "(from_be cs * 256 + unat c) div 256 = from_be cs"
    using c by simp
  moreover have "(of_nat ((from_be cs * 256 + unat c) mod 256) :: u8) = c"
    using c by simp
  ultimately show ?case using bs by simp
qed

section \<open>Lists\<close>

lemma take_eq_append [simp]: "length xs = n \<Longrightarrow> take n (xs @ ys) = xs"
  by simp

lemma drop_eq_append [simp]: "length xs = n \<Longrightarrow> drop n (xs @ ys) = ys"
  by simp

section \<open>Reachable states\<close>

inductive reachable :: "('s \<Rightarrow> bool) \<Rightarrow> ('s \<Rightarrow> 's \<Rightarrow> bool) \<Rightarrow> 's \<Rightarrow> bool"
  for init step where
  reach_init: "init s \<Longrightarrow> reachable init step s"
| reach_step: "reachable init step s \<Longrightarrow> step s t \<Longrightarrow> reachable init step t"

text \<open>An interface for invariant proofs: a transition system together with a predicate that holds
  initially and is kept by every step.\<close>

locale inductive_invariant =
  fixes init :: "'s \<Rightarrow> bool"
    and step :: "'s \<Rightarrow> 's \<Rightarrow> bool"
    and inv :: "'s \<Rightarrow> bool"
  assumes inv_init: "init s \<Longrightarrow> inv s"
    and inv_step: "inv s \<Longrightarrow> step s t \<Longrightarrow> inv t"
begin

lemma inv_reachable: "reachable init step s \<Longrightarrow> inv s"
  by (induction rule: reachable.induct) (auto intro: inv_init inv_step)

lemma inv_steps: "inv s \<Longrightarrow> step\<^sup>*\<^sup>* s t \<Longrightarrow> inv t"
  by (rotate_tac, induction rule: rtranclp_induct) (auto intro: inv_step)

end

end
