(* ===== verification/Net_Addr.thy ===== *)
theory Net_Addr
  imports Prelude
begin

text \<open>
  IP addresses (\<^verbatim>\<open>crates/network/lib/engine/addr.rs\<close>). An IPv4 address is its 32-bit
  value, an IPv6 address its 128-bit value. CIDR blocks come from the external crate
  \<^verbatim>\<open>ipnetwork\<close>: their type is a parameter, and the operations the code calls on them are the
  fields of \<open>net_api\<close>, an argument of every definition that needs them.
\<close>

section \<open>Addresses\<close>

type_synonym Ipv4Addr = "32 word"
type_synonym Ipv6Addr = "128 word"

datatype IpAddr = V4 Ipv4Addr | V6 Ipv6Addr

text \<open>The methods of the standard library's address types that the code calls.\<close>

definition v4_octet :: "nat \<Rightarrow> Ipv4Addr \<Rightarrow> u8" where
  "v4_octet i a = ucast (drop_bit (24 - 8 * i) a)"

definition v6_segment :: "nat \<Rightarrow> Ipv6Addr \<Rightarrow> u16" where
  "v6_segment i a = ucast (drop_bit (112 - 16 * i) a)"

definition to_ipv4_mapped :: "Ipv6Addr \<Rightarrow> Ipv4Addr option" where
  "to_ipv4_mapped a = (if drop_bit 32 a = 0xffff then Some (ucast a) else None)"

fun is_unspecified :: "IpAddr \<Rightarrow> bool" where
  "is_unspecified (V4 a) = (a = 0)"
| "is_unspecified (V6 a) = (a = 0)"

definition normalize_ip_addr :: "IpAddr \<Rightarrow> IpAddr" where
  "normalize_ip_addr addr =
     (case addr of
        V4 a \<Rightarrow> addr
      | V6 v6 \<Rightarrow> (case to_ipv4_mapped v6 of Some v4 \<Rightarrow> V4 v4 | None \<Rightarrow> V6 v6))"

lemma normalize_V4 [simp]: "normalize_ip_addr (V4 a) = V4 a"
  by (simp add: normalize_ip_addr_def)

lemma normalize_idem [simp]: "normalize_ip_addr (normalize_ip_addr a) = normalize_ip_addr a"
  by (auto simp: normalize_ip_addr_def split: IpAddr.splits option.splits)

section \<open>Networks of the external crate\<close>

record ('n, 'p) net_api =
  net_contains :: "'n \<Rightarrow> IpAddr \<Rightarrow> bool"
  prefix_len :: "'p \<Rightarrow> nat"
  prefix_contains :: "'p \<Rightarrow> Ipv6Addr \<Rightarrow> bool"

definition nat64_embedded_ipv4_addr ::
  "('n, 'p) net_api \<Rightarrow> Ipv6Addr \<Rightarrow> 'p list \<Rightarrow> Ipv4Addr option" where
  "nat64_embedded_ipv4_addr api addr prefixes =
     (if list_ex (\<lambda>p. prefix_len api p = 96 \<and> prefix_contains api p addr) prefixes
      then Some (ucast (addr AND 0xffffffff)) else None)"

end
