(* ===== verification/Std_Maps.thy ===== *)
theory Std_Maps
  imports Prelude
begin

text \<open>
  The maps of the Rust standard library that the sources use. A \<^verbatim>\<open>BTreeMap\<close> iterates in key
  order, so its model is an association list sorted by key; a \<^verbatim>\<open>HashMap\<close> has no observable order
  and is an association list with distinct keys (\<open>AList.update\<close> and \<open>AList.delete\<close>). Both satisfy
  the interface \<open>finite_mapping\<close> below, whose consequences are proved once.
\<close>

section \<open>The interface\<close>

locale finite_mapping =
  fixes get :: "'m \<Rightarrow> 'k \<Rightarrow> 'v option"
    and put :: "'k \<Rightarrow> 'v \<Rightarrow> 'm \<Rightarrow> 'm"
    and del :: "'k \<Rightarrow> 'm \<Rightarrow> 'm"
    and len :: "'m \<Rightarrow> nat"
    and wf :: "'m \<Rightarrow> bool"
  assumes get_put: "wf m \<Longrightarrow> get (put k v m) = (get m)(k \<mapsto> v)"
    and get_del: "wf m \<Longrightarrow> get (del k m) = (get m)(k := None)"
    and len_dom: "wf m \<Longrightarrow> finite (dom (get m)) \<and> len m = card (dom (get m))"
    and wf_put: "wf m \<Longrightarrow> wf (put k v m)"
    and wf_del: "wf m \<Longrightarrow> wf (del k m)"
begin

lemma get_put_same: "wf m \<Longrightarrow> get (put k v m) k = Some v"
  by (simp add: get_put)

lemma get_put_other: "wf m \<Longrightarrow> k' \<noteq> k \<Longrightarrow> get (put k v m) k' = get m k'"
  by (simp add: get_put)

lemma get_del_other: "wf m \<Longrightarrow> k' \<noteq> k \<Longrightarrow> get (del k m) k' = get m k'"
  by (simp add: get_del)

lemma len_put:
  assumes "wf m"
  shows "len (put k v m) = (if get m k = None then Suc (len m) else len m)"
proof -
  have fin: "finite (dom (get m))" and n: "len m = card (dom (get m))"
    using len_dom [OF assms] by auto
  have "len (put k v m) = card (dom (get (put k v m)))"
    using len_dom [OF wf_put [OF assms]] by simp
  also have "\<dots> = card (insert k (dom (get m)))"
    by (simp add: get_put [OF assms])
  finally show ?thesis
    using fin n by (simp add: card_insert_if domIff)
qed

lemma len_del:
  assumes "wf m"
  shows "len (del k m) = (if get m k = None then len m else len m - 1)"
proof -
  have fin: "finite (dom (get m))" and n: "len m = card (dom (get m))"
    using len_dom [OF assms] by auto
  have "len (del k m) = card (dom (get (del k m)))"
    using len_dom [OF wf_del [OF assms]] by simp
  also have "\<dots> = card (dom (get m) - {k})"
    by (simp add: get_del [OF assms])
  finally show ?thesis
    using fin n by (auto simp: domIff)
qed

end

section \<open>BTreeMap\<close>

fun bt_insert :: "'k::linorder \<Rightarrow> 'v \<Rightarrow> ('k \<times> 'v) list \<Rightarrow> ('k \<times> 'v) list" where
  "bt_insert k v [] = [(k, v)]"
| "bt_insert k v ((a, b) # m) =
     (if k < a then (k, v) # (a, b) # m
      else if k = a then (k, v) # m
      else (a, b) # bt_insert k v m)"

definition bt_remove :: "'k::linorder \<Rightarrow> ('k \<times> 'v) list \<Rightarrow> ('k \<times> 'v) list" where
  "bt_remove k m = filter (\<lambda>(a, b). a \<noteq> k) m"

definition bt_wf :: "('k::linorder \<times> 'v) list \<Rightarrow> bool" where
  "bt_wf m \<longleftrightarrow> sorted_wrt (<) (map fst m)"

lemma bt_wf_Nil [simp]: "bt_wf []"
  by (simp add: bt_wf_def)

lemma bt_wf_Cons: "bt_wf ((k, v) # m) \<longleftrightarrow> (\<forall>k' \<in> fst ` set m. k < k') \<and> bt_wf m"
  by (simp add: bt_wf_def)

lemma bt_wf_distinct: "bt_wf m \<Longrightarrow> distinct (map fst m)"
  by (simp add: bt_wf_def strict_sorted_iff)

lemma set_bt_insert_fst [simp]: "fst ` set (bt_insert k v m) = insert k (fst ` set m)"
  by (induction k v m rule: bt_insert.induct) auto

lemma bt_get_insert [simp]: "map_of (bt_insert k v m) = (map_of m)(k \<mapsto> v)"
  by (induction k v m rule: bt_insert.induct) (auto simp: fun_eq_iff)

lemma bt_wf_insert: "bt_wf m \<Longrightarrow> bt_wf (bt_insert k v m)"
  by (induction k v m rule: bt_insert.induct) (fastforce simp: bt_wf_Cons)+

lemma bt_get_remove [simp]: "map_of (bt_remove k m) = (map_of m)(k := None)"
  by (induction m) (auto simp: bt_remove_def fun_eq_iff)

lemma bt_wf_remove: "bt_wf m \<Longrightarrow> bt_wf (bt_remove k m)"
  by (auto simp: bt_wf_def bt_remove_def sorted_wrt_map intro: sorted_wrt_filter)

lemma bt_dom: "dom (map_of m) = fst ` set m"
  by (rule dom_map_of_conv_image_fst)

lemma bt_length: "bt_wf m \<Longrightarrow> length m = card (dom (map_of m))"
  by (metis bt_wf_distinct distinct_card length_map list.set_map dom_map_of_conv_image_fst)

interpretation bt: finite_mapping map_of bt_insert bt_remove length
  "bt_wf :: ('k::linorder \<times> 'v) list \<Rightarrow> bool"
  by unfold_locales
    (auto simp: bt_wf_insert bt_wf_remove finite_dom_map_of bt_length)

text \<open>The first entry of a \<^verbatim>\<open>BTreeMap\<close> has the least key.\<close>

lemma bt_first_least:
  assumes "bt_wf ((k, v) # m)" and "map_of ((k, v) # m) k' = Some v'"
  shows "k \<le> k'"
proof (cases "k' = k")
  case False
  with assms(2) have "map_of m k' = Some v'" by simp
  then have "k' \<in> fst ` set m" by (force dest: map_of_SomeD)
  with assms(1) show ?thesis by (auto simp: bt_wf_Cons)
qed simp

section \<open>HashMap\<close>

definition hm_wf :: "('k \<times> 'v) list \<Rightarrow> bool" where
  "hm_wf m \<longleftrightarrow> distinct (map fst m)"

lemma hm_wf_Nil [simp]: "hm_wf []"
  by (simp add: hm_wf_def)

lemma hm_wf_update: "hm_wf m \<Longrightarrow> hm_wf (AList.update k v m)"
  by (simp add: hm_wf_def distinct_update)

lemma hm_wf_delete: "hm_wf m \<Longrightarrow> hm_wf (AList.delete k m)"
  by (simp add: hm_wf_def distinct_delete)

lemma hm_length: "hm_wf m \<Longrightarrow> length m = card (dom (map_of m))"
  by (metis hm_wf_def distinct_card length_map list.set_map dom_map_of_conv_image_fst)

interpretation hm: finite_mapping map_of AList.update AList.delete length
  "hm_wf :: ('k \<times> 'v) list \<Rightarrow> bool"
  by unfold_locales
    (auto simp: update_conv' delete_conv' hm_wf_update hm_wf_delete finite_dom_map_of hm_length)

lemmas hm_get_update [simp] = update_conv'
lemmas hm_get_delete [simp] = delete_conv'

lemma hm_in_set: "hm_wf m \<Longrightarrow> (k, v) \<in> set m \<longleftrightarrow> map_of m k = Some v"
  by (simp add: hm_wf_def)

end
