(* ===== verification/Ttl_Index.thy ===== *)
theory Ttl_Index
  imports Std_Maps
begin

text \<open>
  \<^verbatim>\<open>crates/utils/lib/ttl_reverse_index.rs\<close>: a map from keys to members whose bindings expire one
  by one, with a reverse index from members to keys and an ordered map of expiries. The state is
  the record \<open>TtlReverseIndex\<close>; each method is one definition. The representation invariant
  \<open>ttl_inv\<close> says that the three maps hold the same bindings, and \<open>binding_time\<close> is the abstract
  view, a partial map from key and member to expiry time, that every method refines.
\<close>

section \<open>State\<close>

datatype Expiry = Expiry (expires_at: nat) (sequence: u64)

text \<open>The derived order of the source: by expiry time, then by sequence number.\<close>

instantiation Expiry :: linorder
begin

definition less_eq_Expiry :: "Expiry \<Rightarrow> Expiry \<Rightarrow> bool" where
  "less_eq_Expiry a b \<longleftrightarrow> (expires_at a, sequence a) \<le> (expires_at b, sequence b)"

definition less_Expiry :: "Expiry \<Rightarrow> Expiry \<Rightarrow> bool" where
  "less_Expiry a b \<longleftrightarrow> (expires_at a, sequence a) < (expires_at b, sequence b)"

instance
proof
  fix x y z :: Expiry
  show "(x < y) = (x \<le> y \<and> \<not> y \<le> x)"
    by (auto simp: less_eq_Expiry_def less_Expiry_def)
  show "x \<le> x"
    by (simp add: less_eq_Expiry_def)
  show "x \<le> y \<Longrightarrow> y \<le> z \<Longrightarrow> x \<le> z"
    by (auto simp: less_eq_Expiry_def)
  show "x \<le> y \<Longrightarrow> y \<le> x \<Longrightarrow> x = y"
    by (cases x; cases y) (auto simp: less_eq_Expiry_def)
  show "x \<le> y \<or> y \<le> x"
    by (auto simp: less_eq_Expiry_def)
qed

end

lemma Expiry_le_time: "a \<le> b \<Longrightarrow> expires_at a \<le> expires_at b"
  by (auto simp: less_eq_Expiry_def)

record ('k, 'm) TtlReverseIndex =
  by_key :: "('k \<times> ('m \<times> Expiry) list) list"
  by_member :: "('m \<times> 'k list) list"
  expirations :: "(Expiry \<times> ('k \<times> 'm)) list"
  next_sequence :: u64

definition ttl_default :: "('k, 'm) TtlReverseIndex" where
  "ttl_default = \<lparr>by_key = [], by_member = [], expirations = [], next_sequence = 0\<rparr>"

section \<open>Methods\<close>

definition forget_reverse ::
  "('k, 'm) TtlReverseIndex \<Rightarrow> 'm \<Rightarrow> 'k \<Rightarrow> ('k, 'm) TtlReverseIndex" where
  "forget_reverse idx member key =
     (case map_of (by_member idx) member of
        None \<Rightarrow> idx
      | Some keys \<Rightarrow>
          (let keys' = removeAll key keys in
           idx\<lparr>by_member := (if keys' = [] then AList.delete member (by_member idx)
                              else AList.update member keys' (by_member idx))\<rparr>))"

definition unbind ::
  "('k, 'm) TtlReverseIndex \<Rightarrow> 'k \<Rightarrow> 'm \<Rightarrow> ('k, 'm) TtlReverseIndex" where
  "unbind idx key member =
     (case map_of (by_key idx) key of
        None \<Rightarrow> idx
      | Some bindings \<Rightarrow>
          (let bindings' = AList.delete member bindings;
               idx' = idx\<lparr>by_key := (if bindings' = [] then AList.delete key (by_key idx)
                                      else AList.update key bindings' (by_key idx))\<rparr>
           in forget_reverse idx' member key))"

lemma forget_reverse_frame [simp]:
  "by_key (forget_reverse idx m k) = by_key idx"
  "expirations (forget_reverse idx m k) = expirations idx"
  "next_sequence (forget_reverse idx m k) = next_sequence idx"
  by (simp_all add: forget_reverse_def Let_def split: option.splits)

lemma unbind_frame [simp]:
  "expirations (unbind idx k m) = expirations idx"
  "next_sequence (unbind idx k m) = next_sequence idx"
  by (simp_all add: unbind_def Let_def split: option.splits)

function evict_expired ::
  "('k, 'm) TtlReverseIndex \<Rightarrow> nat \<Rightarrow> ('k, 'm) TtlReverseIndex" where
  "evict_expired idx now =
     (case expirations idx of
        [] \<Rightarrow> idx
      | (expiry, (key, member)) # rest \<Rightarrow>
          if expires_at expiry \<le> now
          then evict_expired (unbind (idx\<lparr>expirations := rest\<rparr>) key member) now
          else idx)"
  by pat_completeness auto
termination
  by (relation "measure (\<lambda>(idx, now). length (expirations idx))") auto

declare evict_expired.simps [simp del]

fun remove_bindings ::
  "('k, 'm) TtlReverseIndex \<Rightarrow> 'k \<Rightarrow> ('m \<times> Expiry) list \<Rightarrow> ('k, 'm) TtlReverseIndex" where
  "remove_bindings idx key [] = idx"
| "remove_bindings idx key ((member, expiry) # removed) =
     remove_bindings
       (forget_reverse (idx\<lparr>expirations := bt_remove expiry (expirations idx)\<rparr>) member key)
       key removed"

definition remove_key ::
  "('k, 'm) TtlReverseIndex \<Rightarrow> 'k \<Rightarrow> ('k, 'm) TtlReverseIndex" where
  "remove_key idx key =
     (case map_of (by_key idx) key of
        None \<Rightarrow> idx
      | Some removed \<Rightarrow>
          remove_bindings (idx\<lparr>by_key := AList.delete key (by_key idx)\<rparr>) key removed)"

definition bind ::
  "('k, 'm) TtlReverseIndex \<Rightarrow> 'k \<Rightarrow> 'm \<Rightarrow> nat \<Rightarrow> ('k, 'm) TtlReverseIndex" where
  "bind idx key member expires =
     (let bindings = (case map_of (by_key idx) key of None \<Rightarrow> [] | Some b \<Rightarrow> b);
          idx0 = idx\<lparr>by_key := AList.update key bindings (by_key idx)\<rparr>;
          add = (\<lambda>idx1.
            let expiry = Expiry expires (next_sequence idx1);
                keys = (case map_of (by_member idx1) member of None \<Rightarrow> [] | Some ks \<Rightarrow> ks)
            in idx1\<lparr>next_sequence := fetch_add64 (next_sequence idx1) 1,
                    by_key := AList.update key (AList.update member expiry bindings) (by_key idx1),
                    by_member := AList.update member (List.insert key keys) (by_member idx1),
                    expirations := bt_insert expiry (key, member) (expirations idx1)\<rparr>)
      in case map_of bindings member of
           None \<Rightarrow> add idx0
         | Some previous \<Rightarrow>
             if expires \<le> expires_at previous then idx0
             else add (idx0\<lparr>expirations := bt_remove previous (expirations idx0)\<rparr>))"

definition bind_all ::
  "('k, 'm) TtlReverseIndex \<Rightarrow> 'k \<Rightarrow> 'm list \<Rightarrow> nat \<Rightarrow> ('k, 'm) TtlReverseIndex" where
  "bind_all idx key members expires = foldl (\<lambda>i m. bind i key m expires) idx members"

definition ttl_insert ::
  "('k, 'm) TtlReverseIndex \<Rightarrow> 'k \<Rightarrow> 'm list \<Rightarrow> nat \<Rightarrow> nat \<Rightarrow> ('k, 'm) TtlReverseIndex" where
  "ttl_insert idx key members ttl now =
     bind_all (remove_key (evict_expired idx now) key) key members (now + ttl)"

definition ttl_extend ::
  "('k, 'm) TtlReverseIndex \<Rightarrow> 'k \<Rightarrow> 'm list \<Rightarrow> nat \<Rightarrow> nat \<Rightarrow> ('k, 'm) TtlReverseIndex" where
  "ttl_extend idx key members ttl now = bind_all (evict_expired idx now) key members (now + ttl)"

definition binding_count :: "('k, 'm) TtlReverseIndex \<Rightarrow> nat" where
  "binding_count idx = length (expirations idx)"

definition member_count :: "('k, 'm) TtlReverseIndex \<Rightarrow> 'k \<Rightarrow> nat" where
  "member_count idx key = (case map_of (by_key idx) key of None \<Rightarrow> 0 | Some b \<Rightarrow> length b)"

text \<open>The collecting loop of \<^verbatim>\<open>try_extend\<close>: \<open>None\<close> is the early \<^verbatim>\<open>return false\<close>.\<close>

fun collect_unique ::
  "('m \<times> Expiry) list option \<Rightarrow> nat \<Rightarrow> 'm list \<Rightarrow> 'm list \<Rightarrow> nat \<Rightarrow> 'm list option" where
  "collect_unique existing remaining [] unique added = Some unique"
| "collect_unique existing remaining (member # members) unique added =
     (if member \<in> set unique then collect_unique existing remaining members unique added
      else if (case existing of None \<Rightarrow> False | Some b \<Rightarrow> map_of b member \<noteq> None)
           then collect_unique existing remaining members (unique @ [member]) added
      else if added + 1 > remaining then None
      else collect_unique existing remaining members (unique @ [member]) (added + 1))"

definition try_extend ::
  "('k, 'm) TtlReverseIndex \<Rightarrow> 'k \<Rightarrow> 'm list \<Rightarrow> nat \<Rightarrow> nat \<Rightarrow> nat
     \<Rightarrow> bool \<times> ('k, 'm) TtlReverseIndex" where
  "try_extend idx key members ttl now capacity =
     (let idx' = evict_expired idx now;
          remaining = capacity - length (expirations idx')
      in case collect_unique (map_of (by_key idx') key) remaining members [] 0 of
           None \<Rightarrow> (False, idx')
         | Some unique \<Rightarrow> (True, bind_all idx' key unique (now + ttl)))"

definition ttl_remove ::
  "('k, 'm) TtlReverseIndex \<Rightarrow> 'k \<Rightarrow> nat \<Rightarrow> ('k, 'm) TtlReverseIndex" where
  "ttl_remove idx key now = remove_key (evict_expired idx now) key"

definition member_matches ::
  "('k, 'm) TtlReverseIndex \<Rightarrow> 'm \<Rightarrow> nat \<Rightarrow> ('k \<Rightarrow> bool) \<Rightarrow> bool" where
  "member_matches idx member now predicate =
     (case map_of (by_member idx) member of
        None \<Rightarrow> False
      | Some keys \<Rightarrow>
          list_ex (\<lambda>key.
            case map_of (by_key idx) key of
              None \<Rightarrow> False
            | Some bindings \<Rightarrow>
                (case map_of bindings member of
                   None \<Rightarrow> False
                 | Some expiry \<Rightarrow> expires_at expiry > now \<and> predicate key)) keys)"

section \<open>Abstract view and invariant\<close>

definition binding :: "('k, 'm) TtlReverseIndex \<Rightarrow> 'k \<Rightarrow> 'm \<Rightarrow> Expiry option" where
  "binding idx k m = Option.bind (map_of (by_key idx) k) (\<lambda>b. map_of b m)"

definition binding_time :: "('k, 'm) TtlReverseIndex \<Rightarrow> 'k \<times> 'm \<Rightarrow> nat option" where
  "binding_time idx = (\<lambda>(k, m). map_option expires_at (binding idx k m))"

definition reverse_keys :: "('k, 'm) TtlReverseIndex \<Rightarrow> 'm \<Rightarrow> 'k set" where
  "reverse_keys idx m = (case map_of (by_member idx) m of None \<Rightarrow> {} | Some ks \<Rightarrow> set ks)"

definition ttl_shape :: "('k, 'm) TtlReverseIndex \<Rightarrow> bool" where
  "ttl_shape idx \<longleftrightarrow>
     hm_wf (by_key idx) \<and>
     (\<forall>k b. map_of (by_key idx) k = Some b \<longrightarrow> hm_wf b \<and> b \<noteq> []) \<and>
     (\<forall>m ks. map_of (by_member idx) m = Some ks \<longrightarrow> ks \<noteq> []) \<and>
     bt_wf (expirations idx)"

definition ttl_agree :: "('k, 'm) TtlReverseIndex \<Rightarrow> bool" where
  "ttl_agree idx \<longleftrightarrow>
     (\<forall>k m. k \<in> reverse_keys idx m \<longleftrightarrow> binding idx k m \<noteq> None) \<and>
     (\<forall>e k m. map_of (expirations idx) e = Some (k, m) \<longleftrightarrow> binding idx k m = Some e) \<and>
     (\<forall>e p. map_of (expirations idx) e = Some p \<longrightarrow> sequence e < next_sequence idx)"

definition ttl_inv :: "('k, 'm) TtlReverseIndex \<Rightarrow> bool" where
  "ttl_inv idx \<longleftrightarrow> ttl_shape idx \<and> ttl_agree idx"

lemma ttl_inv_default: "ttl_inv ttl_default"
  by (simp add: ttl_inv_def ttl_shape_def ttl_agree_def ttl_default_def binding_def
      reverse_keys_def)

section \<open>Views after each method\<close>

lemma binding_cong: "by_key i = by_key j \<Longrightarrow> binding i = binding j"
  by (simp add: binding_def fun_eq_iff)

lemma reverse_keys_by_key: "reverse_keys (idx\<lparr>by_key := x\<rparr>) = reverse_keys idx"
  by (simp add: reverse_keys_def fun_eq_iff)

lemma removeAll_eq_Nil: "removeAll k ks = [] \<longleftrightarrow> set ks \<subseteq> {k}"
  by (auto simp: removeAll_filter_not_eq filter_empty_conv)

lemma forget_reverse_views:
  "binding (forget_reverse idx m k) = binding idx"
  "reverse_keys (forget_reverse idx m k) m' =
     (if m' = m then reverse_keys idx m - {k} else reverse_keys idx m')"
  by (auto simp: forget_reverse_def reverse_keys_def Let_def binding_def fun_eq_iff
      removeAll_eq_Nil split: option.splits if_splits)

lemma forget_reverse_shape: "ttl_shape idx \<Longrightarrow> ttl_shape (forget_reverse idx m k)"
  by (auto simp: ttl_shape_def forget_reverse_def Let_def split: option.splits if_splits)

lemma delete_eq_Nil_iff: "AList.delete m b = [] \<longleftrightarrow> (\<forall>m'. m' \<noteq> m \<longrightarrow> map_of b m' = None)"
proof
  assume "AList.delete m b = []"
  then have "map_of (AList.delete m b) = Map.empty" by simp
  then show "\<forall>m'. m' \<noteq> m \<longrightarrow> map_of b m' = None"
    by (auto simp: fun_eq_iff split: if_splits)
next
  assume *: "\<forall>m'. m' \<noteq> m \<longrightarrow> map_of b m' = None"
  then have "map_of (AList.delete m b) = Map.empty" by (auto simp: fun_eq_iff)
  then show "AList.delete m b = []" by (simp only: map_of_eq_empty_iff)
qed

lemma unbind_binding:
  "binding (unbind idx k m) k' m' = (if k' = k \<and> m' = m then None else binding idx k' m')"
proof (cases "map_of (by_key idx) k")
  case None
  then show ?thesis by (auto simp: unbind_def binding_def)
next
  case (Some b)
  show ?thesis
  proof (cases "AList.delete m b = []")
    case True
    then show ?thesis using Some
      by (auto simp: unbind_def Let_def forget_reverse_views binding_def delete_eq_Nil_iff)
  next
    case False
    then show ?thesis using Some
      by (auto simp: unbind_def Let_def forget_reverse_views binding_def)
  qed
qed

lemma unbind_reverse:
  "map_of (by_key idx) k \<noteq> None \<Longrightarrow>
   reverse_keys (unbind idx k m) m' =
     (if m' = m then reverse_keys idx m - {k} else reverse_keys idx m')"
  by (auto simp: unbind_def Let_def forget_reverse_views(2) split: option.splits)
     (auto simp: reverse_keys_def)

lemma unbind_shape: "ttl_shape idx \<Longrightarrow> ttl_shape (unbind idx k m)"
proof (cases "map_of (by_key idx) k")
  case None
  assume "ttl_shape idx"
  then show ?thesis using None by (simp add: unbind_def)
next
  case (Some b)
  assume sh: "ttl_shape idx"
  have "ttl_shape (idx\<lparr>by_key := (if AList.delete m b = [] then AList.delete k (by_key idx)
                              else AList.update k (AList.delete m b) (by_key idx))\<rparr>)"
    using sh Some
    by (auto simp: ttl_shape_def hm_wf_delete hm_wf_update split: if_splits)
  then show ?thesis
    using Some by (simp add: unbind_def Let_def forget_reverse_shape)
qed

lemma remove_bindings_frame [simp]:
  "by_key (remove_bindings idx k removed) = by_key idx"
  "next_sequence (remove_bindings idx k removed) = next_sequence idx"
  by (induction idx k removed rule: remove_bindings.induct) auto

lemma remove_bindings_reverse:
  "reverse_keys (remove_bindings idx k removed) m =
     (if m \<in> fst ` set removed then reverse_keys idx m - {k} else reverse_keys idx m)"
proof (induction idx k removed rule: remove_bindings.induct)
  case (2 idx key member expiry removed)
  have "reverse_keys (idx\<lparr>expirations := x\<rparr>) = reverse_keys idx" for x
    by (simp add: reverse_keys_def fun_eq_iff)
  with 2 show ?case by (auto simp: forget_reverse_views)
qed simp

lemma remove_bindings_expirations:
  "map_of (expirations (remove_bindings idx k removed)) e =
     (if e \<in> snd ` set removed then None else map_of (expirations idx) e)"
  by (induction idx k removed rule: remove_bindings.induct) auto

lemma remove_bindings_shape:
  "ttl_shape idx \<Longrightarrow> ttl_shape (remove_bindings idx k removed)"
proof (induction idx k removed rule: remove_bindings.induct)
  case (2 idx key member expiry removed)
  then have "ttl_shape (idx\<lparr>expirations := bt_remove expiry (expirations idx)\<rparr>)"
    by (simp add: ttl_shape_def bt_wf_remove)
  with 2 show ?case by (simp add: forget_reverse_shape)
qed simp

section \<open>Every method keeps the invariant and refines the abstract view\<close>

lemma ttl_agreeD:
  assumes "ttl_inv idx"
  shows "k \<in> reverse_keys idx m \<longleftrightarrow> binding idx k m \<noteq> None"
    and "map_of (expirations idx) e = Some (k, m) \<longleftrightarrow> binding idx k m = Some e"
    and "map_of (expirations idx) e = Some p \<Longrightarrow> sequence e < next_sequence idx"
  using assms by (auto simp: ttl_inv_def ttl_agree_def)

lemma binding_inj:
  assumes "ttl_inv idx" "binding idx k m = Some e" "binding idx k' m' = Some e"
  shows "k' = k" and "m' = m"
  using assms(2,3) ttl_agreeD(2) [OF assms(1), of e] by (metis option.inject prod.inject)+

lemma ttl_agreeI:
  assumes "\<And>k m. k \<in> reverse_keys idx m \<longleftrightarrow> binding idx k m \<noteq> None"
    and "\<And>e k m. map_of (expirations idx) e = Some (k, m) \<longleftrightarrow> binding idx k m = Some e"
    and "\<And>e k m. binding idx k m = Some e \<Longrightarrow> sequence e < next_sequence idx"
  shows "ttl_agree idx"
  using assms unfolding ttl_agree_def by (metis surj_pair)

lemma binding_sequence:
  assumes "ttl_inv idx" and "binding idx k m = Some e"
  shows "sequence e < next_sequence idx"
  using assms ttl_agreeD by metis

lemma pop_first_step:
  assumes inv: "ttl_inv idx" and exp: "expirations idx = (e, (k, m)) # rest"
  shows "ttl_inv (unbind (idx\<lparr>expirations := rest\<rparr>) k m)"
    and "binding (unbind (idx\<lparr>expirations := rest\<rparr>) k m) k' m' =
           (if k' = k \<and> m' = m then None else binding idx k' m')"
    and "binding idx k m = Some e"
proof -
  let ?i = "idx\<lparr>expirations := rest\<rparr>"
  have bi [simp]: "binding ?i = binding idx" and ri [simp]: "reverse_keys ?i = reverse_keys idx"
    by (simp_all add: binding_def reverse_keys_def fun_eq_iff)
  show bound: "binding idx k m = Some e"
    using ttl_agreeD(2) [OF inv, of e k m] exp by simp
  show views: "binding (unbind ?i k m) k' m' =
      (if k' = k \<and> m' = m then None else binding idx k' m')" for k' m'
    by (simp add: unbind_binding)
  have haskey: "map_of (by_key ?i) k \<noteq> None"
    using bound by (cases "map_of (by_key idx) k") (auto simp: binding_def)
  have wf: "bt_wf ((e, (k, m)) # rest)"
    using inv exp by (simp add: ttl_inv_def ttl_shape_def)
  then have notin: "map_of rest e = None"
    by (auto simp: bt_wf_Cons map_of_eq_None_iff)
  have exps: "map_of rest e' = (if e' = e then None else map_of (expirations idx) e')" for e'
    using notin exp by simp
  have "ttl_shape ?i"
    using inv wf by (simp add: ttl_inv_def ttl_shape_def bt_wf_Cons)
  then have "ttl_shape (unbind ?i k m)" by (rule unbind_shape)
  moreover have "ttl_agree (unbind ?i k m)"
  proof (rule ttl_agreeI)
    fix k' m' e'
    show "k' \<in> reverse_keys (unbind ?i k m) m' \<longleftrightarrow> binding (unbind ?i k m) k' m' \<noteq> None"
      using ttl_agreeD(1) [OF inv, of k' m'] by (auto simp: unbind_reverse [OF haskey] views)
    have "\<not> (binding idx k' m' = Some e \<and> \<not> (k' = k \<and> m' = m))"
      using binding_inj [OF inv bound] by blast
    then show "map_of (expirations (unbind ?i k m)) e' = Some (k', m') \<longleftrightarrow>
        binding (unbind ?i k m) k' m' = Some e'"
      using ttl_agreeD(2) [OF inv, of e' k' m'] bound
      by (cases "k' = k \<and> m' = m"; cases "e' = e") (auto simp: views exps)
    show "binding (unbind ?i k m) k' m' = Some e' \<Longrightarrow> sequence e' < next_sequence (unbind ?i k m)"
      using binding_sequence [OF inv, of k' m' e'] by (simp add: views split: if_splits)
  qed
  ultimately show "ttl_inv (unbind ?i k m)" by (simp add: ttl_inv_def)
qed

definition not_expired :: "nat \<Rightarrow> Expiry option \<Rightarrow> Expiry option" where
  "not_expired now b = (case b of None \<Rightarrow> None
     | Some e \<Rightarrow> if expires_at e \<le> now then None else Some e)"

lemma evict_expired_spec:
  assumes "ttl_inv idx"
  shows "ttl_inv (evict_expired idx now) \<and>
         next_sequence (evict_expired idx now) = next_sequence idx \<and>
         (\<forall>k m. binding (evict_expired idx now) k m = not_expired now (binding idx k m))"
  using assms
proof (induction idx now rule: evict_expired.induct)
  case (1 idx now)
  show ?case
  proof (cases "expirations idx")
    case Nil
    then have "binding idx k m = None" for k m
      using ttl_agreeD(2) [OF 1(2), of _ k m] by (cases "binding idx k m") auto
    then show ?thesis using 1(2) Nil
      by (simp add: evict_expired.simps [of idx now] not_expired_def)
  next
    case (Cons a rest)
    obtain e k m where a: "a = (e, (k, m))" by (cases a) auto
    note exp = Cons [unfolded a]
    show ?thesis
    proof (cases "expires_at e \<le> now")
      case True
      let ?n = "unbind (idx\<lparr>expirations := rest\<rparr>) k m"
      have unf: "evict_expired idx now = evict_expired ?n now"
        using exp True by (simp add: evict_expired.simps [of idx now])
      note pop = pop_first_step [OF 1(2) exp]
      have "ttl_inv (evict_expired ?n now) \<and>
            next_sequence (evict_expired ?n now) = next_sequence ?n \<and>
            (\<forall>k m. binding (evict_expired ?n now) k m = not_expired now (binding ?n k m))"
        using 1(1) [OF exp refl refl True pop(1)] .
      then show ?thesis using True pop(3)
        by (auto simp: unf pop(2) not_expired_def)
    next
      case False
      have "\<not> expires_at e' \<le> now" if "binding idx k' m' = Some e'" for k' m' e'
      proof -
        have "map_of (expirations idx) e' = Some (k', m')"
          using ttl_agreeD(2) [OF 1(2)] that by blast
        then have "e \<le> e'"
          using bt_first_least [of e "(k, m)" rest e' "(k', m')"] exp 1(2)
          by (simp add: ttl_inv_def ttl_shape_def)
        then show ?thesis using False Expiry_le_time by fastforce
      qed
      then show ?thesis using False exp 1(2)
        by (auto simp: evict_expired.simps [of idx now] not_expired_def split: option.splits)
    qed
  qed
qed

lemma remove_key_spec:
  assumes inv: "ttl_inv idx"
  shows "ttl_inv (remove_key idx key)"
    and "binding (remove_key idx key) k m = (if k = key then None else binding idx k m)"
    and "next_sequence (remove_key idx key) = next_sequence idx"
proof -
  show views: "binding (remove_key idx key) k m = (if k = key then None else binding idx k m)"
    for k m
    by (auto simp: remove_key_def binding_def split: option.splits)
  show ns: "next_sequence (remove_key idx key) = next_sequence idx"
    by (auto simp: remove_key_def split: option.splits)
  show "ttl_inv (remove_key idx key)"
  proof (cases "map_of (by_key idx) key")
    case None
    then show ?thesis using inv by (simp add: remove_key_def)
  next
    case (Some removed)
    let ?i = "idx\<lparr>by_key := AList.delete key (by_key idx)\<rparr>"
    have rk: "remove_key idx key = remove_bindings ?i key removed"
      using Some by (simp add: remove_key_def)
    have wf: "hm_wf removed"
      using inv Some by (auto simp: ttl_inv_def ttl_shape_def)
    have mem: "m \<in> fst ` set removed \<longleftrightarrow> binding idx key m \<noteq> None" for m
      using Some by (simp add: binding_def map_of_eq_None_iff)
    have ex: "e \<in> snd ` set removed \<longleftrightarrow> (\<exists>m. binding idx key m = Some e)" for e
      using Some hm_in_set [OF wf] by (force simp: binding_def)
    have "ttl_shape ?i"
      using inv by (auto simp: ttl_inv_def ttl_shape_def hm_wf_delete split: if_splits)
    then have "ttl_shape (remove_key idx key)"
      by (simp add: rk remove_bindings_shape)
    moreover have "ttl_agree (remove_key idx key)"
    proof -
      have rv: "reverse_keys (remove_key idx key) m =
          (if binding idx key m \<noteq> None then reverse_keys idx m - {key} else reverse_keys idx m)"
        for m
        using mem [of m] by (simp add: rk remove_bindings_reverse reverse_keys_by_key)
      have rev: "k \<in> reverse_keys (remove_key idx key) m \<longleftrightarrow>
          binding (remove_key idx key) k m \<noteq> None" for k m
        using ttl_agreeD(1) [OF inv] by (auto simp: rv views)
      have exps: "map_of (expirations (remove_key idx key)) e =
          (if \<exists>m. binding idx key m = Some e then None else map_of (expirations idx) e)" for e
        by (simp add: rk remove_bindings_expirations ex)
      have "map_of (expirations (remove_key idx key)) e = Some (k, m) \<longleftrightarrow>
          binding (remove_key idx key) k m = Some e" for e k m
      proof (cases "\<exists>m. binding idx key m = Some e")
        case True
        then obtain m0 where "binding idx key m0 = Some e" ..
        then have "\<not> (binding idx k m = Some e \<and> k \<noteq> key)"
          using binding_inj [OF inv] by blast
        then show ?thesis using True by (auto simp: exps views)
      next
        case False
        then show ?thesis using ttl_agreeD(2) [OF inv] by (auto simp: exps views)
      qed
      then show ?thesis
        using rev binding_sequence [OF inv]
        by (intro ttl_agreeI) (auto simp: ns views split: if_splits)
    qed
    ultimately show ?thesis by (simp add: ttl_inv_def)
  qed
qed

text \<open>The expiry a binding has after \<^verbatim>\<open>bind\<close>: the later of the old and the new one.\<close>

definition later_expiry :: "Expiry option \<Rightarrow> Expiry \<Rightarrow> Expiry" where
  "later_expiry old new = (case old of None \<Rightarrow> new
     | Some p \<Rightarrow> if expires_at new \<le> expires_at p then p else new)"

definition add_binding ::
  "('k, 'm) TtlReverseIndex \<Rightarrow> 'k \<Rightarrow> 'm \<Rightarrow> nat \<Rightarrow> ('k, 'm) TtlReverseIndex" where
  "add_binding idx key member expires =
     (let bindings = (case map_of (by_key idx) key of None \<Rightarrow> [] | Some b \<Rightarrow> b);
          expiry = Expiry expires (next_sequence idx);
          keys = (case map_of (by_member idx) member of None \<Rightarrow> [] | Some ks \<Rightarrow> ks)
      in idx\<lparr>next_sequence := fetch_add64 (next_sequence idx) 1,
             by_key := AList.update key (AList.update member expiry bindings)
                         (AList.update key bindings (by_key idx)),
             by_member := AList.update member (List.insert key keys) (by_member idx),
             expirations := bt_insert expiry (key, member)
               (case map_of bindings member of None \<Rightarrow> expirations idx
                | Some previous \<Rightarrow> bt_remove previous (expirations idx))\<rparr>)"

lemma map_of_bindings:
  "map_of (case map_of (by_key idx) key of None \<Rightarrow> [] | Some b \<Rightarrow> b) m = binding idx key m"
  by (simp add: binding_def split: option.splits)

lemma bind_cases:
  "bind idx key member expires =
     (case binding idx key member of
        Some previous \<Rightarrow>
          if expires \<le> expires_at previous
          then idx\<lparr>by_key := AList.update key (the (map_of (by_key idx) key)) (by_key idx)\<rparr>
          else add_binding idx key member expires
      | None \<Rightarrow> add_binding idx key member expires)"
  by (auto simp: bind_def add_binding_def Let_def map_of_bindings binding_def
      split: option.splits)

lemma update_same_inv:
  assumes inv: "ttl_inv idx" and b: "map_of (by_key idx) key = Some b"
  shows "ttl_inv (idx\<lparr>by_key := AList.update key b (by_key idx)\<rparr>)"
    and "binding (idx\<lparr>by_key := AList.update key b (by_key idx)\<rparr>) = binding idx"
proof -
  let ?i = "idx\<lparr>by_key := AList.update key b (by_key idx)\<rparr>"
  have same: "map_of (AList.update key b (by_key idx)) = map_of (by_key idx)"
    using b by (auto simp: fun_eq_iff)
  show bi: "binding ?i = binding idx"
    by (simp add: binding_def same [simplified] fun_eq_iff b)
  have "ttl_shape ?i"
    using inv b by (auto simp: ttl_inv_def ttl_shape_def hm_wf_update)
  moreover have "ttl_agree ?i"
    using inv by (simp add: ttl_inv_def ttl_agree_def bi reverse_keys_by_key)
  ultimately show "ttl_inv ?i" by (simp add: ttl_inv_def)
qed

lemma add_binding_views:
  "binding (add_binding idx key member t) k m =
           (if k = key \<and> m = member then Some (Expiry t (next_sequence idx))
            else binding idx k m)"
  "reverse_keys (add_binding idx key member t) m =
           (if m = member then insert key (reverse_keys idx m) else reverse_keys idx m)"
  "map_of (expirations (add_binding idx key member t)) e =
           (if e = Expiry t (next_sequence idx) then Some (key, member)
            else if binding idx key member = Some e then None
            else map_of (expirations idx) e)"
  "next_sequence (add_binding idx key member t) = fetch_add64 (next_sequence idx) 1"
  by (auto simp: add_binding_def Let_def binding_def reverse_keys_def split: option.splits)

lemma add_binding_shape: "ttl_shape idx \<Longrightarrow> ttl_shape (add_binding idx key member t)"
  by (auto simp: add_binding_def Let_def ttl_shape_def hm_wf_update bt_wf_insert bt_wf_remove
      List.insert_def split: option.splits if_splits)

lemma add_binding_inv:
  assumes inv: "ttl_inv idx" and room: "next_sequence idx + 1 < two64"
  shows "ttl_inv (add_binding idx key member t)"
proof -
  let ?ne = "Expiry t (next_sequence idx)"
  have fresh: "binding idx k m \<noteq> Some ?ne" for k m
    using binding_sequence [OF inv, of k m ?ne] by auto
  have "ttl_agree (add_binding idx key member t)"
  proof (rule ttl_agreeI)
    fix k m e
    show "k \<in> reverse_keys (add_binding idx key member t) m \<longleftrightarrow>
        binding (add_binding idx key member t) k m \<noteq> None"
      using ttl_agreeD(1) [OF inv, of k m] by (auto simp: add_binding_views)
    have "\<not> (binding idx key member = Some e \<and> binding idx k m = Some e \<and>
        \<not> (k = key \<and> m = member))"
      using binding_inj [OF inv] by blast
    then show "map_of (expirations (add_binding idx key member t)) e = Some (k, m) \<longleftrightarrow>
        binding (add_binding idx key member t) k m = Some e"
      using ttl_agreeD(2) [OF inv, of e k m] fresh [of k m]
      by (cases "k = key \<and> m = member"; cases "e = ?ne") (auto simp: add_binding_views)
    show "binding (add_binding idx key member t) k m = Some e \<Longrightarrow>
        sequence e < next_sequence (add_binding idx key member t)"
      using binding_sequence [OF inv, of k m e] room
      by (auto simp: add_binding_views fetch_add64_lt split: if_splits)
  qed
  then show ?thesis
    using inv by (simp add: ttl_inv_def add_binding_shape)
qed

lemma bind_spec:
  assumes inv: "ttl_inv idx" and room: "next_sequence idx + 1 < two64"
  shows "ttl_inv (bind idx key member t)"
    and "binding (bind idx key member t) k m =
           (if k = key \<and> m = member
            then Some (later_expiry (binding idx key member) (Expiry t (next_sequence idx)))
            else binding idx k m)"
    and "next_sequence (bind idx key member t) \<le> next_sequence idx + 1"
    and "next_sequence idx \<le> next_sequence (bind idx key member t)"
proof -
  have has: "\<exists>b. map_of (by_key idx) key = Some b" if "binding idx key member = Some p" for p
    using that by (cases "map_of (by_key idx) key") (auto simp: binding_def)
  show "ttl_inv (bind idx key member t)"
    using has by (auto simp: bind_cases add_binding_inv [OF inv room] update_same_inv(1) [OF inv]
        split: option.splits)
  show "binding (bind idx key member t) k m =
           (if k = key \<and> m = member
            then Some (later_expiry (binding idx key member) (Expiry t (next_sequence idx)))
            else binding idx k m)"
    using has by (auto simp: bind_cases add_binding_views later_expiry_def
        update_same_inv(2) [OF inv] split: option.splits)
  show "next_sequence (bind idx key member t) \<le> next_sequence idx + 1"
    and "next_sequence idx \<le> next_sequence (bind idx key member t)"
    using room by (auto simp: bind_cases add_binding_views fetch_add64_lt split: option.splits)
qed

section \<open>The abstract contract\<close>

definition live_at :: "nat \<Rightarrow> ('p \<rightharpoonup> nat) \<Rightarrow> ('p \<rightharpoonup> nat)" where
  "live_at now T = (\<lambda>p. case T p of None \<Rightarrow> None | Some t \<Rightarrow> if t \<le> now then None else Some t)"

definition later_time :: "nat option \<Rightarrow> nat \<Rightarrow> nat" where
  "later_time old t = (case old of None \<Rightarrow> t | Some p \<Rightarrow> max p t)"

definition extend_times ::
  "('k \<times> 'm \<rightharpoonup> nat) \<Rightarrow> 'k \<Rightarrow> 'm set \<Rightarrow> nat \<Rightarrow> ('k \<times> 'm \<rightharpoonup> nat)" where
  "extend_times T key ms t =
     (\<lambda>(k, m). if k = key \<and> m \<in> ms then Some (later_time (T (k, m)) t) else T (k, m))"

definition drop_key :: "('k \<times> 'm \<rightharpoonup> nat) \<Rightarrow> 'k \<Rightarrow> ('k \<times> 'm \<rightharpoonup> nat)" where
  "drop_key T key = (\<lambda>(k, m). if k = key then None else T (k, m))"

lemma evict_expired_inv: "ttl_inv idx \<Longrightarrow> ttl_inv (evict_expired idx now)"
  by (simp add: evict_expired_spec)

lemma evict_expired_seq: "ttl_inv idx \<Longrightarrow> next_sequence (evict_expired idx now) = next_sequence idx"
  by (simp add: evict_expired_spec)

lemma evict_expired_time:
  "ttl_inv idx \<Longrightarrow> binding_time (evict_expired idx now) = live_at now (binding_time idx)"
  using evict_expired_spec [of idx now]
  by (auto simp: binding_time_def live_at_def not_expired_def fun_eq_iff split: option.splits)

lemma remove_key_time:
  "ttl_inv idx \<Longrightarrow> binding_time (remove_key idx key) = drop_key (binding_time idx) key"
  by (auto simp: binding_time_def drop_key_def remove_key_spec(2) fun_eq_iff)

lemma bind_time:
  assumes "ttl_inv idx" and "next_sequence idx + 1 < two64"
  shows "binding_time (bind idx key member t) = extend_times (binding_time idx) key {member} t"
  by (auto simp: binding_time_def extend_times_def later_time_def later_expiry_def
      bind_spec(2) [OF assms] fun_eq_iff split: option.splits)

lemma bind_all_spec:
  assumes "ttl_inv idx" and "next_sequence idx + length ms < two64"
  shows "ttl_inv (bind_all idx key ms t) \<and>
         binding_time (bind_all idx key ms t) = extend_times (binding_time idx) key (set ms) t \<and>
         next_sequence (bind_all idx key ms t) \<le> next_sequence idx + length ms"
  using assms
proof (induction ms arbitrary: idx)
  case Nil
  then show ?case by (simp add: bind_all_def extend_times_def)
next
  case (Cons m ms)
  let ?i = "bind idx key m t"
  have room: "next_sequence idx + 1 < two64" using Cons.prems(2) by simp
  note b = bind_spec [OF Cons.prems(1) room, of key m t]
  have "next_sequence ?i + length ms < two64" using b(3) Cons.prems(2) by simp
  then have IH: "ttl_inv (bind_all ?i key ms t)"
      "binding_time (bind_all ?i key ms t) = extend_times (binding_time ?i) key (set ms) t"
      "next_sequence (bind_all ?i key ms t) \<le> next_sequence ?i + length ms"
    using Cons.IH [OF b(1)] by auto
  have unf: "bind_all idx key (m # ms) t = bind_all ?i key ms t" by (simp add: bind_all_def)
  show ?case
    unfolding unf using IH b(3)
    by (auto simp: bind_time [OF Cons.prems(1) room] extend_times_def later_time_def fun_eq_iff
        split: option.splits)
qed

lemma member_matches_iff:
  assumes "ttl_inv idx"
  shows "member_matches idx m now P \<longleftrightarrow>
         (\<exists>k t. binding_time idx (k, m) = Some t \<and> now < t \<and> P k)"
proof -
  have inner: "(case map_of (by_key idx) key of
        None \<Rightarrow> False
      | Some bindings \<Rightarrow>
          (case map_of bindings m of
             None \<Rightarrow> False
           | Some expiry \<Rightarrow> expires_at expiry > now \<and> P key)) =
      (\<exists>e. binding idx key m = Some e \<and> now < expires_at e \<and> P key)" for key
    by (auto simp: binding_def split: option.splits)
  have "member_matches idx m now P \<longleftrightarrow>
      (\<exists>k \<in> reverse_keys idx m. \<exists>e. binding idx k m = Some e \<and> now < expires_at e \<and> P k)"
    by (simp add: member_matches_def inner reverse_keys_def list_ex_iff split: option.splits)
  then show ?thesis
    using ttl_agreeD(1) [OF assms] by (auto simp: binding_time_def)
qed

lemma binding_count_card:
  assumes "ttl_inv idx"
  shows "binding_count idx = card (dom (binding_time idx))"
    and "finite (dom (binding_time idx))"
proof -
  have wf: "bt_wf (expirations idx)" using assms by (simp add: ttl_inv_def ttl_shape_def)
  let ?E = "dom (map_of (expirations idx))"
  have "bij_betw (\<lambda>e. the (map_of (expirations idx) e)) ?E (dom (binding_time idx))"
  proof (rule bij_betw_imageI)
    show "inj_on (\<lambda>e. the (map_of (expirations idx) e)) ?E"
    proof (rule inj_onI)
      fix e e' assume "e \<in> ?E" "e' \<in> ?E"
        and eq: "the (map_of (expirations idx) e) = the (map_of (expirations idx) e')"
      then obtain k m where "map_of (expirations idx) e = Some (k, m)"
        "map_of (expirations idx) e' = Some (k, m)" by (metis domD option.sel surj_pair)
      then show "e = e'" using ttl_agreeD(2) [OF assms] by simp
    qed
    show "(\<lambda>e. the (map_of (expirations idx) e)) ` ?E = dom (binding_time idx)"
    proof (intro set_eqI iffI)
      fix p assume "p \<in> (\<lambda>e. the (map_of (expirations idx) e)) ` ?E"
      then show "p \<in> dom (binding_time idx)"
        using ttl_agreeD(2) [OF assms] by (cases p) (fastforce simp: binding_time_def)
    next
      fix p assume "p \<in> dom (binding_time idx)"
      then obtain k m e where "p = (k, m)" "binding idx k m = Some e"
        by (cases p) (auto simp: binding_time_def)
      then have "map_of (expirations idx) e = Some p" using ttl_agreeD(2) [OF assms] by simp
      then show "p \<in> (\<lambda>e. the (map_of (expirations idx) e)) ` ?E" by force
    qed
  qed
  then show "binding_count idx = card (dom (binding_time idx))"
    and "finite (dom (binding_time idx))"
    using bt_length [OF wf] bij_betw_same_card bij_betw_finite finite_dom_map_of
    by (auto simp: binding_count_def) blast
qed

lemma member_count_card:
  assumes "ttl_inv idx"
  shows "member_count idx key = card {m. binding_time idx (key, m) \<noteq> None}"
proof (cases "map_of (by_key idx) key")
  case None
  then show ?thesis by (simp add: member_count_def binding_time_def binding_def)
next
  case (Some b)
  then have "hm_wf b" using assms by (auto simp: ttl_inv_def ttl_shape_def)
  then have "length b = card (dom (map_of b))" by (rule hm_length)
  then show ?thesis using Some by (simp add: member_count_def binding_time_def binding_def dom_def)
qed

lemma collect_unique_spec:
  fixes existing :: "('m \<times> Expiry) list option"
  defines "E \<equiv> {m. case existing of None \<Rightarrow> False | Some b \<Rightarrow> map_of b m \<noteq> None}"
  assumes "added \<le> remaining"
  shows "case collect_unique existing remaining ms unique added of
      None \<Rightarrow> remaining < added + card (set ms - set unique - E)
    | Some u \<Rightarrow> added + card (set ms - set unique - E) \<le> remaining \<and>
        set u = set unique \<union> set ms \<and> length u \<le> length unique + length ms"
  using assms(2)
proof (induction ms arbitrary: unique added)
  case Nil
  then show ?case by simp
next
  case (Cons m ms)
  consider (dup) "m \<in> set unique" | (old) "m \<notin> set unique" "m \<in> E"
    | (full) "m \<notin> set unique" "m \<notin> E" "remaining < added + 1"
    | (new) "m \<notin> set unique" "m \<notin> E" "added + 1 \<le> remaining" by linarith
  then show ?case
  proof cases
    case dup
    then have "set (m # ms) - set unique - E = set ms - set unique - E" by auto
    then show ?thesis using Cons.IH [of added unique] Cons.prems dup
      by (auto split: option.splits)
  next
    case old
    then have "set (m # ms) - set unique - E = set ms - set (unique @ [m]) - E" by auto
    moreover have "(case existing of None \<Rightarrow> False | Some b \<Rightarrow> map_of b m \<noteq> None)"
      using old by (simp add: E_def)
    ultimately show ?thesis using Cons.IH [of added "unique @ [m]"] Cons.prems old
      by (auto split: option.splits)
  next
    case full
    then have "0 < card (set (m # ms) - set unique - E)" by (auto simp: card_gt_0_iff)
    then have "remaining < added + card (set (m # ms) - set unique - E)"
      using full by linarith
    moreover have "\<not> (case existing of None \<Rightarrow> False | Some b \<Rightarrow> map_of b m \<noteq> None)"
      using full by (simp add: E_def)
    ultimately show ?thesis using full by simp
  next
    case new
    have "set (m # ms) - set unique - E = insert m (set ms - set (unique @ [m]) - E)"
      using new by auto
    then have "card (set (m # ms) - set unique - E) = Suc (card (set ms - set (unique @ [m]) - E))"
      by simp
    moreover have "\<not> (case existing of None \<Rightarrow> False | Some b \<Rightarrow> map_of b m \<noteq> None)"
      using new by (simp add: E_def)
    ultimately show ?thesis using Cons.IH [of "added + 1" "unique @ [m]"] new
      by (auto split: option.splits)
  qed
qed

text \<open>The members of an answer that are not bound yet.\<close>

definition new_members :: "('k \<times> 'm \<rightharpoonup> nat) \<Rightarrow> 'k \<Rightarrow> 'm list \<Rightarrow> 'm set" where
  "new_members T key ms = {m \<in> set ms. T (key, m) = None}"

lemma try_extend_spec:
  fixes now :: nat
  assumes inv: "ttl_inv idx" and room: "next_sequence idx + length ms < two64"
  defines "T \<equiv> live_at now (binding_time idx)"
  shows "fst (try_extend idx key ms ttl now cap) \<longleftrightarrow>
           card (new_members T key ms) \<le> cap - card (dom T)"
    and "ttl_inv (snd (try_extend idx key ms ttl now cap))"
    and "binding_time (snd (try_extend idx key ms ttl now cap)) =
           (if fst (try_extend idx key ms ttl now cap)
            then extend_times T key (set ms) (now + ttl) else T)"
proof -
  let ?i = "evict_expired idx now"
  let ?ex = "map_of (by_key ?i) key"
  let ?c = "collect_unique ?ex (cap - length (expirations ?i)) ms [] 0"
  note iv = evict_expired_inv [OF inv, of now]
  have T: "binding_time ?i = T" by (simp add: T_def evict_expired_time [OF inv])
  have cnt: "length (expirations ?i) = card (dom T)"
    using binding_count_card(1) [OF iv] by (simp add: binding_count_def T)
  have "set ms - set [] - {m. case ?ex of None \<Rightarrow> False | Some b \<Rightarrow> map_of b m \<noteq> None} =
      new_members T key ms"
    by (auto simp: new_members_def T [symmetric] binding_time_def binding_def
        split: option.splits)
  then have c: "case ?c of None \<Rightarrow> cap - card (dom T) < card (new_members T key ms)
      | Some u \<Rightarrow> card (new_members T key ms) \<le> cap - card (dom T) \<and> set u = set ms \<and>
          length u \<le> length ms"
    using collect_unique_spec [where existing = ?ex and ms = ms and unique = "[]" and added = 0
        and remaining = "cap - length (expirations ?i)"]
    by (auto simp: cnt split: option.splits)
  have all: "ttl_inv (bind_all ?i key u (now + ttl)) \<and>
      binding_time (bind_all ?i key u (now + ttl)) = extend_times T key (set u) (now + ttl)"
    if "length u \<le> length ms" for u
    using bind_all_spec [OF iv, of u key "now + ttl"] that room
    by (simp add: evict_expired_seq [OF inv] T)
  show "fst (try_extend idx key ms ttl now cap) \<longleftrightarrow>
      card (new_members T key ms) \<le> cap - card (dom T)"
    using c by (auto simp: try_extend_def Let_def split: option.splits)
  show "ttl_inv (snd (try_extend idx key ms ttl now cap))"
    using c all iv by (auto simp: try_extend_def Let_def split: option.splits)
  show "binding_time (snd (try_extend idx key ms ttl now cap)) =
      (if fst (try_extend idx key ms ttl now cap)
       then extend_times T key (set ms) (now + ttl) else T)"
    using c all by (auto simp: try_extend_def Let_def T split: option.splits)
qed

lemma dom_extend_times:
  "dom (extend_times T key (set ms) t) = dom T \<union> Pair key ` new_members T key ms"
  by (auto simp: extend_times_def new_members_def dom_def split: if_splits)

lemma try_extend_within_capacity:
  assumes inv: "ttl_inv idx" and room: "next_sequence idx + length ms < two64"
    and cap: "card (dom (live_at now (binding_time idx))) \<le> cap"
  shows "binding_count (snd (try_extend idx key ms ttl now cap)) \<le> cap"
proof -
  let ?T = "live_at now (binding_time idx)"
  note sp = try_extend_spec [OF inv room, where now = now and key = key and ttl = ttl and cap = cap]
  have "card (Pair key ` new_members ?T key ms) \<le> card (new_members ?T key ms)"
    by (rule card_image_le) (simp add: new_members_def)
  moreover have "card (dom (extend_times ?T key (set ms) (now + ttl))) \<le>
      card (dom ?T) + card (Pair key ` new_members ?T key ms)"
    unfolding dom_extend_times by (rule card_Un_le)
  ultimately have grow: "card (dom (extend_times ?T key (set ms) (now + ttl))) \<le>
      card (dom ?T) + card (new_members ?T key ms)"
    by linarith
  show ?thesis
  proof (cases "fst (try_extend idx key ms ttl now cap)")
    case True
    then have "card (new_members ?T key ms) \<le> cap - card (dom ?T)" using sp(1) by simp
    then show ?thesis
      using True grow cap sp(3) by (simp add: binding_count_card(1) [OF sp(2)])
  next
    case False
    then show ?thesis using cap sp(3) by (simp add: binding_count_card(1) [OF sp(2)])
  qed
qed

section \<open>The interface to clients\<close>

text \<open>What a client of the index relies on: a query is exactly the existence of a live binding,
  and eviction removes exactly the bindings that are no longer live.\<close>

locale expiring_bindings =
  fixes times :: "'i \<Rightarrow> 'k \<times> 'm \<Rightarrow> nat option"
    and matches :: "'i \<Rightarrow> 'm \<Rightarrow> nat \<Rightarrow> ('k \<Rightarrow> bool) \<Rightarrow> bool"
    and evict :: "'i \<Rightarrow> nat \<Rightarrow> 'i"
    and ok :: "'i \<Rightarrow> bool"
  assumes matches_iff: "ok i \<Longrightarrow> matches i m now P \<longleftrightarrow>
      (\<exists>k t. times i (k, m) = Some t \<and> now < t \<and> P k)"
    and times_evict: "ok i \<Longrightarrow> times (evict i now) = live_at now (times i)"
    and ok_evict: "ok i \<Longrightarrow> ok (evict i now)"
begin

lemma matches_mono:
  "ok i \<Longrightarrow> (\<And>k. P k \<Longrightarrow> Q k) \<Longrightarrow> matches i m now P \<Longrightarrow> matches i m now Q"
  by (auto simp: matches_iff)

lemma matches_False: "ok i \<Longrightarrow> \<not> matches i m now (\<lambda>_. False)"
  by (simp add: matches_iff)

lemma matches_earlier:
  "ok i \<Longrightarrow> now \<le> now' \<Longrightarrow> matches i m now' P \<Longrightarrow> matches i m now P"
  by (force simp: matches_iff)

lemma matches_evict:
  "ok i \<Longrightarrow> now \<le> now' \<Longrightarrow> matches (evict i now) m now' P \<longleftrightarrow> matches i m now' P"
  by (fastforce simp: matches_iff ok_evict times_evict live_at_def split: option.splits if_splits)

end

interpretation ttl: expiring_bindings binding_time member_matches evict_expired
  "ttl_inv :: ('k, 'm) TtlReverseIndex \<Rightarrow> bool"
  by unfold_locales (auto simp: member_matches_iff evict_expired_time evict_expired_inv)

lemma ttl_default_empty [simp]:
  "binding_time ttl_default = Map.empty"
  "next_sequence ttl_default = 0"
  "live_at now Map.empty = Map.empty"
  "drop_key Map.empty key = Map.empty"
  by (simp_all add: binding_time_def binding_def ttl_default_def live_at_def drop_key_def fun_eq_iff)

section \<open>Properties\<close>

text \<open>C8. Every mutating method of the index refines its abstract contract on the table of expiry
  times and keeps the three internal maps in agreement: \<^verbatim>\<open>insert\<close> replaces the live bindings of the
  key, \<^verbatim>\<open>extend\<close> adds to them and never shortens a binding, \<^verbatim>\<open>remove\<close> drops them, and each of
  them first drops exactly the bindings that have expired.\<close>

theorem ttl_methods_refine:
  assumes inv: "ttl_inv idx" and room: "next_sequence idx + length ms < two64"
  shows "(let T = live_at now (binding_time idx) in
     ttl_inv (ttl_insert idx key ms ttl now) \<and>
     binding_time (ttl_insert idx key ms ttl now) =
       extend_times (drop_key T key) key (set ms) (now + ttl) \<and>
     ttl_inv (ttl_extend idx key ms ttl now) \<and>
     binding_time (ttl_extend idx key ms ttl now) = extend_times T key (set ms) (now + ttl) \<and>
     ttl_inv (ttl_remove idx key now) \<and>
     binding_time (ttl_remove idx key now) = drop_key T key)"
proof -
  let ?e = "evict_expired idx now"
  note ev = evict_expired_inv [OF inv, of now] evict_expired_time [OF inv, of now]
  have rs: "next_sequence (remove_key ?e key) = next_sequence idx"
    using remove_key_spec(3) [OF ev(1)] by (simp add: evict_expired_seq [OF inv])
  note rk = remove_key_spec(1) [OF ev(1), of key] remove_key_time [OF ev(1)]
  have "ttl_inv (ttl_insert idx key ms ttl now) \<and> binding_time (ttl_insert idx key ms ttl now) =
      extend_times (drop_key (live_at now (binding_time idx)) key) key (set ms) (now + ttl)"
    using bind_all_spec [OF rk(1), of ms "key" "now + ttl"] room
    by (simp add: ttl_insert_def rs rk(2) ev(2))
  moreover have "ttl_inv (ttl_extend idx key ms ttl now) \<and> binding_time (ttl_extend idx key ms ttl now) =
      extend_times (live_at now (binding_time idx)) key (set ms) (now + ttl)"
    using bind_all_spec [OF ev(1), of ms key "now + ttl"] room
    by (simp add: ttl_extend_def evict_expired_seq [OF inv] ev(2))
  moreover have "ttl_inv (ttl_remove idx key now) \<and>
      binding_time (ttl_remove idx key now) = drop_key (live_at now (binding_time idx)) key"
    using rk by (simp add: ttl_remove_def ev(2))
  ultimately show ?thesis by (simp add: Let_def)
qed

theorem ttl_methods_refine_witness:
  "binding_time (ttl_insert ttl_default ''k'' [1, 2 :: nat] 10 5) (''k'', 2) = Some 15"
  using ttl_methods_refine [of ttl_default "[1, 2 :: nat]" 5 "''k''" 10, OF ttl_inv_default]
  by (simp add: Let_def extend_times_def later_time_def)

text \<open>C9. A bounded extension accepts the whole list exactly when its members that are not bound
  yet fit in the capacity left after eviction; an accepted list is bound to the new expiry, a
  rejected one changes no live binding, and an index within its capacity stays within it.\<close>

theorem try_extend_all_or_nothing:
  assumes inv: "ttl_inv idx" and room: "next_sequence idx + length ms < two64"
  shows "(let T = live_at now (binding_time idx); (ok, idx') = try_extend idx key ms ttl now cap in
     (ok \<longleftrightarrow> card (new_members T key ms) \<le> cap - binding_count (evict_expired idx now)) \<and>
     ttl_inv idx' \<and>
     binding_time idx' = (if ok then extend_times T key (set ms) (now + ttl) else T) \<and>
     (binding_count idx \<le> cap \<longrightarrow> binding_count idx' \<le> cap))"
proof -
  note sp = try_extend_spec [OF inv room, where now = now and key = key and ttl = ttl and cap = cap]
  have cnt: "binding_count (evict_expired idx now) = card (dom (live_at now (binding_time idx)))"
    using binding_count_card(1) [OF evict_expired_inv [OF inv]] by (simp add: evict_expired_time [OF inv])
  have "card (dom (live_at now (binding_time idx))) \<le> binding_count idx"
    unfolding binding_count_card(1) [OF inv]
    by (intro card_mono binding_count_card(2) [OF inv])
      (auto simp: live_at_def split: option.splits)
  then have "binding_count idx \<le> cap \<Longrightarrow> binding_count (snd (try_extend idx key ms ttl now cap)) \<le> cap"
    using try_extend_within_capacity [OF inv room, of now cap key ttl] by simp
  then show ?thesis using sp cnt by (simp add: Let_def case_prod_beta)
qed

theorem try_extend_all_or_nothing_witness:
  "fst (try_extend ttl_default ''k'' [1, 2 :: nat] 10 5 2) \<and>
   \<not> fst (try_extend ttl_default ''k'' [1, 2 :: nat] 10 5 1)"
proof -
  have "new_members (\<lambda>_. None) ''k'' [1, 2 :: nat] = {1, 2}" by (auto simp: new_members_def)
  moreover have "binding_count (evict_expired (ttl_default :: (string, nat) TtlReverseIndex) 5) = 0"
    by (simp add: binding_count_def evict_expired.simps ttl_default_def)
  ultimately show ?thesis
    using try_extend_all_or_nothing [of ttl_default "[1, 2 :: nat]" 5 "''k''" 10 2, OF ttl_inv_default]
      try_extend_all_or_nothing [of ttl_default "[1, 2 :: nat]" 5 "''k''" 10 1, OF ttl_inv_default]
    by (simp add: Let_def case_prod_beta)
qed

text \<open>C18. A query by member answers exactly whether some key satisfying the predicate has a live
  binding to the member; in particular an expired binding never matches, evicted or not.\<close>

theorem member_matches_exact:
  assumes "ttl_inv idx"
  shows "(member_matches idx m now P \<longleftrightarrow>
            (\<exists>k t. binding_time idx (k, m) = Some t \<and> now < t \<and> P k)) \<and>
    (now' \<le> now \<longrightarrow>
       member_matches (evict_expired idx now') m now P = member_matches idx m now P)"
  using ttl.matches_iff [OF assms] ttl.matches_evict [OF assms] by auto

theorem member_matches_exact_witness:
  "\<not> member_matches (ttl_default :: (string, nat) TtlReverseIndex) 3 7 (\<lambda>_. True)"
  using member_matches_exact [OF ttl_inv_default, of "3 :: nat" 7 "\<lambda>_ :: string. True"]
  by simp

end
