(* ===== verification/Shared_State.thy ===== *)
theory Shared_State
  imports Net_Addr Ttl_Index
begin

text \<open>
  \<^verbatim>\<open>crates/network/lib/engine/netstack/shared.rs\<close>: the state the network threads share, as far as
  policy decisions and byte accounting read it. Write-once cells (\<^verbatim>\<open>OnceLock\<close>) are options that
  the first set fills; the resolved-hostname cache is a \<open>TtlReverseIndex\<close>. The frame queues are
  those of the external crate \<^verbatim>\<open>crossbeam_queue\<close>: their type is a parameter and so is their
  \<^verbatim>\<open>push\<close>, which returns nothing when the queue is full. The current time is an argument.
\<close>

section \<open>State\<close>

datatype ResolvedHostnameFamily = Ipv4 | Ipv6

datatype ResolvedHostnameKey =
  ResolvedHostnameKey (hostname: string) (family: ResolvedHostnameFamily)

record NetworkMetrics =
  metrics_tx_bytes :: u64
  metrics_rx_bytes :: u64

record ('p, 'q) SharedState =
  tx_ring :: 'q
  rx_ring :: 'q
  resolved_hostnames :: "(ResolvedHostnameKey, IpAddr) TtlReverseIndex"
  gateway_ipv4_cell :: "Ipv4Addr option"
  gateway_ipv6_cell :: "Ipv6Addr option"
  nat64_prefixes_cell :: "'p list option"
  metrics :: NetworkMetrics

definition MAX_RESOLVED_HOSTNAME_BINDINGS :: nat where
  "MAX_RESOLVED_HOSTNAME_BINDINGS = 16384"

definition MAX_BINDINGS_PER_HOSTNAME :: nat where
  "MAX_BINDINGS_PER_HOSTNAME = 1024"

definition new_shared :: "'q \<Rightarrow> ('p, 'q) SharedState" where
  "new_shared empty_queue =
     \<lparr>tx_ring = empty_queue, rx_ring = empty_queue, resolved_hostnames = ttl_default,
      gateway_ipv4_cell = None, gateway_ipv6_cell = None, nat64_prefixes_cell = None,
      metrics = \<lparr>metrics_tx_bytes = 0, metrics_rx_bytes = 0\<rparr>\<rparr>"

text \<open>\<^verbatim>\<open>OnceLock::set\<close>: only the first value is kept.\<close>

definition once_set :: "'a \<Rightarrow> 'a option \<Rightarrow> 'a option" where
  "once_set v cell = (case cell of None \<Rightarrow> Some v | Some w \<Rightarrow> Some w)"

lemma once_set_set [simp]: "once_set w (once_set v cell) = once_set v cell"
  by (simp add: once_set_def split: option.splits)

section \<open>Gateway addresses and NAT64 prefixes\<close>

definition set_gateway_ips ::
  "Ipv4Addr option \<Rightarrow> Ipv6Addr option \<Rightarrow> ('p, 'q) SharedState \<Rightarrow> ('p, 'q) SharedState" where
  "set_gateway_ips ipv4 ipv6 s =
     (let s1 = (case ipv4 of None \<Rightarrow> s
                | Some a \<Rightarrow> s\<lparr>gateway_ipv4_cell := once_set a (gateway_ipv4_cell s)\<rparr>)
      in case ipv6 of None \<Rightarrow> s1
         | Some a \<Rightarrow> s1\<lparr>gateway_ipv6_cell := once_set a (gateway_ipv6_cell s1)\<rparr>)"

definition gateway_ipv4 :: "('p, 'q) SharedState \<Rightarrow> Ipv4Addr option" where
  "gateway_ipv4 s = gateway_ipv4_cell s"

definition gateway_ipv6 :: "('p, 'q) SharedState \<Rightarrow> Ipv6Addr option" where
  "gateway_ipv6 s = gateway_ipv6_cell s"

definition set_nat64_prefixes :: "'p list \<Rightarrow> ('p, 'q) SharedState \<Rightarrow> ('p, 'q) SharedState" where
  "set_nat64_prefixes prefixes s =
     s\<lparr>nat64_prefixes_cell := once_set prefixes (nat64_prefixes_cell s)\<rparr>"

definition nat64_prefixes :: "('p, 'q) SharedState \<Rightarrow> 'p list" where
  "nat64_prefixes s = (case nat64_prefixes_cell s of None \<Rightarrow> [] | Some ps \<Rightarrow> ps)"

section \<open>Hostnames\<close>

definition ascii_lower_char :: "char \<Rightarrow> char" where
  "ascii_lower_char c =
     (if 65 \<le> (of_char c :: nat) \<and> (of_char c :: nat) \<le> 90 then char_of ((of_char c :: nat) + 32) else c)"

definition to_ascii_lowercase :: "string \<Rightarrow> string" where
  "to_ascii_lowercase s = map ascii_lower_char s"

definition trim_end_dots :: "string \<Rightarrow> string" where
  "trim_end_dots s = rev (dropWhile (\<lambda>c. c = CHR ''.'') (rev s))"

definition trim_start_dots :: "string \<Rightarrow> string" where
  "trim_start_dots s = dropWhile (\<lambda>c. c = CHR ''.'') s"

definition normalize_hostname :: "string \<Rightarrow> string" where
  "normalize_hostname domain = to_ascii_lowercase (trim_end_dots domain)"

section \<open>The resolved-hostname cache\<close>

definition cache_resolved_hostname ::
  "string \<Rightarrow> ResolvedHostnameFamily \<Rightarrow> IpAddr list \<Rightarrow> nat \<Rightarrow> nat
     \<Rightarrow> ('p, 'q) SharedState \<Rightarrow> bool \<times> ('p, 'q) SharedState" where
  "cache_resolved_hostname domain fam addrs ttl now s =
     (let host = normalize_hostname domain;
          key = ResolvedHostnameKey host fam;
          addrs' = map normalize_ip_addr addrs;
          index = evict_expired (resolved_hostnames s) now;
          ipv4_bindings = member_count index (ResolvedHostnameKey host Ipv4);
          ipv6_bindings = member_count index (ResolvedHostnameKey host Ipv6);
          hostname_bindings = ipv4_bindings + ipv6_bindings;
          total_bindings = binding_count index;
          hostname_slots = MAX_BINDINGS_PER_HOSTNAME - hostname_bindings;
          sandbox_slots = MAX_RESOLVED_HOSTNAME_BINDINGS - total_bindings;
          available_slots = min hostname_slots sandbox_slots;
          capacity = total_bindings + available_slots;
          (ok, index') = try_extend index key addrs' ttl now capacity
      in (ok, s\<lparr>resolved_hostnames := index'\<rparr>))"

definition clear_resolved_hostname ::
  "string \<Rightarrow> ResolvedHostnameFamily \<Rightarrow> nat \<Rightarrow> ('p, 'q) SharedState \<Rightarrow> ('p, 'q) SharedState" where
  "clear_resolved_hostname domain fam now s =
     s\<lparr>resolved_hostnames :=
         ttl_remove (resolved_hostnames s) (ResolvedHostnameKey (normalize_hostname domain) fam) now\<rparr>"

definition any_resolved_hostname ::
  "('p, 'q) SharedState \<Rightarrow> nat \<Rightarrow> IpAddr \<Rightarrow> (string \<Rightarrow> bool) \<Rightarrow> bool" where
  "any_resolved_hostname s now addr predicate =
     member_matches (resolved_hostnames s) (normalize_ip_addr addr) now (\<lambda>key. predicate (hostname key))"

text \<open>The predicate that \<^verbatim>\<open>resolved_hostname_for\<close> passes to \<^verbatim>\<open>member_matches\<close> always returns
  false, so every live key of the address is visited, and it carries the smallest name so far.\<close>

fun smallest_live ::
  "(ResolvedHostnameKey, IpAddr) TtlReverseIndex \<Rightarrow> IpAddr \<Rightarrow> nat \<Rightarrow> ResolvedHostnameKey list
     \<Rightarrow> string option \<Rightarrow> string option" where
  "smallest_live idx addr now [] smallest = smallest"
| "smallest_live idx addr now (key # keys) smallest =
     (let live = (case map_of (by_key idx) key of
                    None \<Rightarrow> False
                  | Some bindings \<Rightarrow>
                      (case map_of bindings addr of
                         None \<Rightarrow> False
                       | Some expiry \<Rightarrow> expires_at expiry > now));
          smallest' = (if \<not> live then smallest
                       else case smallest of
                              None \<Rightarrow> Some (hostname key)
                            | Some current \<Rightarrow>
                                if hostname key < current then Some (hostname key) else smallest)
      in smallest_live idx addr now keys smallest')"

definition resolved_hostname_for ::
  "('p, 'q) SharedState \<Rightarrow> nat \<Rightarrow> IpAddr \<Rightarrow> string option" where
  "resolved_hostname_for s now addr =
     (let a = normalize_ip_addr addr; idx = resolved_hostnames s
      in case map_of (by_member idx) a of
           None \<Rightarrow> None
         | Some keys \<Rightarrow> smallest_live idx a now keys None)"

text \<open>Maintenance takes the lock only when it is free.\<close>

definition cleanup_resolved_hostnames ::
  "bool \<Rightarrow> nat \<Rightarrow> ('p, 'q) SharedState \<Rightarrow> ('p, 'q) SharedState" where
  "cleanup_resolved_hostnames lock_free now s =
     (if lock_free then s\<lparr>resolved_hostnames := evict_expired (resolved_hostnames s) now\<rparr> else s)"

section \<open>Byte counters\<close>

definition add_tx_bytes :: "nat \<Rightarrow> ('p, 'q) SharedState \<Rightarrow> ('p, 'q) SharedState" where
  "add_tx_bytes bytes s =
     s\<lparr>metrics := (metrics s)\<lparr>metrics_tx_bytes := fetch_add64 (metrics_tx_bytes (metrics s)) bytes\<rparr>\<rparr>"

definition add_rx_bytes :: "nat \<Rightarrow> ('p, 'q) SharedState \<Rightarrow> ('p, 'q) SharedState" where
  "add_rx_bytes bytes s =
     s\<lparr>metrics := (metrics s)\<lparr>metrics_rx_bytes := fetch_add64 (metrics_rx_bytes (metrics s)) bytes\<rparr>\<rparr>"

definition push_rx_frame ::
  "('q \<Rightarrow> u8 list \<Rightarrow> 'q option) \<Rightarrow> u8 list \<Rightarrow> ('p, 'q) SharedState \<Rightarrow> bool \<times> ('p, 'q) SharedState" where
  "push_rx_frame push frame s =
     (let frame_len = length frame
      in case push (rx_ring s) frame of
           None \<Rightarrow> (False, s)
         | Some q \<Rightarrow> (True, add_rx_bytes frame_len (s\<lparr>rx_ring := q\<rparr>)))"

definition tx_bytes :: "('p, 'q) SharedState \<Rightarrow> u64" where
  "tx_bytes s = metrics_tx_bytes (metrics s)"

definition rx_bytes :: "('p, 'q) SharedState \<Rightarrow> u64" where
  "rx_bytes s = metrics_rx_bytes (metrics s)"

section \<open>Cache invariant\<close>

definition live_names :: "('p, 'q) SharedState \<Rightarrow> nat \<Rightarrow> IpAddr \<Rightarrow> string set" where
  "live_names s now addr =
     {h. \<exists>fam t. binding_time (resolved_hostnames s) (ResolvedHostnameKey h fam, normalize_ip_addr addr) = Some t
          \<and> now < t}"

definition hostname_bindings_of ::
  "(ResolvedHostnameKey, IpAddr) TtlReverseIndex \<Rightarrow> string \<Rightarrow> (ResolvedHostnameKey \<times> IpAddr) set" where
  "hostname_bindings_of idx h = {p \<in> dom (binding_time idx). hostname (fst p) = h}"

definition shared_inv :: "('p, 'q) SharedState \<Rightarrow> bool" where
  "shared_inv s \<longleftrightarrow>
     ttl_inv (resolved_hostnames s) \<and>
     binding_count (resolved_hostnames s) \<le> MAX_RESOLVED_HOSTNAME_BINDINGS \<and>
     (\<forall>h. card (hostname_bindings_of (resolved_hostnames s) h) \<le> MAX_BINDINGS_PER_HOSTNAME)"

section \<open>Queries\<close>

lemma any_resolved_iff:
  assumes "ttl_inv (resolved_hostnames s)"
  shows "any_resolved_hostname s now addr P \<longleftrightarrow> (\<exists>h \<in> live_names s now addr. P h)"
proof -
  have "(\<exists>k t. binding_time (resolved_hostnames s) (k, a) = Some t \<and> now < t \<and> P (hostname k)) \<longleftrightarrow>
      (\<exists>h fam t. binding_time (resolved_hostnames s) (ResolvedHostnameKey h fam, a) = Some t \<and>
        now < t \<and> P h)" for a
    by (metis ResolvedHostnameKey.collapse ResolvedHostnameKey.sel(1))
  then show ?thesis
    by (auto simp: any_resolved_hostname_def ttl.matches_iff [OF assms] live_names_def)
qed

lemma live_names_time:
  "now \<le> now' \<Longrightarrow> live_names s now' addr \<subseteq> live_names s now addr"
  by (auto simp: live_names_def intro: le_less_trans)

lemma live_names_normalized [simp]: "live_names s now (normalize_ip_addr addr) = live_names s now addr"
  by (simp add: live_names_def)

lemma any_resolved_normalized:
  "any_resolved_hostname s now (normalize_ip_addr addr) P = any_resolved_hostname s now addr P"
  by (simp add: any_resolved_hostname_def)

definition min_name :: "string option \<Rightarrow> string set \<Rightarrow> string option" where
  "min_name start H = (let H' = set_option start \<union> H in if H' = {} then None else Some (Min H'))"

lemma min_name_step:
  assumes "finite H"
  shows "min_name (Some c) (insert h H) = min_name (Some (if h < c then h else c)) H"
proof -
  have "min c (min h M) = min (if h < c then h else c) M" for M by (auto simp: min_def)
  moreover have "min c h = (if h < c then h else c)" by (auto simp: min_def)
  ultimately have "Min (insert c (insert h H)) = Min (insert (if h < c then h else c) H)"
    using assms by (cases "H = {}") (simp_all only: Min_insert Min_singleton finite.insertI insert_not_empty
        not_False_eq_True finite.emptyI)
  then show ?thesis by (auto simp: min_name_def Let_def insert_commute)
qed

lemma smallest_live_eq:
  "smallest_live idx a now keys smallest =
     min_name smallest {hostname k | k. k \<in> set keys \<and> (\<exists>e. binding idx k a = Some e \<and> now < expires_at e)}"
proof (induction keys arbitrary: smallest)
  case Nil
  then show ?case by (cases smallest) (simp_all add: min_name_def Let_def)
next
  case (Cons key keys)
  let ?H = "\<lambda>ks. {hostname k | k. k \<in> set ks \<and> (\<exists>e. binding idx k a = Some e \<and> now < expires_at e)}"
  have fin: "finite (?H ks)" for ks
    by (rule finite_subset [of _ "hostname ` set ks"]) auto
  let ?live = "\<exists>e. binding idx key a = Some e \<and> now < expires_at e"
  have live: "(case map_of (by_key idx) key of None \<Rightarrow> False | Some bindings \<Rightarrow>
      (case map_of bindings a of None \<Rightarrow> False | Some expiry \<Rightarrow> expires_at expiry > now)) = ?live"
    by (auto simp: binding_def split: option.splits)
  show ?case
  proof (cases ?live)
    case False
    then have "?H (key # keys) = ?H keys" by auto
    then show ?thesis using False by (simp add: live Cons.IH Let_def)
  next
    case True
    then have H: "?H (key # keys) = insert (hostname key) (?H keys)" by auto
    show ?thesis
    proof (cases smallest)
      case None
      then show ?thesis using True unfolding H by (simp add: live Cons.IH min_name_def Let_def)
    next
      case (Some c)
      then show ?thesis
        using True unfolding H by (simp add: live Cons.IH min_name_step [OF fin] Let_def)
    qed
  qed
qed

lemma resolved_hostname_for_eq:
  assumes inv: "ttl_inv (resolved_hostnames s)"
  shows "resolved_hostname_for s now addr = min_name None (live_names s now addr)"
proof -
  let ?idx = "resolved_hostnames s" and ?a = "normalize_ip_addr addr"
  have "{hostname k | k. k \<in> reverse_keys ?idx ?a \<and> (\<exists>e. binding ?idx k ?a = Some e \<and> now < expires_at e)}
      = live_names s now addr"
    using ttl_agreeD(1) [OF inv]
    by (auto simp: live_names_def binding_time_def) (metis ResolvedHostnameKey.collapse | force)+
  then show ?thesis
    by (auto simp: resolved_hostname_for_def Let_def smallest_live_eq reverse_keys_def min_name_def
        split: option.splits)
qed

section \<open>Caching an answer\<close>

lemma live_at_idem [simp]: "live_at now (live_at now T) = live_at now T"
  by (auto simp: live_at_def fun_eq_iff split: option.splits)

lemma hostname_bindings_card:
  assumes "ttl_inv idx"
  shows "card (hostname_bindings_of idx h) =
      member_count idx (ResolvedHostnameKey h Ipv4) + member_count idx (ResolvedHostnameKey h Ipv6)"
proof -
  let ?S = "\<lambda>fam. Pair (ResolvedHostnameKey h fam) ` {m. binding_time idx (ResolvedHostnameKey h fam, m) \<noteq> None}"
  have split: "hostname_bindings_of idx h = ?S Ipv4 \<union> ?S Ipv6"
  proof (intro set_eqI iffI)
    fix p assume "p \<in> hostname_bindings_of idx h"
    then obtain fam m where "p = (ResolvedHostnameKey h fam, m)" "binding_time idx p \<noteq> None"
      by (cases p; cases "fst p") (auto simp: hostname_bindings_of_def)
    then show "p \<in> ?S Ipv4 \<union> ?S Ipv6" by (cases fam) auto
  qed (auto simp: hostname_bindings_of_def)
  have fin: "finite (?S fam)" for fam
    by (rule finite_subset [OF _ binding_count_card(2) [OF assms]]) auto
  have "card (?S fam) = member_count idx (ResolvedHostnameKey h fam)" for fam
    by (simp add: member_count_card [OF assms] card_image inj_on_def)
  then show ?thesis
    unfolding split by (subst card_Un_disjoint) (use fin in auto)
qed

text \<open>The bindings of a hostname, in a table of expiry times.\<close>

definition host_times :: "(ResolvedHostnameKey \<times> IpAddr \<rightharpoonup> nat) \<Rightarrow> string \<Rightarrow> (ResolvedHostnameKey \<times> IpAddr) set" where
  "host_times T h = {p \<in> dom T. hostname (fst p) = h}"

lemma hostname_bindings_of_times: "hostname_bindings_of idx h = host_times (binding_time idx) h"
  by (simp add: hostname_bindings_of_def host_times_def)

lemma cache_resolved_spec:
  fixes now ttl :: nat and domain :: string and fam :: ResolvedHostnameFamily
  assumes inv: "ttl_inv (resolved_hostnames s)"
    and room: "next_sequence (resolved_hostnames s) + length addrs < two64"
  defines "T \<equiv> live_at now (binding_time (resolved_hostnames s))"
    and "key \<equiv> ResolvedHostnameKey (normalize_hostname domain) fam"
    and "new \<equiv> map normalize_ip_addr addrs"
    and "r \<equiv> cache_resolved_hostname domain fam addrs ttl now s"
  shows "fst r \<longleftrightarrow> card (new_members T key new) \<le>
           min (MAX_BINDINGS_PER_HOSTNAME - card (host_times T (normalize_hostname domain)))
               (MAX_RESOLVED_HOSTNAME_BINDINGS - card (dom T))"
    and "ttl_inv (resolved_hostnames (snd r))"
    and "binding_time (resolved_hostnames (snd r)) =
           (if fst r then extend_times T key (set new) (now + ttl) else T)"
proof -
  let ?i = "evict_expired (resolved_hostnames s) now" and ?h = "normalize_hostname domain"
  let ?cap = "binding_count ?i + min (MAX_BINDINGS_PER_HOSTNAME
      - (member_count ?i (ResolvedHostnameKey ?h Ipv4) + member_count ?i (ResolvedHostnameKey ?h Ipv6)))
      (MAX_RESOLVED_HOSTNAME_BINDINGS - binding_count ?i)"
  let ?e = "try_extend ?i key new ttl now ?cap"
  have r: "r = (fst ?e, s\<lparr>resolved_hostnames := snd ?e\<rparr>)"
    by (simp add: r_def key_def new_def cache_resolved_hostname_def Let_def case_prod_beta)
  note iv = evict_expired_inv [OF inv, of now]
  have bt: "binding_time ?i = T" by (simp add: T_def evict_expired_time [OF inv])
  have room': "next_sequence ?i + length new < two64"
    using room by (simp add: evict_expired_seq [OF inv] new_def)
  note te = try_extend_spec [OF iv room', where now = now and key = key and ttl = ttl and cap = ?cap]
  have T2: "live_at now T = T" by (simp add: T_def)
  have cnt: "binding_count ?i = card (dom T)" using binding_count_card(1) [OF iv] bt by simp
  have host: "member_count ?i (ResolvedHostnameKey ?h Ipv4) + member_count ?i (ResolvedHostnameKey ?h Ipv6)
      = card (host_times T ?h)"
    using hostname_bindings_card [OF iv, of ?h] by (simp add: hostname_bindings_of_times bt)
  show "fst r \<longleftrightarrow> card (new_members T key new) \<le>
      min (MAX_BINDINGS_PER_HOSTNAME - card (host_times T ?h)) (MAX_RESOLVED_HOSTNAME_BINDINGS - card (dom T))"
    using te(1) unfolding r bt T2 cnt host by simp
  show "ttl_inv (resolved_hostnames (snd r))" using te(2) by (simp add: r)
  show "binding_time (resolved_hostnames (snd r)) =
      (if fst r then extend_times T key (set new) (now + ttl) else T)"
    using te(3) unfolding bt T2 by (simp add: r)
qed

lemma host_times_extend:
  "host_times (extend_times T key (set ms) t) h =
     host_times T h \<union> (if hostname key = h then Pair key ` new_members T key ms else {})"
  unfolding host_times_def dom_extend_times by auto

lemma live_at_dom: "dom (live_at now T) \<subseteq> dom T"
  by (auto simp: live_at_def split: option.splits)

lemma host_times_live: "host_times (live_at now T) h \<subseteq> host_times T h"
  using live_at_dom [of now T] by (auto simp: host_times_def)

text \<open>The limits, as a condition on the table of expiry times.\<close>

definition within_limits :: "(ResolvedHostnameKey \<times> IpAddr \<rightharpoonup> nat) \<Rightarrow> bool" where
  "within_limits T \<longleftrightarrow> finite (dom T) \<and> card (dom T) \<le> MAX_RESOLVED_HOSTNAME_BINDINGS \<and>
     (\<forall>h. card (host_times T h) \<le> MAX_BINDINGS_PER_HOSTNAME)"

lemma shared_inv_limits:
  "shared_inv s \<longleftrightarrow> ttl_inv (resolved_hostnames s) \<and> within_limits (binding_time (resolved_hostnames s))"
  by (auto simp: shared_inv_def within_limits_def hostname_bindings_of_times binding_count_card)

lemma within_limits_mono:
  assumes "within_limits T" and "dom T' \<subseteq> dom T"
  shows "within_limits T'"
proof -
  have fin: "finite (dom T)" using assms(1) by (simp add: within_limits_def)
  have "host_times T' h \<subseteq> host_times T h" for h using assms(2) by (auto simp: host_times_def)
  moreover have "finite (host_times T h)" for h
    by (rule finite_subset [OF _ fin]) (auto simp: host_times_def)
  ultimately show ?thesis
    using assms fin unfolding within_limits_def
    by (meson card_mono finite_subset order_trans)
qed

lemma within_limits_extend:
  assumes lim: "within_limits T"
    and host: "card (new_members T key ms) \<le> MAX_BINDINGS_PER_HOSTNAME - card (host_times T (hostname key))"
    and tot: "card (new_members T key ms) \<le> MAX_RESOLVED_HOSTNAME_BINDINGS - card (dom T)"
  shows "within_limits (extend_times T key (set ms) t)"
proof -
  let ?N = "Pair key ` new_members T key ms"
  have N: "finite ?N" "card ?N \<le> card (new_members T key ms)"
    by (simp_all add: new_members_def card_image_le)
  have total: "card (dom T) \<le> MAX_RESOLVED_HOSTNAME_BINDINGS"
    and per_host: "card (host_times T h) \<le> MAX_BINDINGS_PER_HOSTNAME" for h
    using lim by (simp_all add: within_limits_def)
  have "card (dom T \<union> ?N) \<le> MAX_RESOLVED_HOSTNAME_BINDINGS"
    using card_Un_le [of "dom T" ?N] N(2) tot total by linarith
  moreover have "card (host_times T h \<union> (if hostname key = h then ?N else {})) \<le> MAX_BINDINGS_PER_HOSTNAME" for h
    using card_Un_le [of "host_times T h" ?N] N(2) host per_host [of h]
    by (cases "hostname key = h") auto
  ultimately show ?thesis
    using lim N(1) unfolding within_limits_def dom_extend_times host_times_extend by simp
qed

lemma shared_inv_new: "shared_inv (new_shared q)"
  using ttl_inv_default
  by (simp add: shared_inv_limits new_shared_def within_limits_def host_times_def
      binding_time_def binding_def dom_def) (simp add: ttl_default_def)

lemma evict_within_limits:
  assumes "shared_inv s"
  shows "within_limits (live_at now (binding_time (resolved_hostnames s)))"
  by (rule within_limits_mono [OF _ live_at_dom]) (use assms in \<open>simp add: shared_inv_limits\<close>)

lemma set_normalized [simp]: "set (map normalize_ip_addr addrs) = normalize_ip_addr ` set addrs"
  by simp

lemma cache_resolved_inv:
  assumes inv: "shared_inv s" and room: "next_sequence (resolved_hostnames s) + length addrs < two64"
  shows "shared_inv (snd (cache_resolved_hostname domain fam addrs ttl now s))"
proof -
  let ?r = "cache_resolved_hostname domain fam addrs ttl now s"
  let ?T = "live_at now (binding_time (resolved_hostnames s))"
  let ?k = "ResolvedHostnameKey (normalize_hostname domain) fam"
  have ti: "ttl_inv (resolved_hostnames s)" using inv by (simp add: shared_inv_def)
  note sp = cache_resolved_spec [OF ti room, where now = now and ttl = ttl and domain = domain and fam = fam]
  have lim: "within_limits ?T" by (rule evict_within_limits [OF inv])
  have "within_limits (binding_time (resolved_hostnames (snd ?r)))"
  proof (cases "fst ?r")
    case True
    then show ?thesis
      using within_limits_extend [OF lim, of ?k "map normalize_ip_addr addrs" "now + ttl"] sp(1,3)
      by simp
  next
    case False
    then show ?thesis using lim sp(3) by simp
  qed
  then show ?thesis using sp(2) by (simp add: shared_inv_limits)
qed

lemma live_names_times:
  assumes "binding_time (resolved_hostnames s') = live_at now (binding_time (resolved_hostnames s))"
    and "now \<le> n"
  shows "live_names s' n a = live_names s n a"
  using assms(2) by (fastforce simp: live_names_def assms(1) live_at_def split: option.splits if_splits)

lemma live_names_extend:
  assumes bt: "binding_time (resolved_hostnames s') =
      extend_times (live_at now (binding_time (resolved_hostnames s))) (ResolvedHostnameKey h fam) M (now + ttl)"
    and n: "now \<le> n"
  shows "live_names s' n a =
     live_names s n a \<union> (if normalize_ip_addr a \<in> M \<and> n < now + ttl then {h} else {})"
proof -
  let ?b = "normalize_ip_addr a" and ?T = "binding_time (resolved_hostnames s)"
  have "(\<exists>t. binding_time (resolved_hostnames s') (ResolvedHostnameKey h' fam', ?b) = Some t \<and> n < t) \<longleftrightarrow>
      (\<exists>t. ?T (ResolvedHostnameKey h' fam', ?b) = Some t \<and> n < t) \<or>
      h' = h \<and> fam' = fam \<and> ?b \<in> M \<and> n < now + ttl" for h' fam'
    using n by (auto simp: bt extend_times_def later_time_def live_at_def split: option.splits if_splits)
  then show ?thesis by (auto simp: live_names_def)
qed

section \<open>The interface to policy evaluation\<close>

text \<open>What the policy evaluators rely on: a query is about the set of names currently bound to an
  address, that set only shrinks as time passes, and spellings of one address share it.\<close>

locale hostname_oracle =
  fixes names :: "'s \<Rightarrow> nat \<Rightarrow> IpAddr \<Rightarrow> string set"
    and query :: "'s \<Rightarrow> nat \<Rightarrow> IpAddr \<Rightarrow> (string \<Rightarrow> bool) \<Rightarrow> bool"
    and ok :: "'s \<Rightarrow> bool"
  assumes query_iff: "ok s \<Longrightarrow> query s now a P \<longleftrightarrow> (\<exists>h \<in> names s now a. P h)"
    and names_later: "now \<le> now' \<Longrightarrow> names s now' a \<subseteq> names s now a"
    and query_normal: "query s now (normalize_ip_addr a) P = query s now a P"
begin

lemma query_mono:
  assumes "ok s" and "ok s'" and "names s' now' a \<subseteq> names s now a" and "query s' now' a P"
  shows "query s now a P"
  using assms by (auto simp: query_iff)

lemma query_unresolved: "ok s \<Longrightarrow> names s now a = {} \<Longrightarrow> \<not> query s now a P"
  by (simp add: query_iff)

end

interpretation cache: hostname_oracle live_names any_resolved_hostname
  "\<lambda>s :: ('p, 'q) SharedState. ttl_inv (resolved_hostnames s)"
  by unfold_locales
    (simp_all add: any_resolved_iff live_names_time any_resolved_normalized)

section \<open>Properties\<close>

text \<open>C19. Recording a DNS answer in the resolved-hostname cache keeps the cache well formed and
  within its two limits (16,384 bindings per sandbox, 1,024 per hostname over both families). The
  answer is taken whole or not at all: on acceptance exactly its addresses are bound to the name
  until the later of their old and new expiry, on rejection exactly the live bindings remain; and
  it is accepted exactly when its new addresses fit in both limits.\<close>

theorem cache_resolved_hostname_limits:
  assumes "shared_inv s" and "next_sequence (resolved_hostnames s) + length addrs < two64"
  shows "shared_inv (snd (cache_resolved_hostname domain fam addrs ttl now s)) \<and>
    (let T = live_at now (binding_time (resolved_hostnames s));
         key = ResolvedHostnameKey (normalize_hostname domain) fam;
         (accepted, s') = cache_resolved_hostname domain fam addrs ttl now s
     in (accepted \<longleftrightarrow>
           card (new_members T key (map normalize_ip_addr addrs)) \<le>
             min (1024 - card (host_times T (normalize_hostname domain))) (16384 - card (dom T))) \<and>
        binding_time (resolved_hostnames s') =
          (if accepted then extend_times T key (normalize_ip_addr ` set addrs) (now + ttl) else T))"
proof -
  have ti: "ttl_inv (resolved_hostnames s)" using assms(1) by (simp add: shared_inv_def)
  show ?thesis
    using cache_resolved_inv [OF assms] cache_resolved_spec(1,3) [OF ti assms(2)]
    by (simp add: Let_def case_prod_beta MAX_BINDINGS_PER_HOSTNAME_def MAX_RESOLVED_HOSTNAME_BINDINGS_def)
qed

theorem cache_resolved_hostname_limits_witness:
  "shared_inv (snd (cache_resolved_hostname ''Example.com.'' Ipv4 [V4 0x5db8d822] 60 100
     (new_shared () :: (nat, unit) SharedState)))"
  using cache_resolved_hostname_limits
    [of "new_shared () :: (nat, unit) SharedState" "[V4 0x5db8d822]" "''Example.com.''" Ipv4 60 100,
     OF shared_inv_new]
  by (simp add: new_shared_def ttl_default_def)

text \<open>C20. A lookup by address sees exactly what the guest resolved: after an accepted answer the
  names of an address, at any time from then on, are those it already had and, for the addresses
  of the answer in any of their spellings and until the answer expires, the queried name in its
  normal form; after a rejected answer they are unchanged.\<close>

theorem cache_then_lookup:
  assumes "shared_inv s" and "next_sequence (resolved_hostnames s) + length addrs < two64"
    and "now \<le> n"
  shows "any_resolved_hostname (snd (cache_resolved_hostname domain fam addrs ttl now s)) n a P \<longleftrightarrow>
     any_resolved_hostname s n a P \<or>
     (fst (cache_resolved_hostname domain fam addrs ttl now s) \<and>
      normalize_ip_addr a \<in> normalize_ip_addr ` set addrs \<and> n < now + ttl \<and> P (normalize_hostname domain))"
proof -
  let ?r = "cache_resolved_hostname domain fam addrs ttl now s"
  have ti: "ttl_inv (resolved_hostnames s)" using assms(1) by (simp add: shared_inv_def)
  have ti': "ttl_inv (resolved_hostnames (snd ?r))"
    using cache_resolved_inv [OF assms(1,2)] by (simp add: shared_inv_def)
  note bt = cache_resolved_spec(3) [OF ti assms(2), where now = now and ttl = ttl and domain = domain and fam = fam]
  show ?thesis
  proof (cases "fst ?r")
    case True
    then have "live_names (snd ?r) n a = live_names s n a \<union>
        (if normalize_ip_addr a \<in> normalize_ip_addr ` set addrs \<and> n < now + ttl
         then {normalize_hostname domain} else {})"
      by (intro live_names_extend [OF _ assms(3)]) (use bt in simp)
    then show ?thesis
      using True by (auto simp: any_resolved_iff [OF ti] any_resolved_iff [OF ti'])
  next
    case False
    then have "live_names (snd ?r) n a = live_names s n a"
      by (intro live_names_times [OF _ assms(3)]) (use bt in simp)
    then show ?thesis
      using False by (simp add: any_resolved_iff [OF ti] any_resolved_iff [OF ti'])
  qed
qed

theorem cache_then_lookup_witness:
  "any_resolved_hostname (snd (cache_resolved_hostname ''Example.com.'' Ipv4 [V4 0x5db8d822] 60 100
     (new_shared () :: (nat, unit) SharedState))) 120 (V6 0xffff5db8d822) (\<lambda>h. h = ''example.com'')"
proof -
  have "fst (cache_resolved_hostname ''Example.com.'' Ipv4 [V4 0x5db8d822] 60 100
     (new_shared () :: (nat, unit) SharedState))"
    by (simp add: cache_resolved_hostname_def Let_def new_shared_def ttl_default_def evict_expired.simps
        try_extend_def binding_count_def member_count_def MAX_BINDINGS_PER_HOSTNAME_def
        MAX_RESOLVED_HOSTNAME_BINDINGS_def)
  moreover have "normalize_ip_addr (V6 0xffff5db8d822) = V4 0x5db8d822"
    by (simp add: normalize_ip_addr_def to_ipv4_mapped_def)
  moreover have "normalize_hostname ''Example.com.'' = ''example.com''" by code_simp
  ultimately show ?thesis
    using cache_then_lookup
      [of "new_shared () :: (nat, unit) SharedState" "[V4 0x5db8d822]" 100 120 "''Example.com.''" Ipv4 60
        "V6 0xffff5db8d822" "\<lambda>h. h = ''example.com''", OF shared_inv_new]
    by (simp add: new_shared_def ttl_default_def)
qed

text \<open>Clearing a name drops exactly the bindings of that name and family, maintenance drops
  exactly the expired bindings, and both keep the cache invariant.\<close>

theorem clear_and_cleanup:
  assumes "shared_inv s"
  shows "shared_inv (clear_resolved_hostname domain fam now s) \<and>
    shared_inv (cleanup_resolved_hostnames free now s) \<and>
    binding_time (resolved_hostnames (clear_resolved_hostname domain fam now s)) =
      drop_key (live_at now (binding_time (resolved_hostnames s)))
        (ResolvedHostnameKey (normalize_hostname domain) fam) \<and>
    (now \<le> n \<longrightarrow> any_resolved_hostname (cleanup_resolved_hostnames free now s) n a P =
       any_resolved_hostname s n a P)"
proof -
  let ?i = "resolved_hostnames s"
  have ti: "ttl_inv ?i" using assms by (simp add: shared_inv_def)
  note ev = evict_expired_inv [OF ti, of now] evict_expired_time [OF ti, of now]
  let ?T = "live_at now (binding_time ?i)" and ?k = "ResolvedHostnameKey (normalize_hostname domain) fam"
  let ?c = "clear_resolved_hostname domain fam now s" and ?m = "cleanup_resolved_hostnames free now s"
  have lim: "within_limits ?T" by (rule evict_within_limits [OF assms])
  have bt: "binding_time (resolved_hostnames ?c) = drop_key ?T ?k"
    by (simp add: clear_resolved_hostname_def ttl_remove_def remove_key_time [OF ev(1)] ev(2))
  have "dom (drop_key ?T ?k) \<subseteq> dom ?T"
    by (auto simp: drop_key_def split: if_splits)
  then have "within_limits (drop_key ?T ?k)" by (rule within_limits_mono [OF lim])
  moreover have "ttl_inv (resolved_hostnames ?c)"
    by (simp add: clear_resolved_hostname_def ttl_remove_def remove_key_spec(1) [OF ev(1)])
  ultimately have "shared_inv ?c" by (simp add: shared_inv_limits bt)
  moreover have "shared_inv ?m"
    using assms lim ev by (simp add: cleanup_resolved_hostnames_def shared_inv_limits)
  moreover have "now \<le> n \<Longrightarrow> any_resolved_hostname ?m n a P = any_resolved_hostname s n a P"
    by (simp add: cleanup_resolved_hostnames_def any_resolved_hostname_def ttl.matches_evict [OF ti])
  ultimately show ?thesis using bt by simp
qed

theorem clear_and_cleanup_witness:
  "shared_inv (clear_resolved_hostname ''a.com'' Ipv6 5 (new_shared () :: (nat, unit) SharedState))"
  using clear_and_cleanup [of "new_shared () :: (nat, unit) SharedState" "''a.com''" Ipv6 5 True 0 "V4 0"
      "\<lambda>_. True", OF shared_inv_new] by simp

text \<open>The name reported for an address is the smallest live name bound to it, whatever the
  order in which the index iterates, and there is none exactly when the address has no live
  name.\<close>

theorem resolved_hostname_for_least:
  assumes "ttl_inv (resolved_hostnames s)"
  shows "(resolved_hostname_for s now addr = None \<longleftrightarrow> live_names s now addr = {}) \<and>
    (\<forall>h. resolved_hostname_for s now addr = Some h \<longleftrightarrow>
       h \<in> live_names s now addr \<and> (\<forall>h' \<in> live_names s now addr. h \<le> h'))"
proof -
  have "finite (live_names s now addr)"
  proof (rule finite_subset)
    show "live_names s now addr \<subseteq> (hostname \<circ> fst) ` dom (binding_time (resolved_hostnames s))"
      by (force simp: live_names_def)
  qed (simp add: binding_count_card(2) [OF assms])
  then have "Min (live_names s now addr) = h \<longleftrightarrow>
      h \<in> live_names s now addr \<and> (\<forall>h' \<in> live_names s now addr. h \<le> h')"
    if "live_names s now addr \<noteq> {}" for h
    using that by (simp add: Min_eq_iff)
  then show ?thesis
    by (auto simp: resolved_hostname_for_eq [OF assms] min_name_def Let_def)
qed

theorem resolved_hostname_for_least_witness:
  "resolved_hostname_for (new_shared () :: (nat, unit) SharedState) 3 (V4 7) = None"
  using resolved_hostname_for_least [of "new_shared () :: (nat, unit) SharedState" 3 "V4 7"]
  by (simp add: new_shared_def ttl_inv_default live_names_def binding_time_def binding_def)
    (simp add: ttl_default_def)

end
