(* ===== verification/Net_Destination.thy ===== *)
theory Net_Destination
  imports Shared_State
begin

text \<open>
  \<^verbatim>\<open>crates/network/lib/engine/policy/destination.rs\<close>: the classification of a destination address
  into a group. The classifier reads the gateway addresses and the NAT64 prefixes of the shared
  state; IPv4-mapped and NAT64 addresses are reduced to the IPv4 address they stand for first.
\<close>

section \<open>Destination groups\<close>

datatype DestinationGroup =
  Public | Loopback | Private | LinkLocal | Metadata | Multicast | Host

fun matches_host :: "IpAddr \<Rightarrow> ('p, 'q) SharedState \<Rightarrow> bool" where
  "matches_host (V4 v4) shared = (gateway_ipv4 shared = Some v4)"
| "matches_host (V6 v6) shared = (gateway_ipv6 shared = Some v6)"

fun is_loopback :: "IpAddr \<Rightarrow> bool" where
  "is_loopback (V4 v4) = (v4_octet 0 v4 = 127)"
| "is_loopback (V6 v6) = (v6 = 1)"

fun is_private :: "IpAddr \<Rightarrow> bool" where
  "is_private (V4 v4) =
     (v4_octet 0 v4 = 10
      \<or> (v4_octet 0 v4 = 172 \<and> v4_octet 1 v4 AND 0xf0 = 16)
      \<or> (v4_octet 0 v4 = 192 \<and> v4_octet 1 v4 = 168)
      \<or> (v4_octet 0 v4 = 100 \<and> v4_octet 1 v4 AND 0xc0 = 64))"
| "is_private (V6 v6) = (v6_segment 0 v6 AND 0xfe00 = 0xfc00)"

fun is_link_local :: "IpAddr \<Rightarrow> bool" where
  "is_link_local (V4 v4) = (v4_octet 0 v4 = 169 \<and> v4_octet 1 v4 = 254)"
| "is_link_local (V6 v6) = (v6_segment 0 v6 AND 0xffc0 = 0xfe80)"

fun is_metadata :: "IpAddr \<Rightarrow> bool" where
  "is_metadata (V4 v4) =
     ([v4_octet 0 v4, v4_octet 1 v4, v4_octet 2 v4, v4_octet 3 v4] = [169, 254, 169, 254])"
| "is_metadata (V6 v6) = False"

fun is_multicast :: "IpAddr \<Rightarrow> bool" where
  "is_multicast (V4 v4) = (224 \<le> v4_octet 0 v4 \<and> v4_octet 0 v4 \<le> 239)"
| "is_multicast (V6 v6) = (v6_segment 0 v6 AND 0xff00 = 0xff00)"

definition nat64_ipv4_projection ::
  "('n, 'p) net_api \<Rightarrow> IpAddr \<Rightarrow> ('p, 'q) SharedState \<Rightarrow> IpAddr option" where
  "nat64_ipv4_projection api addr shared =
     (case addr of
        V6 v6 \<Rightarrow> map_option V4 (nat64_embedded_ipv4_addr api v6 (nat64_prefixes shared))
      | V4 _ \<Rightarrow> None)"

definition addr_classify ::
  "('n, 'p) net_api \<Rightarrow> IpAddr \<Rightarrow> ('p, 'q) SharedState \<Rightarrow> DestinationGroup option" where
  "addr_classify api addr0 shared =
     (let addr1 = normalize_ip_addr addr0;
          addr = (case nat64_ipv4_projection api addr1 shared of None \<Rightarrow> addr1 | Some a \<Rightarrow> a)
      in if is_unspecified addr then None
         else if matches_host addr shared then Some Host
         else if is_metadata addr then Some Metadata
         else if is_loopback addr then Some Loopback
         else if is_private addr then Some Private
         else if is_link_local addr then Some LinkLocal
         else if is_multicast addr then Some Multicast
         else Some Public)"

definition matches_group ::
  "('n, 'p) net_api \<Rightarrow> DestinationGroup \<Rightarrow> IpAddr \<Rightarrow> ('p, 'q) SharedState \<Rightarrow> bool" where
  "matches_group api grp addr shared = (addr_classify api addr shared = Some grp)"

definition matches_cidr ::
  "('n, 'p) net_api \<Rightarrow> 'n \<Rightarrow> IpAddr \<Rightarrow> ('p, 'q) SharedState \<Rightarrow> bool" where
  "matches_cidr api network addr0 shared =
     (let addr = normalize_ip_addr addr0
      in net_contains api network addr
         \<or> (case nat64_ipv4_projection api addr shared of
              None \<Rightarrow> False | Some v4 \<Rightarrow> net_contains api network v4))"

section \<open>The policy address\<close>

text \<open>The address the classifier decides on: mapped and NAT64 forms collapse to IPv4.\<close>

definition policy_addr ::
  "('n, 'p) net_api \<Rightarrow> IpAddr \<Rightarrow> ('p, 'q) SharedState \<Rightarrow> IpAddr" where
  "policy_addr api addr shared =
     (let a = normalize_ip_addr addr
      in case nat64_ipv4_projection api a shared of None \<Rightarrow> a | Some v4 \<Rightarrow> v4)"

lemma addr_classify_policy_addr:
  "addr_classify api addr shared =
     (let a = policy_addr api addr shared
      in if is_unspecified a then None
         else if matches_host a shared then Some Host
         else if is_metadata a then Some Metadata
         else if is_loopback a then Some Loopback
         else if is_private a then Some Private
         else if is_link_local a then Some LinkLocal
         else if is_multicast a then Some Multicast
         else Some Public)"
  by (simp add: addr_classify_def policy_addr_def Let_def)

lemma classify_Public_iff:
  "addr_classify api addr shared = Some Public \<longleftrightarrow>
     (let a = policy_addr api addr shared
      in \<not> is_unspecified a \<and> \<not> matches_host a shared \<and> \<not> is_metadata a \<and> \<not> is_loopback a \<and>
         \<not> is_private a \<and> \<not> is_link_local a \<and> \<not> is_multicast a)"
  by (simp add: addr_classify_policy_addr Let_def)

lemma matches_group_unique:
  "matches_group api g addr shared \<Longrightarrow> matches_group api g' addr shared \<Longrightarrow> g = g'"
  by (simp add: matches_group_def)

lemma classify_None_iff:
  "addr_classify api addr shared = None \<longleftrightarrow> is_unspecified (policy_addr api addr shared)"
  by (simp add: addr_classify_policy_addr Let_def)

section \<open>Properties\<close>



end
