(* ===== verification/Net_Policy.thy ===== *)
theory Net_Policy
  imports Net_Destination
begin

text \<open>
  \<^verbatim>\<open>crates/network/lib/model/policy/types.rs\<close> and \<^verbatim>\<open>name.rs\<close>: the network policy, an ordered rule
  list with a default action per direction, and its evaluators for outbound connections (with and
  without a hostname), inbound connections and DNS queries. The rule walks are recursions on the
  rule list in the order of the source. The DNS label grammar is that of the external crate
  \<^verbatim>\<open>hickory_proto\<close>: \<open>parse_name\<close>, an argument, returns the error of a name it rejects.
\<close>

section \<open>Types\<close>

datatype DomainName = DomainName (as_str: string)

datatype 'e DomainNameError = Empty | Invalid 'e | SuffixTooBroad string

datatype NetworkProfile = ProfilePublic | ProfilePrivate | ProfileHost

datatype Action = Allow | Deny

datatype Direction = Egress | Ingress | AnyDirection

datatype 'n Destination =
  AnyDestination | Cidr 'n | Domain DomainName | DomainSuffix DomainName | Group DestinationGroup

datatype Protocol = Tcp | Udp | Icmpv4 | Icmpv6

datatype PortRange = PortRange (range_start: u16) (range_end: u16)

record 'n Rule =
  direction :: Direction
  destination :: "'n Destination"
  protocols :: "Protocol list"
  ports :: "PortRange list"
  action :: Action

record 'n NetworkPolicy =
  default_egress :: Action
  default_ingress :: Action
  rules :: "'n Rule list"

datatype SocketAddr = SocketAddr (ip: IpAddr) (port: u16)

datatype HostnameSource = Sni string | CacheOnly | Deferred

datatype EgressEvaluation = EvalAllow | EvalDeny | DeferUntilHostname

datatype EgressWalk = Matched Action | Defer | Default

datatype DestinationMatch = Match | NoMatch | DeferMatch

section \<open>Domain names\<close>

definition try_into_suffix :: "DomainName \<Rightarrow> 'e DomainNameError + DomainName" where
  "try_into_suffix d =
     (if CHR ''.'' \<in> set (as_str d) then Inr d else Inl (SuffixTooBroad (as_str d)))"

definition domain_from_str ::
  "(string \<Rightarrow> 'e option) \<Rightarrow> string \<Rightarrow> 'e DomainNameError + DomainName" where
  "domain_from_str parse_name s =
     (let trimmed = trim_end_dots (trim_start_dots s)
      in if trimmed = [] then Inl Empty
         else case parse_name trimmed of
                Some e \<Rightarrow> Inl (Invalid e)
              | None \<Rightarrow> Inr (DomainName (to_ascii_lowercase trimmed)))"

definition strip_suffix :: "string \<Rightarrow> string \<Rightarrow> string option" where
  "strip_suffix s suffix =
     (if length suffix \<le> length s \<and> drop (length s - length suffix) s = suffix
      then Some (take (length s - length suffix) s) else None)"

definition matches_suffix :: "string \<Rightarrow> string \<Rightarrow> bool" where
  "matches_suffix host suffix =
     (if host = suffix then True
      else case strip_suffix host suffix of
             None \<Rightarrow> False
           | Some prefix \<Rightarrow> length prefix > 1 \<and> last prefix = CHR ''.'')"

section \<open>Actions, rules and port ranges\<close>

fun is_allow :: "Action \<Rightarrow> bool" where
  "is_allow Allow = True"
| "is_allow Deny = False"

fun is_deny :: "Action \<Rightarrow> bool" where
  "is_deny Deny = True"
| "is_deny Allow = False"

fun eval_of_action :: "Action \<Rightarrow> EgressEvaluation" where
  "eval_of_action Allow = EvalAllow"
| "eval_of_action Deny = EvalDeny"

text \<open>The conversion back; on the value that must not occur here a release build answers
  \<^verbatim>\<open>Deny\<close>.\<close>

fun action_of_eval :: "EgressEvaluation \<Rightarrow> Action" where
  "action_of_eval EvalAllow = Allow"
| "action_of_eval EvalDeny = Deny"
| "action_of_eval DeferUntilHostname = Deny"

definition new_rule :: "Direction \<Rightarrow> 'n Destination \<Rightarrow> Action \<Rightarrow> 'n Rule" where
  "new_rule dir dest act =
     \<lparr>direction = dir, destination = dest, protocols = [], ports = [], action = act\<rparr>"

definition allow_egress :: "'n Destination \<Rightarrow> 'n Rule" where
  "allow_egress dest = new_rule Egress dest Allow"

definition deny_egress :: "'n Destination \<Rightarrow> 'n Rule" where
  "deny_egress dest = new_rule Egress dest Deny"

definition allow_ingress :: "'n Destination \<Rightarrow> 'n Rule" where
  "allow_ingress dest = new_rule Ingress dest Allow"

definition deny_ingress :: "'n Destination \<Rightarrow> 'n Rule" where
  "deny_ingress dest = new_rule Ingress dest Deny"

definition allow_any :: "'n Destination \<Rightarrow> 'n Rule" where
  "allow_any dest = new_rule AnyDirection dest Allow"

definition deny_any :: "'n Destination \<Rightarrow> 'n Rule" where
  "deny_any dest = new_rule AnyDirection dest Deny"

definition single_port :: "u16 \<Rightarrow> PortRange" where
  "single_port p = PortRange p p"

definition port_range :: "u16 \<Rightarrow> u16 \<Rightarrow> PortRange" where
  "port_range a b = PortRange a b"

definition contains_port :: "PortRange \<Rightarrow> u16 \<Rightarrow> bool" where
  "contains_port r p = (p \<ge> range_start r \<and> p \<le> range_end r)"

definition allow_dns :: "'n Rule" where
  "allow_dns =
     \<lparr>direction = Egress, destination = Group Host, protocols = [Udp, Tcp],
      ports = [single_port 53], action = Allow\<rparr>"

definition deny_dns :: "'n Rule" where
  "deny_dns = allow_dns\<lparr>action := Deny\<rparr>"

section \<open>Matching a destination\<close>

definition match_of_bool :: "bool \<Rightarrow> DestinationMatch" where
  "match_of_bool b = (if b then Match else NoMatch)"

fun is_hostname_destination :: "'n Destination \<Rightarrow> bool" where
  "is_hostname_destination (Domain d) = True"
| "is_hostname_destination (DomainSuffix d) = True"
| "is_hostname_destination _ = False"

definition deferred_domain_match ::
  "Action \<Rightarrow> IpAddr \<Rightarrow> ('p, 'q) SharedState \<Rightarrow> nat \<Rightarrow> (string \<Rightarrow> bool) \<Rightarrow> DestinationMatch" where
  "deferred_domain_match act addr shared now matches_hostname =
     (if is_deny act \<or> any_resolved_hostname shared now addr matches_hostname
      then DeferMatch else NoMatch)"

fun matches_egress_destination_with_source ::
  "('n, 'p) net_api \<Rightarrow> 'n Destination \<Rightarrow> Action \<Rightarrow> IpAddr \<Rightarrow> ('p, 'q) SharedState \<Rightarrow> nat
     \<Rightarrow> HostnameSource \<Rightarrow> DestinationMatch" where
  "matches_egress_destination_with_source api AnyDestination act addr shared now source = Match"
| "matches_egress_destination_with_source api (Cidr network) act addr shared now source =
     match_of_bool (matches_cidr api network addr shared)"
| "matches_egress_destination_with_source api (Group grp) act addr shared now source =
     match_of_bool (matches_group api grp addr shared)"
| "matches_egress_destination_with_source api (Domain domain) act addr shared now source =
     (case source of
        Sni name \<Rightarrow>
          (let name_matches = (name = as_str domain);
               cache_matches = any_resolved_hostname shared now addr (\<lambda>h. h = as_str domain)
           in match_of_bool (name_matches \<and> (is_deny act \<or> cache_matches)))
      | CacheOnly \<Rightarrow> match_of_bool (any_resolved_hostname shared now addr (\<lambda>h. h = as_str domain))
      | Deferred \<Rightarrow> deferred_domain_match act addr shared now (\<lambda>h. h = as_str domain))"
| "matches_egress_destination_with_source api (DomainSuffix suffix) act addr shared now source =
     (case source of
        Sni name \<Rightarrow>
          (let name_matches = matches_suffix name (as_str suffix);
               cache_matches = any_resolved_hostname shared now addr (\<lambda>h. matches_suffix h (as_str suffix))
           in match_of_bool (name_matches \<and> (is_deny act \<or> cache_matches)))
      | CacheOnly \<Rightarrow>
          match_of_bool (any_resolved_hostname shared now addr (\<lambda>h. matches_suffix h (as_str suffix)))
      | Deferred \<Rightarrow>
          deferred_domain_match act addr shared now (\<lambda>h. matches_suffix h (as_str suffix)))"

definition matches_destination ::
  "('n, 'p) net_api \<Rightarrow> 'n Destination \<Rightarrow> IpAddr \<Rightarrow> ('p, 'q) SharedState \<Rightarrow> nat \<Rightarrow> bool" where
  "matches_destination api dest addr shared now =
     (matches_egress_destination_with_source api dest Allow addr shared now CacheOnly = Match)"

definition rule_matches_protocol_and_port :: "'n Rule \<Rightarrow> Protocol \<Rightarrow> u16 \<Rightarrow> bool" where
  "rule_matches_protocol_and_port rule protocol p =
     (if protocols rule \<noteq> [] \<and> protocol \<notin> set (protocols rule) then False
      else if ports rule \<noteq> [] \<and> \<not> list_ex (\<lambda>range. contains_port range p) (ports rule) then False
      else True)"

definition rule_matches ::
  "('n, 'p) net_api \<Rightarrow> 'n Rule \<Rightarrow> IpAddr \<Rightarrow> u16 option \<Rightarrow> Protocol \<Rightarrow> ('p, 'q) SharedState \<Rightarrow> nat \<Rightarrow> bool" where
  "rule_matches api rule addr port_opt protocol shared now =
     (if protocols rule \<noteq> [] \<and> protocol \<notin> set (protocols rule) then False
      else if ports rule \<noteq> [] \<and>
              (case port_opt of None \<Rightarrow> True
               | Some p \<Rightarrow> \<not> list_ex (\<lambda>range. contains_port range p) (ports rule)) then False
      else matches_destination api (destination rule) addr shared now)"
section \<open>The egress walk\<close>

text \<open>The guards that the three egress loops share: direction, protocol set and port set. A rule
  with a port set never applies to a flow without a port.\<close>

definition egress_direction :: "Direction \<Rightarrow> bool" where
  "egress_direction d = (d = Egress \<or> d = AnyDirection)"

definition egress_skips :: "'n Rule \<Rightarrow> u16 option \<Rightarrow> Protocol \<Rightarrow> bool" where
  "egress_skips rule port_opt protocol =
     (\<not> egress_direction (direction rule)
      \<or> (protocols rule \<noteq> [] \<and> protocol \<notin> set (protocols rule))
      \<or> (ports rule \<noteq> [] \<and>
          (case port_opt of None \<Rightarrow> True
           | Some p \<Rightarrow> \<not> list_ex (\<lambda>range. contains_port range p) (ports rule))))"

fun tail_can_allow ::
  "('n, 'p) net_api \<Rightarrow> Action \<Rightarrow> IpAddr \<Rightarrow> u16 option \<Rightarrow> Protocol \<Rightarrow> ('p, 'q) SharedState \<Rightarrow> nat
     \<Rightarrow> 'n Rule list \<Rightarrow> bool" where
  "tail_can_allow api dflt addr port_opt protocol shared now [] = is_allow dflt"
| "tail_can_allow api dflt addr port_opt protocol shared now (rule # rest) =
     (if egress_skips rule port_opt protocol
      then tail_can_allow api dflt addr port_opt protocol shared now rest
      else case matches_egress_destination_with_source api (destination rule) (action rule) addr
                  shared now Deferred of
             Match \<Rightarrow> is_allow (action rule)
           | DeferMatch \<Rightarrow>
               if is_allow (action rule) then True
               else tail_can_allow api dflt addr port_opt protocol shared now rest
           | NoMatch \<Rightarrow> tail_can_allow api dflt addr port_opt protocol shared now rest)"

definition deferred_tail_can_allow ::
  "('n, 'p) net_api \<Rightarrow> 'n NetworkPolicy \<Rightarrow> nat \<Rightarrow> IpAddr \<Rightarrow> u16 option \<Rightarrow> Protocol
     \<Rightarrow> ('p, 'q) SharedState \<Rightarrow> nat \<Rightarrow> bool" where
  "deferred_tail_can_allow api policy first addr port_opt protocol shared now =
     tail_can_allow api (default_egress policy) addr port_opt protocol shared now
       (drop first (rules policy))"

fun walk_from ::
  "('n, 'p) net_api \<Rightarrow> 'n NetworkPolicy \<Rightarrow> IpAddr \<Rightarrow> u16 option \<Rightarrow> Protocol \<Rightarrow> ('p, 'q) SharedState
     \<Rightarrow> nat \<Rightarrow> HostnameSource \<Rightarrow> nat \<Rightarrow> 'n Rule list \<Rightarrow> EgressWalk" where
  "walk_from api policy addr port_opt protocol shared now source idx [] = Default"
| "walk_from api policy addr port_opt protocol shared now source idx (rule # rest) =
     (if egress_skips rule port_opt protocol
      then walk_from api policy addr port_opt protocol shared now source (idx + 1) rest
      else case matches_egress_destination_with_source api (destination rule) (action rule) addr
                  shared now source of
             Match \<Rightarrow> Matched (action rule)
           | DeferMatch \<Rightarrow>
               if is_deny (action rule) \<and>
                  \<not> deferred_tail_can_allow api policy (idx + 1) addr port_opt protocol shared now
               then Matched Deny
               else Defer
           | NoMatch \<Rightarrow> walk_from api policy addr port_opt protocol shared now source (idx + 1) rest)"

definition egress_walk_outcome ::
  "('n, 'p) net_api \<Rightarrow> 'n NetworkPolicy \<Rightarrow> IpAddr \<Rightarrow> u16 option \<Rightarrow> Protocol \<Rightarrow> ('p, 'q) SharedState
     \<Rightarrow> nat \<Rightarrow> HostnameSource \<Rightarrow> EgressWalk" where
  "egress_walk_outcome api policy addr port_opt protocol shared now source =
     walk_from api policy addr port_opt protocol shared now source 0 (rules policy)"

definition egress_walk ::
  "('n, 'p) net_api \<Rightarrow> 'n NetworkPolicy \<Rightarrow> IpAddr \<Rightarrow> u16 option \<Rightarrow> Protocol \<Rightarrow> ('p, 'q) SharedState
     \<Rightarrow> nat \<Rightarrow> HostnameSource \<Rightarrow> EgressEvaluation" where
  "egress_walk api policy addr port_opt protocol shared now source =
     (case egress_walk_outcome api policy addr port_opt protocol shared now source of
        Matched act \<Rightarrow> eval_of_action act
      | Defer \<Rightarrow> DeferUntilHostname
      | Default \<Rightarrow> eval_of_action (default_egress policy))"

definition evaluate_egress ::
  "('n, 'p) net_api \<Rightarrow> 'n NetworkPolicy \<Rightarrow> SocketAddr \<Rightarrow> Protocol \<Rightarrow> ('p, 'q) SharedState \<Rightarrow> nat \<Rightarrow> Action" where
  "evaluate_egress api policy dst protocol shared now =
     action_of_eval (egress_walk api policy (ip dst) (Some (port dst)) protocol shared now CacheOnly)"

definition evaluate_egress_ip ::
  "('n, 'p) net_api \<Rightarrow> 'n NetworkPolicy \<Rightarrow> IpAddr \<Rightarrow> Protocol \<Rightarrow> ('p, 'q) SharedState \<Rightarrow> nat \<Rightarrow> Action" where
  "evaluate_egress_ip api policy dst protocol shared now =
     action_of_eval (egress_walk api policy dst None protocol shared now CacheOnly)"

definition evaluate_egress_with_source ::
  "('n, 'p) net_api \<Rightarrow> 'n NetworkPolicy \<Rightarrow> SocketAddr \<Rightarrow> Protocol \<Rightarrow> ('p, 'q) SharedState \<Rightarrow> nat
     \<Rightarrow> HostnameSource \<Rightarrow> EgressEvaluation" where
  "evaluate_egress_with_source api policy dst protocol shared now source =
     egress_walk api policy (ip dst) (Some (port dst)) protocol shared now source"

definition egress_denied_by_default ::
  "('n, 'p) net_api \<Rightarrow> 'n NetworkPolicy \<Rightarrow> SocketAddr \<Rightarrow> Protocol \<Rightarrow> ('p, 'q) SharedState \<Rightarrow> nat
     \<Rightarrow> HostnameSource \<Rightarrow> bool" where
  "egress_denied_by_default api policy dst protocol shared now source =
     (is_deny (default_egress policy) \<and>
      egress_walk_outcome api policy (ip dst) (Some (port dst)) protocol shared now source = Default)"

fun hostname_allow_walk ::
  "('n, 'p) net_api \<Rightarrow> SocketAddr \<Rightarrow> Protocol \<Rightarrow> ('p, 'q) SharedState \<Rightarrow> nat \<Rightarrow> HostnameSource
     \<Rightarrow> 'n Rule list \<Rightarrow> bool" where
  "hostname_allow_walk api dst protocol shared now source [] = False"
| "hostname_allow_walk api dst protocol shared now source (rule # rest) =
     (if egress_skips rule (Some (port dst)) protocol
      then hostname_allow_walk api dst protocol shared now source rest
      else if matches_egress_destination_with_source api (destination rule) (action rule) (ip dst)
                shared now source = Match
           then is_allow (action rule) \<and> is_hostname_destination (destination rule)
           else hostname_allow_walk api dst protocol shared now source rest)"

definition allows_egress_via_hostname ::
  "('n, 'p) net_api \<Rightarrow> 'n NetworkPolicy \<Rightarrow> SocketAddr \<Rightarrow> Protocol \<Rightarrow> ('p, 'q) SharedState \<Rightarrow> nat
     \<Rightarrow> HostnameSource \<Rightarrow> bool" where
  "allows_egress_via_hostname api policy dst protocol shared now source =
     hostname_allow_walk api dst protocol shared now source (rules policy)"

section \<open>Explicit rules, ingress and DNS\<close>

fun address_only :: "'n Destination \<Rightarrow> bool" where
  "address_only (Cidr n) = True"
| "address_only (Group g) = True"
| "address_only _ = False"

fun explicit_walk ::
  "('n, 'p) net_api \<Rightarrow> IpAddr \<Rightarrow> Protocol \<Rightarrow> ('p, 'q) SharedState \<Rightarrow> nat \<Rightarrow> 'n Rule list \<Rightarrow> Action option" where
  "explicit_walk api addr protocol shared now [] = None"
| "explicit_walk api addr protocol shared now (rule # rest) =
     (if \<not> egress_direction (direction rule) \<or> \<not> address_only (destination rule) \<or> ports rule \<noteq> []
         \<or> (protocols rule \<noteq> [] \<and> protocol \<notin> set (protocols rule))
      then explicit_walk api addr protocol shared now rest
      else if matches_destination api (destination rule) addr shared now then Some (action rule)
      else explicit_walk api addr protocol shared now rest)"

definition evaluate_explicit_egress_ip ::
  "('n, 'p) net_api \<Rightarrow> 'n NetworkPolicy \<Rightarrow> IpAddr \<Rightarrow> Protocol \<Rightarrow> ('p, 'q) SharedState \<Rightarrow> nat \<Rightarrow> Action option" where
  "evaluate_explicit_egress_ip api policy addr protocol shared now =
     explicit_walk api addr protocol shared now (rules policy)"

fun ingress_walk ::
  "('n, 'p) net_api \<Rightarrow> Action \<Rightarrow> IpAddr \<Rightarrow> u16 \<Rightarrow> Protocol \<Rightarrow> ('p, 'q) SharedState \<Rightarrow> nat
     \<Rightarrow> 'n Rule list \<Rightarrow> Action" where
  "ingress_walk api dflt peer guest_port protocol shared now [] = dflt"
| "ingress_walk api dflt peer guest_port protocol shared now (rule # rest) =
     (if \<not> (direction rule = Ingress \<or> direction rule = AnyDirection)
      then ingress_walk api dflt peer guest_port protocol shared now rest
      else if \<not> rule_matches api rule peer (Some guest_port) protocol shared now
      then ingress_walk api dflt peer guest_port protocol shared now rest
      else action rule)"

definition evaluate_ingress ::
  "('n, 'p) net_api \<Rightarrow> 'n NetworkPolicy \<Rightarrow> SocketAddr \<Rightarrow> u16 \<Rightarrow> Protocol \<Rightarrow> ('p, 'q) SharedState \<Rightarrow> nat \<Rightarrow> Action" where
  "evaluate_ingress api policy peer guest_port protocol shared now =
     ingress_walk api (default_ingress policy) (ip peer) guest_port protocol shared now (rules policy)"

definition has_domain_rules :: "'n NetworkPolicy \<Rightarrow> bool" where
  "has_domain_rules policy = list_ex (\<lambda>r. is_hostname_destination (destination r)) (rules policy)"

fun dns_matches :: "'n Rule \<Rightarrow> DomainName option \<Rightarrow> Protocol \<Rightarrow> u16 \<Rightarrow> bool" where
  "dns_matches rule name protocol p =
     (case destination rule of
        AnyDestination \<Rightarrow> rule_matches_protocol_and_port rule protocol p
      | Group g \<Rightarrow> g = Host \<and> rule_matches_protocol_and_port rule protocol p
      | Domain d \<Rightarrow> name = Some d
      | DomainSuffix s \<Rightarrow>
          (case name of None \<Rightarrow> False | Some n \<Rightarrow> matches_suffix (as_str n) (as_str s))
      | Cidr _ \<Rightarrow> False)"

fun dns_walk :: "Action \<Rightarrow> DomainName option \<Rightarrow> Protocol \<Rightarrow> u16 \<Rightarrow> 'n Rule list \<Rightarrow> Action" where
  "dns_walk dflt name protocol p [] = dflt"
| "dns_walk dflt name protocol p (rule # rest) =
     (if \<not> egress_direction (direction rule) then dns_walk dflt name protocol p rest
      else if dns_matches rule name protocol p then action rule
      else dns_walk dflt name protocol p rest)"

definition evaluate_dns_query_inner ::
  "'n NetworkPolicy \<Rightarrow> DomainName option \<Rightarrow> Protocol \<Rightarrow> u16 \<Rightarrow> Action" where
  "evaluate_dns_query_inner policy name protocol p =
     dns_walk (default_egress policy) name protocol p (rules policy)"

definition evaluate_dns_query :: "'n NetworkPolicy \<Rightarrow> DomainName \<Rightarrow> Protocol \<Rightarrow> u16 \<Rightarrow> Action" where
  "evaluate_dns_query policy name protocol p = evaluate_dns_query_inner policy (Some name) protocol p"

definition evaluate_dns_query_without_name :: "'n NetworkPolicy \<Rightarrow> Protocol \<Rightarrow> u16 \<Rightarrow> Action" where
  "evaluate_dns_query_without_name policy protocol p = evaluate_dns_query_inner policy None protocol p"

section \<open>Building policies\<close>

definition policy_none :: "'n NetworkPolicy" where
  "policy_none = \<lparr>default_egress = Deny, default_ingress = Deny, rules = []\<rparr>"

definition policy_allow_all :: "'n NetworkPolicy" where
  "policy_allow_all = \<lparr>default_egress = Allow, default_ingress = Allow, rules = []\<rparr>"

fun profile_flags :: "NetworkProfile list \<Rightarrow> bool \<times> bool \<times> bool \<Rightarrow> bool \<times> bool \<times> bool" where
  "profile_flags [] flags = flags"
| "profile_flags (profile # rest) (public, private, host) =
     (case profile of
        ProfilePublic \<Rightarrow> profile_flags rest (True, private, host)
      | ProfilePrivate \<Rightarrow> profile_flags rest (public, True, host)
      | ProfileHost \<Rightarrow> profile_flags rest (public, private, True))"

definition from_profiles :: "NetworkProfile list \<Rightarrow> 'n NetworkPolicy" where
  "from_profiles profiles =
     (let (public, private, host) = profile_flags profiles (False, False, False);
          dns = (if public \<or> private \<or> host then [allow_dns] else []);
          groups = [allow_egress (Group g). (enabled, g) \<leftarrow> [(public, Public), (private, Private), (host, Host)], enabled]
      in \<lparr>default_egress = Deny, default_ingress = Allow, rules = dns @ groups\<rparr>)"

definition policy_default :: "'n NetworkPolicy" where
  "policy_default = from_profiles [ProfilePublic]"

fun parse_rules ::
  "(string \<Rightarrow> 'e option) \<Rightarrow> (DomainName \<Rightarrow> 'n Rule) \<Rightarrow> string list \<Rightarrow> 'n Rule list
     \<Rightarrow> 'e DomainNameError + 'n Rule list" where
  "parse_rules parse_name mk_rule [] new_rules = Inr new_rules"
| "parse_rules parse_name mk_rule (name # names) new_rules =
     (case domain_from_str parse_name name of
        Inl e \<Rightarrow> Inl e
      | Inr domain \<Rightarrow> parse_rules parse_name mk_rule names (new_rules @ [mk_rule domain]))"

definition prepend_egress_rules ::
  "(string \<Rightarrow> 'e option) \<Rightarrow> 'n NetworkPolicy \<Rightarrow> string list \<Rightarrow> (DomainName \<Rightarrow> 'n Rule)
     \<Rightarrow> 'e DomainNameError + 'n NetworkPolicy" where
  "prepend_egress_rules parse_name policy names mk_rule =
     (case parse_rules parse_name mk_rule names [] of
        Inl e \<Rightarrow> Inl e
      | Inr new_rules \<Rightarrow> Inr (policy\<lparr>rules := new_rules @ rules policy\<rparr>))"

definition deny_domains where
  "deny_domains parse_name policy names =
     prepend_egress_rules parse_name policy names (\<lambda>d. deny_egress (Domain d))"

definition allow_domains where
  "allow_domains parse_name policy names =
     prepend_egress_rules parse_name policy names (\<lambda>d. allow_egress (Domain d))"

definition deny_domain_suffixes where
  "deny_domain_suffixes parse_name policy suffixes =
     prepend_egress_rules parse_name policy suffixes (\<lambda>d. deny_egress (DomainSuffix d))"

definition allow_domain_suffixes where
  "allow_domain_suffixes parse_name policy suffixes =
     prepend_egress_rules parse_name policy suffixes (\<lambda>d. allow_egress (DomainSuffix d))"

definition deny_domain where
  "deny_domain parse_name policy name = deny_domains parse_name policy [name]"

definition allow_domain where
  "allow_domain parse_name policy name = allow_domains parse_name policy [name]"

definition deny_domain_suffix where
  "deny_domain_suffix parse_name policy suffix = deny_domain_suffixes parse_name policy [suffix]"

definition allow_domain_suffix where
  "allow_domain_suffix parse_name policy suffix = allow_domain_suffixes parse_name policy [suffix]"

section \<open>Final sources\<close>

text \<open>A rule applies to a flow when no guard skips it and its destination matches.\<close>

definition applies ::
  "('n, 'p) net_api \<Rightarrow> IpAddr \<Rightarrow> u16 option \<Rightarrow> Protocol \<Rightarrow> ('p, 'q) SharedState \<Rightarrow> nat
     \<Rightarrow> HostnameSource \<Rightarrow> 'n Rule \<Rightarrow> bool" where
  "applies api addr port_opt protocol shared now source rule \<longleftrightarrow>
     \<not> egress_skips rule port_opt protocol \<and>
     matches_egress_destination_with_source api (destination rule) (action rule) addr shared now source = Match"

definition decided :: "Action \<Rightarrow> 'n Rule option \<Rightarrow> Action" where
  "decided dflt first = (case first of None \<Rightarrow> dflt | Some rule \<Rightarrow> action rule)"

lemma match_of_bool_simps [simp]:
  "match_of_bool b = Match \<longleftrightarrow> b"
  "match_of_bool b = NoMatch \<longleftrightarrow> \<not> b"
  "match_of_bool b \<noteq> DeferMatch"
  by (simp_all add: match_of_bool_def)

lemma is_allow_iff [simp]: "is_allow a \<longleftrightarrow> a = Allow"
  by (cases a) auto

lemma is_deny_iff [simp]: "is_deny a \<longleftrightarrow> a = Deny"
  by (cases a) auto

lemma final_match:
  assumes "source \<noteq> Deferred"
  shows "matches_egress_destination_with_source api dest act addr shared now source \<noteq> DeferMatch"
  using assms by (cases dest; cases source) (simp_all add: Let_def)

lemma walk_from_final:
  assumes "source \<noteq> Deferred"
  shows "walk_from api policy addr port_opt protocol shared now source idx rs =
     (case find (applies api addr port_opt protocol shared now source) rs of
        None \<Rightarrow> Default | Some rule \<Rightarrow> Matched (action rule))"
  by (induction rs arbitrary: idx)
    (auto simp: applies_def final_match [OF assms] split: DestinationMatch.splits)

lemma egress_walk_final:
  assumes "source \<noteq> Deferred"
  shows "egress_walk api policy addr port_opt protocol shared now source =
     eval_of_action (decided (default_egress policy)
       (find (applies api addr port_opt protocol shared now source) (rules policy)))"
  by (auto simp: egress_walk_def egress_walk_outcome_def walk_from_final [OF assms] decided_def
      split: option.splits)

lemma action_eval [simp]: "action_of_eval (eval_of_action a) = a"
  by (cases a) auto

lemma eval_of_action_eq [simp]:
  "eval_of_action a = EvalAllow \<longleftrightarrow> a = Allow"
  "eval_of_action a = EvalDeny \<longleftrightarrow> a = Deny"
  "eval_of_action a \<noteq> DeferUntilHostname"
  by (cases a; simp)+

section \<open>Deferred evaluation\<close>

definition same_view :: "('p, 'q) SharedState \<Rightarrow> ('p, 'q) SharedState \<Rightarrow> bool" where
  "same_view s s' \<longleftrightarrow> gateway_ipv4 s = gateway_ipv4 s' \<and> gateway_ipv6 s = gateway_ipv6 s' \<and>
     nat64_prefixes s = nat64_prefixes s'"

lemma same_view_refl [simp]: "same_view s s"
  by (simp add: same_view_def)

lemma same_view_host: "same_view s s' \<Longrightarrow> matches_host a s = matches_host a s'"
  by (cases a) (auto simp: same_view_def)

lemma same_view_group: "same_view s s' \<Longrightarrow> matches_group api g a s = matches_group api g a s'"
proof -
  assume v: "same_view s s'"
  then have "nat64_ipv4_projection api b s = nat64_ipv4_projection api b s'" for b
    by (simp add: nat64_ipv4_projection_def same_view_def split: IpAddr.splits)
  with same_view_host [OF v] show ?thesis by (simp only: matches_group_def addr_classify_def Let_def)
qed

lemma same_view_cidr: "same_view s s' \<Longrightarrow> matches_cidr api n a s = matches_cidr api n a s'"
  by (simp add: matches_cidr_def nat64_ipv4_projection_def same_view_def Let_def split: IpAddr.splits)

text \<open>One rule at connection time and at first flight: an address rule decides alike; a domain
  rule that is skipped at connection time can later match only as an allow rule, and only if the
  cache has gained a name.\<close>

lemma deferred_Match_final:
  assumes "same_view s s'"
    and "matches_egress_destination_with_source api dest act addr s now Deferred = Match"
  shows "matches_egress_destination_with_source api dest act addr s' now' source = Match"
  using assms
  by (cases dest) (auto simp: same_view_group [OF assms(1)] same_view_cidr [OF assms(1)]
      deferred_domain_match_def split: if_splits)

lemma deferred_NoMatch_allow:
  assumes "same_view s s'"
    and "matches_egress_destination_with_source api dest act addr s now Deferred = NoMatch"
    and "matches_egress_destination_with_source api dest act addr s' now' source = Match"
  shows "act = Allow"
  using assms
  by (cases dest; cases act) (auto simp: same_view_group [OF assms(1)] same_view_cidr [OF assms(1)]
      deferred_domain_match_def split: if_splits)

lemma deferred_NoMatch_shrink:
  assumes "same_view s s'"
    and "\<And>P. any_resolved_hostname s' now' addr P \<Longrightarrow> any_resolved_hostname s now addr P"
    and "matches_egress_destination_with_source api dest act addr s now Deferred = NoMatch"
  shows "matches_egress_destination_with_source api dest act addr s' now' source = NoMatch"
  using assms
  by (cases dest; cases act; cases source)
    (auto simp: same_view_group [OF assms(1)] same_view_cidr [OF assms(1)]
      deferred_domain_match_def Let_def split: if_splits)

lemma deferred_allow_final:
  assumes view: "same_view s s'"
    and "walk_from api policy addr port_opt protocol s now Deferred idx rs = Matched Allow \<or>
         walk_from api policy addr port_opt protocol s now Deferred idx rs = Default \<and> dflt = Allow"
  shows "decided dflt (find (applies api addr port_opt protocol s' now' source) rs) = Allow"
  using assms(2)
proof (induction rs arbitrary: idx)
  case Nil
  then show ?case by (simp add: decided_def)
next
  case (Cons r rs)
  let ?m = "\<lambda>s now. matches_egress_destination_with_source api (destination r) (action r) addr s now"
  show ?case
  proof (cases "egress_skips r port_opt protocol")
    case True
    then show ?thesis using Cons by (simp add: applies_def)
  next
    case False
    show ?thesis
    proof (cases "?m s now Deferred")
      case Match
      then show ?thesis
        using Cons.prems False deferred_Match_final [OF view Match] by (simp add: applies_def decided_def)
    next
      case NoMatch
      then show ?thesis
        using Cons False deferred_NoMatch_allow [OF view NoMatch]
        by (cases "?m s' now' source = Match") (auto simp: applies_def decided_def)
    next
      case DeferMatch
      then show ?thesis using Cons.prems False by (simp split: if_splits)
    qed
  qed
qed

lemma tail_cannot_allow_final:
  assumes view: "same_view s s'"
    and shrink: "\<And>P. any_resolved_hostname s' now' addr P \<Longrightarrow> any_resolved_hostname s now addr P"
    and "\<not> tail_can_allow api dflt addr port_opt protocol s now rs"
  shows "decided dflt (find (applies api addr port_opt protocol s' now' source) rs) = Deny"
  using assms(3)
proof (induction rs)
  case Nil
  then show ?case by (cases dflt) (simp_all add: decided_def)
next
  case (Cons r rs)
  let ?m = "\<lambda>s now. matches_egress_destination_with_source api (destination r) (action r) addr s now"
  show ?case
  proof (cases "egress_skips r port_opt protocol")
    case True
    then show ?thesis using Cons by (simp add: applies_def)
  next
    case False
    show ?thesis
    proof (cases "?m s now Deferred")
      case Match
      then show ?thesis
        using Cons.prems False deferred_Match_final [OF view Match]
        by (cases "action r") (simp_all add: applies_def decided_def)
    next
      case NoMatch
      then show ?thesis
        using Cons False deferred_NoMatch_shrink [OF view shrink NoMatch] by (simp add: applies_def)
    next
      case DeferMatch
      then show ?thesis
        using Cons False by (cases "action r") (auto simp: applies_def decided_def)
    qed
  qed
qed

lemma deferred_deny_final:
  assumes view: "same_view s s'"
    and shrink: "\<And>P. any_resolved_hostname s' now' addr P \<Longrightarrow> any_resolved_hostname s now addr P"
    and "drop idx (rules policy) = rs"
    and "walk_from api policy addr port_opt protocol s now Deferred idx rs = Matched Deny \<or>
         walk_from api policy addr port_opt protocol s now Deferred idx rs = Default \<and>
         default_egress policy = Deny"
  shows "decided (default_egress policy) (find (applies api addr port_opt protocol s' now' source) rs) = Deny"
  using assms(3,4)
proof (induction rs arbitrary: idx)
  case Nil
  then show ?case by (simp add: decided_def)
next
  case (Cons r rs)
  let ?m = "\<lambda>s now. matches_egress_destination_with_source api (destination r) (action r) addr s now"
  have tl: "drop (idx + 1) (rules policy) = rs"
    using Cons.prems(1) by (metis Suc_eq_plus1 drop_Suc list.sel(3) tl_drop)
  show ?case
  proof (cases "egress_skips r port_opt protocol")
    case True
    then show ?thesis using Cons.IH [OF tl] Cons.prems(2) by (simp add: applies_def)
  next
    case False
    show ?thesis
    proof (cases "?m s now Deferred")
      case Match
      then show ?thesis
        using Cons.prems(2) False deferred_Match_final [OF view Match] by (simp add: applies_def decided_def)
    next
      case NoMatch
      then show ?thesis
        using Cons.IH [OF tl] Cons.prems(2) False deferred_NoMatch_shrink [OF view shrink NoMatch]
        by (simp add: applies_def)
    next
      case DeferMatch
      then have "action r = Deny" and "\<not> tail_can_allow api (default_egress policy) addr port_opt protocol s now rs"
        using Cons.prems(2) False tl by (auto simp: deferred_tail_can_allow_def split: if_splits)
      then show ?thesis
        using tail_cannot_allow_final [OF view shrink, where dflt = "default_egress policy" and rs = rs]
        by (cases "applies api addr port_opt protocol s' now' source r") (auto simp: decided_def)
    qed
  qed
qed

section \<open>Suffixes and names\<close>

lemma matches_suffix_iff:
  "matches_suffix host suffix \<longleftrightarrow>
     host = suffix \<or> (\<exists>label. label \<noteq> [] \<and> host = label @ ''.'' @ suffix)"
proof (cases "host = suffix")
  case False
  have "matches_suffix host suffix \<longleftrightarrow>
      (\<exists>prefix. host = prefix @ suffix \<and> 1 < length prefix \<and> last prefix = CHR ''.'')"
    using False by (auto simp: matches_suffix_def strip_suffix_def)
      (metis append_take_drop_id length_take min.absorb2 diff_le_self)
  also have "\<dots> \<longleftrightarrow> (\<exists>label. label \<noteq> [] \<and> host = label @ ''.'' @ suffix)"
  proof
    assume "\<exists>prefix. host = prefix @ suffix \<and> 1 < length prefix \<and> last prefix = CHR ''.''"
    then obtain prefix where p: "host = prefix @ suffix" "1 < length prefix" "last prefix = CHR ''.''"
      by blast
    then have "prefix = butlast prefix @ ''.''" by (metis append_butlast_last_id list.size(3) not_one_less_zero)
    moreover have "butlast prefix \<noteq> []" using p(2) by (metis diff_is_0_eq length_butlast list.size(3) not_le)
    ultimately show "\<exists>label. label \<noteq> [] \<and> host = label @ ''.'' @ suffix"
      using p(1) by (metis append.assoc)
  next
    assume "\<exists>label. label \<noteq> [] \<and> host = label @ ''.'' @ suffix"
    then obtain label where "label \<noteq> []" "host = (label @ ''.'') @ suffix" by auto
    then show "\<exists>prefix. host = prefix @ suffix \<and> 1 < length prefix \<and> last prefix = CHR ''.''"
      by (intro exI [of _ "label @ ''.''"]) (auto simp: Suc_lessI length_greater_0_conv)
  qed
  finally show ?thesis using False by simp
qed (simp add: matches_suffix_def)

lemma ascii_lower_idem [simp]: "ascii_lower_char (ascii_lower_char c) = ascii_lower_char c"
proof (cases "65 \<le> (of_char c :: nat) \<and> (of_char c :: nat) \<le> 90")
  case True
  let ?n = "of_char c :: nat"
  have "(of_char (char_of (?n + 32) :: char) :: nat) = (?n + 32) mod 256" by simp
  also have "\<dots> = ?n + 32" using True by simp
  finally have "(of_char (char_of (?n + 32) :: char) :: nat) = ?n + 32" .
  then show ?thesis using True by (simp add: ascii_lower_char_def)
qed (auto simp: ascii_lower_char_def)

lemma ascii_lower_dot [simp]: "ascii_lower_char c = CHR ''.'' \<longleftrightarrow> c = CHR ''.''"
proof (cases "65 \<le> (of_char c :: nat) \<and> (of_char c :: nat) \<le> 90")
  case True
  let ?n = "of_char c :: nat"
  have "(of_char (char_of (?n + 32) :: char) :: nat) = (?n + 32) mod 256" by simp
  also have "\<dots> = ?n + 32" using True by simp
  finally have n: "(of_char (char_of (?n + 32) :: char) :: nat) = ?n + 32" .
  have "(char_of (?n + 32) :: char) \<noteq> CHR ''.''"
  proof
    assume "(char_of (?n + 32) :: char) = CHR ''.''"
    then have "?n + 32 = 46" using n by simp
    with True show False by simp
  qed
  moreover have "c \<noteq> CHR ''.''" using True by auto
  ultimately show ?thesis using True by (simp add: ascii_lower_char_def)
qed (auto simp: ascii_lower_char_def)

lemma trim_end_lower: "trim_end_dots (to_ascii_lowercase s) = to_ascii_lowercase (trim_end_dots s)"
  by (simp add: trim_end_dots_def to_ascii_lowercase_def rev_map dropWhile_map o_def)

lemma trim_end_idem [simp]: "trim_end_dots (trim_end_dots s) = trim_end_dots s"
  by (simp add: trim_end_dots_def dropWhile_idem)

lemma to_lower_idem [simp]: "to_ascii_lowercase (to_ascii_lowercase s) = to_ascii_lowercase s"
  by (simp add: to_ascii_lowercase_def)

lemma domain_from_str_canonical:
  assumes "domain_from_str parse_name s = Inr d"
  shows "as_str d = normalize_hostname (trim_start_dots s)" and "as_str d \<noteq> []"
  using assms
  by (auto simp: domain_from_str_def normalize_hostname_def Let_def to_ascii_lowercase_def
      split: if_splits option.splits)

section \<open>First match\<close>

lemma match_cache_only:
  "matches_egress_destination_with_source api dest act addr shared now CacheOnly = Match \<longleftrightarrow>
     matches_destination api dest addr shared now"
  by (cases dest) (simp_all add: matches_destination_def)

lemma applies_cache_only:
  "applies api addr port_opt protocol shared now CacheOnly rule \<longleftrightarrow>
     egress_direction (direction rule) \<and> rule_matches api rule addr port_opt protocol shared now"
  by (auto simp: applies_def egress_skips_def rule_matches_def match_cache_only split: option.splits)

lemma ingress_walk_find:
  "ingress_walk api dflt peer guest_port protocol shared now rs =
     decided dflt (find (\<lambda>r. (direction r = Ingress \<or> direction r = AnyDirection) \<and>
       rule_matches api r peer (Some guest_port) protocol shared now) rs)"
  by (induction rs) (auto simp: decided_def)

lemma dns_walk_find:
  "dns_walk dflt name protocol p rs =
     decided dflt (find (\<lambda>r. egress_direction (direction r) \<and> dns_matches r name protocol p) rs)"
  by (induction rs) (auto simp: decided_def)

lemma hostname_allow_walk_find:
  "hostname_allow_walk api dst protocol shared now source rs =
     (case find (applies api (ip dst) (Some (port dst)) protocol shared now source) rs of
        None \<Rightarrow> False
      | Some r \<Rightarrow> is_allow (action r) \<and> is_hostname_destination (destination r))"
  by (induction rs) (auto simp: applies_def)

lemma find_Some_applies:
  "find P xs = Some x \<Longrightarrow> x \<in> set xs \<and> P x"
  by (induction xs) (auto split: if_splits)

lemma find_cong_imp:
  assumes "find P xs = Some x" and "\<And>y. y \<in> set xs \<Longrightarrow> Q y \<Longrightarrow> P y" and "Q x"
  shows "find Q xs = Some x"
  using assms by (induction xs) (auto split: if_splits)

text \<open>An address the cache knows no name for is not opened by a server name.\<close>

lemma unresolved_sni_applies:
  assumes "ttl_inv (resolved_hostnames s)" and "live_names s now addr = {}"
  shows "applies api addr port_opt protocol s now CacheOnly r \<Longrightarrow>
           applies api addr port_opt protocol s now (Sni name) r"
    and "applies api addr port_opt protocol s now (Sni name) r \<Longrightarrow> action r = Allow \<Longrightarrow>
           applies api addr port_opt protocol s now CacheOnly r"
  using cache.query_unresolved [OF assms]
  by (cases "destination r"; auto simp: applies_def Let_def)+

lemma decided_weaken:
  assumes "\<And>r. Q r \<Longrightarrow> P r" and "\<And>r. P r \<Longrightarrow> action r = Allow \<Longrightarrow> Q r"
    and "decided dflt (find P rs) = Allow"
  shows "decided dflt (find Q rs) = Allow"
  using assms(3)
proof (induction rs)
  case (Cons r rs)
  then show ?case using assms(1,2) [of r] by (cases "P r"; cases "Q r") (auto simp: decided_def)
qed simp

lemma unresolved_sni_allow:
  assumes "ttl_inv (resolved_hostnames s)" and "live_names s now addr = {}"
    and "decided dflt (find (applies api addr port_opt protocol s now (Sni name)) rs) = Allow"
  shows "decided dflt (find (applies api addr port_opt protocol s now CacheOnly) rs) = Allow"
  by (rule decided_weaken [OF _ _ assms(3)]) (rule unresolved_sni_applies [OF assms(1,2)]; assumption)+

lemma applies_hostname_backed:
  assumes "ttl_inv (resolved_hostnames s)" and "source \<noteq> Deferred"
    and "applies api addr port_opt protocol s now source r"
    and "action r = Allow" and "is_hostname_destination (destination r)"
  shows "\<exists>h \<in> live_names s now addr. (\<exists>d. destination r = Domain d \<and> h = as_str d \<or>
           destination r = DomainSuffix d \<and> matches_suffix h (as_str d))"
  using assms
  by (cases "destination r"; cases source) (auto simp: applies_def Let_def cache.query_iff)

section \<open>Prepended rules and profiles\<close>

lemma deny_first_egress:
  assumes "rules policy' = deny_egress dest # rs"
    and "matches_egress_destination_with_source api dest Deny (ip dst) shared now source = Match"
  shows "evaluate_egress_with_source api policy' dst protocol shared now source = EvalDeny"
  using assms
  by (simp add: evaluate_egress_with_source_def egress_walk_def egress_walk_outcome_def deny_egress_def
      new_rule_def egress_skips_def egress_direction_def)

lemma deny_domain_suffix_rules:
  assumes "deny_domain_suffix parse_name policy suffix = Inr policy'"
  shows "\<exists>d. domain_from_str parse_name suffix = Inr d \<and>
     policy' = policy\<lparr>rules := deny_egress (DomainSuffix d) # rules policy\<rparr>"
  using assms
  by (auto simp: deny_domain_suffix_def deny_domain_suffixes_def prepend_egress_rules_def
      split: sum.splits)

lemma profile_flags_eq:
  "profile_flags ps (a, b, c) =
     (a \<or> ProfilePublic \<in> set ps, b \<or> ProfilePrivate \<in> set ps, c \<or> ProfileHost \<in> set ps)"
  by (induction ps arbitrary: a b c) (auto split: NetworkProfile.splits)

fun profile_group :: "NetworkProfile \<Rightarrow> DestinationGroup" where
  "profile_group ProfilePublic = Public"
| "profile_group ProfilePrivate = Private"
| "profile_group ProfileHost = Host"

lemma from_profiles_rules:
  "rules (from_profiles ps) =
     (if ps = [] then [] else [allow_dns]) @
     (if ProfilePublic \<in> set ps then [allow_egress (Group Public)] else []) @
     (if ProfilePrivate \<in> set ps then [allow_egress (Group Private)] else []) @
     (if ProfileHost \<in> set ps then [allow_egress (Group Host)] else [])"
proof -
  have "ProfilePublic \<in> set ps \<or> ProfilePrivate \<in> set ps \<or> ProfileHost \<in> set ps \<longleftrightarrow> ps \<noteq> []"
    by (cases ps) (auto, metis NetworkProfile.exhaust)
  then show ?thesis by (simp add: from_profiles_def profile_flags_eq)
qed

lemma ex_profile:
  "(\<exists>p \<in> A. R p) \<longleftrightarrow>
     ProfilePublic \<in> A \<and> R ProfilePublic \<or> ProfilePrivate \<in> A \<and> R ProfilePrivate \<or>
     ProfileHost \<in> A \<and> R ProfileHost"
proof
  assume "\<exists>p \<in> A. R p"
  then obtain p where "p \<in> A" "R p" by blast
  then show "ProfilePublic \<in> A \<and> R ProfilePublic \<or> ProfilePrivate \<in> A \<and> R ProfilePrivate \<or>
     ProfileHost \<in> A \<and> R ProfileHost" by (cases p) auto
qed auto

lemma from_profiles_set_rules:
  "r \<in> set (rules (from_profiles ps)) \<longleftrightarrow>
     r = allow_dns \<and> ps \<noteq> [] \<or> (\<exists>p \<in> set ps. r = allow_egress (Group (profile_group p)))"
  unfolding ex_profile from_profiles_rules by auto

lemma decided_all_allow:
  assumes "\<And>r. r \<in> set rs \<Longrightarrow> action r = Allow"
  shows "decided Deny (find P rs) = Allow \<longleftrightarrow> (\<exists>r \<in> set rs. P r)"
  using assms by (induction rs) (auto simp: decided_def)

lemma from_profiles_defaults [simp]:
  "default_egress (from_profiles ps) = Deny" "default_ingress (from_profiles ps) = Allow"
  by (simp_all add: from_profiles_def case_prod_beta Let_def)

lemma from_profiles_allow: "r \<in> set (rules (from_profiles ps)) \<Longrightarrow> action r = Allow"
  by (auto simp: from_profiles_set_rules allow_dns_def allow_egress_def new_rule_def)

section \<open>Properties\<close>

text \<open>C1. A decision taken when a connection opens, before its hostname is known, is the decision
  first-flight evaluation would take. An allowed flow stays allowed for every hostname source and
  however the cache changes; a refused flow would have been refused for every hostname source, as
  long as its address has gained no new name.\<close>

theorem syn_decision_final:
  assumes "ttl_inv (resolved_hostnames s)" and "ttl_inv (resolved_hostnames s')"
    and "same_view s s'" and "source \<noteq> Deferred"
  shows "(evaluate_egress_with_source api policy dst protocol s now Deferred = EvalAllow \<longrightarrow>
            evaluate_egress_with_source api policy dst protocol s' now' source = EvalAllow) \<and>
         (evaluate_egress_with_source api policy dst protocol s now Deferred = EvalDeny \<longrightarrow>
            live_names s' now' (ip dst) \<subseteq> live_names s now (ip dst) \<longrightarrow>
            evaluate_egress_with_source api policy dst protocol s' now' source = EvalDeny)"
proof -
  let ?p = "Some (port dst)"
  let ?w = "walk_from api policy (ip dst) ?p protocol s now Deferred 0 (rules policy)"
  have fin: "evaluate_egress_with_source api policy dst protocol s' now' source =
      eval_of_action (decided (default_egress policy)
        (find (applies api (ip dst) ?p protocol s' now' source) (rules policy)))"
    by (simp add: evaluate_egress_with_source_def egress_walk_final [OF assms(4)])
  have w: "evaluate_egress_with_source api policy dst protocol s now Deferred = eval_of_action a \<longleftrightarrow>
      ?w = Matched a \<or> ?w = Default \<and> default_egress policy = a" for a
    by (cases ?w; cases a; cases "default_egress policy")
      (auto simp: evaluate_egress_with_source_def egress_walk_def egress_walk_outcome_def)
  show ?thesis
  proof (intro conjI impI)
    assume "evaluate_egress_with_source api policy dst protocol s now Deferred = EvalAllow"
    then show "evaluate_egress_with_source api policy dst protocol s' now' source = EvalAllow"
      unfolding fin eval_of_action_eq using w [of Allow] by (intro deferred_allow_final [OF assms(3)]) simp
  next
    assume "evaluate_egress_with_source api policy dst protocol s now Deferred = EvalDeny"
      and sub: "live_names s' now' (ip dst) \<subseteq> live_names s now (ip dst)"
    then show "evaluate_egress_with_source api policy dst protocol s' now' source = EvalDeny"
      unfolding fin eval_of_action_eq using w [of Deny]
      by (intro deferred_deny_final [OF assms(3) cache.query_mono [OF assms(1,2) sub], where idx = 0]) simp_all
  qed
qed

theorem syn_decision_final_witness:
  "evaluate_egress_with_source \<lparr>net_contains = (\<lambda>n a. n = a), prefix_len = (\<lambda>p. 96), prefix_contains = (\<lambda>p a. False)\<rparr>
     \<lparr>default_egress = Deny, default_ingress = Deny, rules = [allow_egress (Cidr (V4 7))]\<rparr>
     (SocketAddr (V4 7) 443) Tcp (new_shared () :: (nat, unit) SharedState) 9 (Sni ''a.b'') = EvalAllow"
  using syn_decision_final [of "new_shared () :: (nat, unit) SharedState" "new_shared ()" "Sni ''a.b''"
      "\<lparr>net_contains = (\<lambda>n a. n = a), prefix_len = (\<lambda>p. 96), prefix_contains = (\<lambda>p a. False)\<rparr>"
      "\<lparr>default_egress = Deny, default_ingress = Deny, rules = [allow_egress (Cidr (V4 7))]\<rparr>"
      "SocketAddr (V4 7) 443" Tcp 5 9]
  by (simp add: new_shared_def ttl_inv_default evaluate_egress_with_source_def egress_walk_def
      egress_walk_outcome_def allow_egress_def new_rule_def egress_skips_def egress_direction_def
      match_of_bool_def matches_cidr_def)

text \<open>C2. A guest cannot open an address by claiming a server name. If the address has no live name
  in the resolved-hostname cache, a flow that is allowed with a server name is allowed without it;
  and whenever a hostname rule is what allows a flow, some name the guest really resolved to that
  address satisfies the rule.\<close>

theorem sni_cannot_open_address:
  assumes "ttl_inv (resolved_hostnames s)"
  shows "(live_names s now (ip dst) = {} \<longrightarrow>
            evaluate_egress_with_source api policy dst protocol s now (Sni name) = EvalAllow \<longrightarrow>
            evaluate_egress api policy dst protocol s now = Allow) \<and>
         (source \<noteq> Deferred \<longrightarrow> allows_egress_via_hostname api policy dst protocol s now source \<longrightarrow>
            (\<exists>r \<in> set (rules policy). \<exists>h \<in> live_names s now (ip dst). \<exists>d. action r = Allow \<and>
               (destination r = Domain d \<and> h = as_str d \<or>
                destination r = DomainSuffix d \<and> matches_suffix h (as_str d))))"
proof (intro conjI impI)
  assume "live_names s now (ip dst) = {}"
    and "evaluate_egress_with_source api policy dst protocol s now (Sni name) = EvalAllow"
  then show "evaluate_egress api policy dst protocol s now = Allow"
    using unresolved_sni_allow [OF assms]
    by (simp add: evaluate_egress_with_source_def evaluate_egress_def egress_walk_final)
next
  assume src: "source \<noteq> Deferred" and "allows_egress_via_hostname api policy dst protocol s now source"
  then obtain r where "find (applies api (ip dst) (Some (port dst)) protocol s now source) (rules policy) = Some r"
      and r: "action r = Allow" "is_hostname_destination (destination r)"
    by (auto simp: allows_egress_via_hostname_def hostname_allow_walk_find split: option.splits)
  then have "r \<in> set (rules policy)" "applies api (ip dst) (Some (port dst)) protocol s now source r"
    by (auto dest: find_Some_applies)
  then show "\<exists>r \<in> set (rules policy). \<exists>h \<in> live_names s now (ip dst). \<exists>d. action r = Allow \<and>
      (destination r = Domain d \<and> h = as_str d \<or>
       destination r = DomainSuffix d \<and> matches_suffix h (as_str d))"
    using applies_hostname_backed [OF assms src _ r] r(1) by blast
qed

theorem sni_cannot_open_address_witness:
  "evaluate_egress \<lparr>net_contains = (\<lambda>n a. n = a), prefix_len = (\<lambda>p. 96), prefix_contains = (\<lambda>p a. False)\<rparr>
     \<lparr>default_egress = Deny, default_ingress = Deny, rules = [allow_egress (Cidr (V4 7))]\<rparr>
     (SocketAddr (V4 7) 443) Tcp (new_shared () :: (nat, unit) SharedState) 9 = Allow"
  using sni_cannot_open_address [of "new_shared () :: (nat, unit) SharedState" 9
      "SocketAddr (V4 7) 443"
      "\<lparr>net_contains = (\<lambda>n a. n = a), prefix_len = (\<lambda>p. 96), prefix_contains = (\<lambda>p a. False)\<rparr>"
      "\<lparr>default_egress = Deny, default_ingress = Deny, rules = [allow_egress (Cidr (V4 7))]\<rparr>"
      Tcp "''a.b''" CacheOnly]
  by (simp add: new_shared_def ttl_inv_default live_names_def evaluate_egress_with_source_def egress_walk_def
      egress_walk_outcome_def allow_egress_def new_rule_def egress_skips_def egress_direction_def
      match_of_bool_def matches_cidr_def)

text \<open>C7. Every evaluator is first match wins: with a server name or from the cache, for flows with
  a port and for packets without one, the outcome of an outbound evaluation is the action of the
  first rule that applies and otherwise the egress default, never a deferral; inbound evaluation
  is the same with the ingress rules and default, and a DNS query with the rules that match its
  name.\<close>

theorem evaluation_first_match:
  "evaluate_egress api policy dst protocol s now =
     decided (default_egress policy) (find (\<lambda>r. egress_direction (direction r) \<and>
       rule_matches api r (ip dst) (Some (port dst)) protocol s now) (rules policy)) \<and>
   evaluate_egress_ip api policy addr protocol s now =
     decided (default_egress policy) (find (\<lambda>r. egress_direction (direction r) \<and>
       rule_matches api r addr None protocol s now) (rules policy)) \<and>
   evaluate_egress_with_source api policy dst protocol s now (Sni name) =
     eval_of_action (decided (default_egress policy)
       (find (applies api (ip dst) (Some (port dst)) protocol s now (Sni name)) (rules policy))) \<and>
   evaluate_ingress api policy peer guest_port protocol s now =
     decided (default_ingress policy) (find (\<lambda>r. (direction r = Ingress \<or> direction r = AnyDirection) \<and>
       rule_matches api r (ip peer) (Some guest_port) protocol s now) (rules policy)) \<and>
   evaluate_dns_query policy qname protocol p =
     decided (default_egress policy) (find (\<lambda>r. egress_direction (direction r) \<and>
       dns_matches r (Some qname) protocol p) (rules policy))"
  by (simp add: evaluate_egress_def evaluate_egress_ip_def evaluate_egress_with_source_def
      egress_walk_final evaluate_ingress_def ingress_walk_find evaluate_dns_query_def
      evaluate_dns_query_inner_def dns_walk_find applies_cache_only [abs_def] del: dns_matches.simps)

lemma egress_rules:
  "egress_direction (direction allow_dns)"
  "egress_direction (direction (allow_egress dest))"
  by (simp_all add: egress_direction_def allow_dns_def allow_egress_def new_rule_def)

lemma not_Allow: "a \<noteq> Allow \<longleftrightarrow> a = Deny"
  by (cases a) auto

lemma group_normal: "matches_group api g (normalize_ip_addr a) s = matches_group api g a s"
  by (simp add: matches_group_def addr_classify_def)

lemma cidr_normal: "matches_cidr api n (normalize_ip_addr a) s = matches_cidr api n a s"
  by (simp add: matches_cidr_def)

lemma match_normal:
  "matches_egress_destination_with_source api dest act (normalize_ip_addr a) s now source =
     matches_egress_destination_with_source api dest act a s now source"
  by (cases dest)
    (simp_all add: group_normal cidr_normal cache.query_normal deferred_domain_match_def
      split: HostnameSource.split)

lemma tail_normal:
  "tail_can_allow api dflt (normalize_ip_addr a) port_opt protocol s now rs =
     tail_can_allow api dflt a port_opt protocol s now rs"
  by (induction rs) (auto simp: match_normal split: DestinationMatch.split)

lemma walk_from_normal:
  "walk_from api policy (normalize_ip_addr a) port_opt protocol s now source idx rs =
     walk_from api policy a port_opt protocol s now source idx rs"
  by (induction rs arbitrary: idx) 
    (auto simp: match_normal deferred_tail_can_allow_def tail_normal split: DestinationMatch.split)

text \<open>C21. A denied domain suffix is unreachable. Once \<^verbatim>\<open>deny_domain_suffix\<close> has succeeded, a
  connection whose server name is the suffix or ends in a dot and the suffix is refused for every
  address, protocol and port and whatever other rules follow; so is one whose address the guest
  resolved from such a name, and the DNS query for the name itself.\<close>

theorem denied_suffix_unreachable:
  assumes "deny_domain_suffix parse_name policy suffix = Inr policy'"
    and "domain_from_str parse_name suffix = Inr d"
    and "matches_suffix host (as_str d)"
  shows "evaluate_egress_with_source api policy' dst protocol s now (Sni host) = EvalDeny \<and>
    (any_resolved_hostname s now (ip dst) (\<lambda>h. matches_suffix h (as_str d)) \<longrightarrow>
       evaluate_egress api policy' dst protocol s now = Deny) \<and>
    evaluate_dns_query policy' (DomainName host) protocol p = Deny"
proof -
  have p: "rules policy' = deny_egress (DomainSuffix d) # rules policy"
    using deny_domain_suffix_rules [OF assms(1)] assms(2) by auto
  have "evaluate_egress_with_source api policy' dst protocol s now (Sni host) = EvalDeny"
    using assms(3) by (intro deny_first_egress [OF p]) simp
  moreover have "evaluate_egress_with_source api policy' dst protocol s now CacheOnly = EvalDeny"
    if "any_resolved_hostname s now (ip dst) (\<lambda>h. matches_suffix h (as_str d))"
    using that by (intro deny_first_egress [OF p]) simp
  moreover have "evaluate_dns_query policy' (DomainName host) protocol p = Deny"
    using assms(3)
    by (simp add: evaluate_dns_query_def evaluate_dns_query_inner_def p deny_egress_def new_rule_def
        egress_direction_def)
  ultimately show ?thesis by (auto simp: evaluate_egress_def evaluate_egress_with_source_def)
qed

theorem denied_suffix_unreachable_witness:
  "\<exists>policy'. deny_domain_suffix (\<lambda>_. None :: unit option) policy_allow_all ''Evil.example.'' = Inr policy' \<and>
     evaluate_dns_query (policy' :: nat NetworkPolicy) (DomainName ''www.evil.example'') Udp 53 = Deny"
proof -
  let ?p = "policy_allow_all\<lparr>rules := [deny_egress (DomainSuffix (DomainName ''evil.example''))]\<rparr> :: nat NetworkPolicy"
  have d: "domain_from_str (\<lambda>_. None :: unit option) ''Evil.example.'' = Inr (DomainName ''evil.example'')"
    by code_simp
  then have "deny_domain_suffix (\<lambda>_. None :: unit option) policy_allow_all ''Evil.example.'' = Inr ?p"
    by (simp add: deny_domain_suffix_def deny_domain_suffixes_def prepend_egress_rules_def policy_allow_all_def)
  moreover have "matches_suffix ''www.evil.example'' ''evil.example''" by code_simp
  ultimately show ?thesis
    using denied_suffix_unreachable [where protocol = Udp and p = 53 and policy = policy_allow_all
        and policy' = ?p and host = "''www.evil.example''", OF _ d, THEN conjunct2, THEN conjunct2] by auto
qed

text \<open>C22. What a set of profiles opens, exactly. Under a policy built from profiles an outbound
  connection is allowed if and only if its destination is classified into the group of one of the
  profiles, or it is plain DNS (port 53 over UDP or TCP) to the sandbox gateway and the set is not
  empty. In particular loopback, link-local, metadata and multicast destinations are refused, and
  the order and repetition of profiles do not matter.\<close>

theorem profile_reachability:
  "evaluate_egress api (from_profiles ps) dst protocol s now = Allow \<longleftrightarrow>
     (\<exists>p \<in> set ps. matches_group api (profile_group p) (ip dst) s) \<or>
     (ps \<noteq> [] \<and> matches_group api Host (ip dst) s \<and> port dst = 53 \<and> protocol \<in> {Udp, Tcp})"
proof -
  have dns: "rule_matches api allow_dns (ip dst) (Some (port dst)) protocol s now \<longleftrightarrow>
      matches_group api Host (ip dst) s \<and> port dst = 53 \<and> protocol \<in> {Udp, Tcp}"
    by (auto simp: rule_matches_def allow_dns_def single_port_def contains_port_def matches_destination_def)
  have grp: "rule_matches api (allow_egress (Group g)) (ip dst) (Some (port dst)) protocol s now \<longleftrightarrow>
      matches_group api g (ip dst) s" for g
    by (simp add: rule_matches_def allow_egress_def new_rule_def matches_destination_def)
  have "evaluate_egress api (from_profiles ps) dst protocol s now = Allow \<longleftrightarrow>
      (\<exists>r \<in> set (rules (from_profiles ps)). egress_direction (direction r) \<and>
         rule_matches api r (ip dst) (Some (port dst)) protocol s now)"
    by (simp add: evaluate_egress_def egress_walk_final applies_cache_only [abs_def]
        decided_all_allow [OF from_profiles_allow])
  also have "\<dots> \<longleftrightarrow> (\<exists>r. (r = allow_dns \<and> ps \<noteq> [] \<or> (\<exists>p \<in> set ps. r = allow_egress (Group (profile_group p)))) \<and>
      egress_direction (direction r) \<and> rule_matches api r (ip dst) (Some (port dst)) protocol s now)"
    by (simp only: Bex_def from_profiles_set_rules)
  also have "\<dots> \<longleftrightarrow> (\<exists>p \<in> set ps. matches_group api (profile_group p) (ip dst) s) \<or>
      (ps \<noteq> [] \<and> matches_group api Host (ip dst) s \<and> port dst = 53 \<and> protocol \<in> {Udp, Tcp})"
    using dns grp egress_rules by blast
  finally show ?thesis .
qed

theorem profile_reachability_witness:
  "evaluate_egress \<lparr>net_contains = (\<lambda>n a. n = a), prefix_len = (\<lambda>p. 96), prefix_contains = (\<lambda>p a. False)\<rparr>
     (from_profiles [ProfilePublic] :: IpAddr NetworkPolicy) (SocketAddr (V4 0xa9fea9fe) 80) Tcp
     (new_shared () :: (nat, unit) SharedState) 9 = Deny"
proof -
  let ?api = "\<lparr>net_contains = (\<lambda>n a. n = a), prefix_len = (\<lambda>p. 96), prefix_contains = (\<lambda>p a. False)\<rparr>
     :: (IpAddr, nat) net_api"
  have "addr_classify ?api (V4 0xa9fea9fe) (new_shared () :: (nat, unit) SharedState) = Some Metadata"
    by (simp add: addr_classify_def Let_def nat64_ipv4_projection_def new_shared_def gateway_ipv4_def v4_octet_def)
  then show ?thesis
    using profile_reachability [of ?api "[ProfilePublic]" "SocketAddr (V4 0xa9fea9fe) 80" Tcp
        "new_shared () :: (nat, unit) SharedState" 9]
    by (simp add: matches_group_def not_Allow)
qed


text \<open>C24. The spelling of an address does not change a decision: an IPv4 address written as an
  IPv4-mapped IPv6 address gets the same outcome from every policy and every hostname source, and
  no CIDR or group rule that matches the IPv4 address embedded in a NAT64 address can be avoided
  by using the NAT64 address.\<close>

theorem address_spelling_irrelevant:
  "evaluate_egress_with_source api policy (SocketAddr (normalize_ip_addr a) p) protocol s now source =
     evaluate_egress_with_source api policy (SocketAddr a p) protocol s now source \<and>
   evaluate_ingress api policy (SocketAddr (normalize_ip_addr a) p) gp protocol s now =
     evaluate_ingress api policy (SocketAddr a p) gp protocol s now \<and>
   (nat64_ipv4_projection api (normalize_ip_addr a) s = Some v4 \<longrightarrow>
      (matches_cidr api net v4 s \<longrightarrow> matches_cidr api net a s) \<and>
      matches_group api g a s = matches_group api g v4 s)"
proof -
  have "matches_cidr api net a s" if pr: "nat64_ipv4_projection api (normalize_ip_addr a) s = Some v4"
    and m: "matches_cidr api net v4 s"
  proof -
    obtain x where "v4 = V4 x" using pr by (auto simp: nat64_ipv4_projection_def split: IpAddr.splits)
    then show ?thesis using pr m by (simp add: matches_cidr_def Let_def nat64_ipv4_projection_def)
  qed
  moreover have "matches_group api g a s = matches_group api g v4 s"
    if pr: "nat64_ipv4_projection api (normalize_ip_addr a) s = Some v4"
  proof -
    obtain x where "v4 = V4 x" using pr by (auto simp: nat64_ipv4_projection_def split: IpAddr.splits)
    then have "policy_addr api a s = v4" "policy_addr api v4 s = v4"
      using pr by (simp_all add: policy_addr_def Let_def nat64_ipv4_projection_def)
    then show ?thesis by (simp add: matches_group_def addr_classify_policy_addr)
  qed
  ultimately show ?thesis
    by (simp add: evaluate_egress_with_source_def egress_walk_def egress_walk_outcome_def
        walk_from_normal evaluate_ingress_def ingress_walk_find rule_matches_def matches_destination_def
        match_normal)
qed

theorem address_spelling_irrelevant_witness:
  "matches_group \<lparr>net_contains = (\<lambda>n a. n = a), prefix_len = (\<lambda>p. 96), prefix_contains = (\<lambda>p a. True)\<rparr> Private
     (V6 0x64ff9b00000000000000000a000001)
     (set_nat64_prefixes [0 :: nat] (new_shared ()) :: (nat, unit) SharedState)"
proof -
  let ?api = "\<lparr>net_contains = (\<lambda>n a. n = a), prefix_len = (\<lambda>p. 96), prefix_contains = (\<lambda>p a. True)\<rparr>
     :: (IpAddr, nat) net_api"
  let ?s = "set_nat64_prefixes [0 :: nat] (new_shared ()) :: (nat, unit) SharedState"
  let ?a = "V6 0x64ff9b00000000000000000a000001"
  have n: "normalize_ip_addr ?a = ?a" by (simp add: normalize_ip_addr_def to_ipv4_mapped_def)
  have "nat64_ipv4_projection ?api ?a ?s = Some (V4 0x0a000001)"
    by (simp add: nat64_ipv4_projection_def nat64_embedded_ipv4_addr_def nat64_prefixes_def
        set_nat64_prefixes_def new_shared_def once_set_def)
  moreover have "matches_group ?api Private (V4 0x0a000001) ?s"
    by (simp add: matches_group_def addr_classify_def Let_def nat64_ipv4_projection_def v4_octet_def
        gateway_ipv4_def set_nat64_prefixes_def new_shared_def)
  ultimately show ?thesis
    using address_spelling_irrelevant [of ?api "policy_none" ?a 0 Tcp ?s 0 CacheOnly 0 "V4 0x0a000001"
        "V4 0x0a000001" Private]
    by (simp add: n)
qed

lemma trim_end_last: "trim_end_dots s \<noteq> [] \<Longrightarrow> last (trim_end_dots s) \<noteq> CHR ''.''"
  using hd_dropWhile [of "\<lambda>c. c = CHR ''.''" "rev s"] by (auto simp: trim_end_dots_def last_rev)

lemma trim_start_hd: "trim_start_dots s \<noteq> [] \<Longrightarrow> hd (trim_start_dots s) \<noteq> CHR ''.''"
  using hd_dropWhile [of "\<lambda>c. c = CHR ''.''" s] by (auto simp: trim_start_dots_def)

lemma trim_end_hd: "trim_end_dots s \<noteq> [] \<Longrightarrow> hd (trim_end_dots s) = hd s"
proof -
  assume ne: "trim_end_dots s \<noteq> []"
  have "s = trim_end_dots s @ rev (takeWhile (\<lambda>c. c = CHR ''.'') (rev s))"
    unfolding trim_end_dots_def by (metis rev_append rev_rev_ident takeWhile_dropWhile_id)
  with ne show ?thesis by (metis hd_append2)
qed

lemma lower_map_facts:
  "to_ascii_lowercase s = [] \<longleftrightarrow> s = []"
  "s \<noteq> [] \<Longrightarrow> hd (to_ascii_lowercase s) = ascii_lower_char (hd s)"
  "s \<noteq> [] \<Longrightarrow> last (to_ascii_lowercase s) = ascii_lower_char (last s)"
  by (simp_all add: to_ascii_lowercase_def hd_map last_map)

text \<open>Suffix rules match on label boundaries: a host matches a suffix exactly when it is the
  suffix or a non-empty prefix, a dot and the suffix, so no other host that merely ends in the
  same letters does.\<close>

theorem suffix_label_aligned:
  "matches_suffix host suffix \<longleftrightarrow>
     host = suffix \<or> (\<exists>label. label \<noteq> [] \<and> host = label @ ''.'' @ suffix)"
  by (rule matches_suffix_iff)

text \<open>A name accepted in a rule is in the canonical form the resolved-hostname cache stores: it
  is not empty, has no dot at either end, is its own normal form, and equals the cache's form of
  the text it was parsed from when that text has no leading dot.\<close>

theorem domain_name_canonical:
  assumes "domain_from_str parse_name s = Inr d"
  shows "as_str d \<noteq> [] \<and> hd (as_str d) \<noteq> CHR ''.'' \<and> last (as_str d) \<noteq> CHR ''.'' \<and>
    normalize_hostname (as_str d) = as_str d \<and>
    (trim_start_dots s = s \<longrightarrow> as_str d = normalize_hostname s)"
proof -
  let ?t = "trim_end_dots (trim_start_dots s)"
  have d: "as_str d = to_ascii_lowercase ?t" and ne: "?t \<noteq> []"
    using domain_from_str_canonical [OF assms] by (auto simp: normalize_hostname_def lower_map_facts)
  then have "trim_start_dots s \<noteq> []" by (auto simp: trim_end_dots_def)
  then show ?thesis
    using ne trim_end_last [OF ne] trim_end_hd [OF ne] trim_start_hd [of s]
    by (simp add: d lower_map_facts normalize_hostname_def trim_end_lower)
qed

theorem domain_name_canonical_witness:
  "normalize_hostname ''example.com'' = ''example.com''"
proof -
  have "domain_from_str (\<lambda>_. None :: unit option) ''.Example.COM.'' = Inr (DomainName ''example.com'')"
    by code_simp
  from domain_name_canonical [OF this] show ?thesis by simp
qed

text \<open>C25. The question whether a flow is refused only by default is answered exactly: with a final
  hostname source it is yes if and only if the egress default denies and no rule applies to the
  flow, and with any source a yes means that the flow is refused.\<close>

theorem denied_by_default_exact:
  "(source \<noteq> Deferred \<longrightarrow>
      (egress_denied_by_default api policy dst protocol s now source \<longleftrightarrow>
         default_egress policy = Deny \<and>
         (\<forall>r \<in> set (rules policy). \<not> applies api (ip dst) (Some (port dst)) protocol s now source r))) \<and>
   (egress_denied_by_default api policy dst protocol s now source \<longrightarrow>
      evaluate_egress_with_source api policy dst protocol s now source = EvalDeny)"
  by (auto simp: egress_denied_by_default_def egress_walk_outcome_def walk_from_final find_None_iff
      evaluate_egress_with_source_def egress_walk_def split: option.splits dest: find_Some_applies)

theorem denied_by_default_exact_witness:
  "egress_denied_by_default (\<lparr>net_contains = (\<lambda>n a. n = a), prefix_len = (\<lambda>p. 96),
       prefix_contains = (\<lambda>p a. False)\<rparr> :: (IpAddr, nat) net_api) policy_none
     (SocketAddr (V4 7) 80) Tcp (new_shared () :: (nat, unit) SharedState) 0 CacheOnly"
  using denied_by_default_exact [of CacheOnly "\<lparr>net_contains = (\<lambda>n a. n = a), prefix_len = (\<lambda>p. 96),
       prefix_contains = (\<lambda>p a. False)\<rparr> :: (IpAddr, nat) net_api" policy_none
     "SocketAddr (V4 7) 80" Tcp "new_shared () :: (nat, unit) SharedState" 0]
  by (simp add: policy_none_def)

end
