(* ===== verification/Wire_Codec.thy ===== *)
theory Wire_Codec
  imports Prelude
begin

text \<open>
  \<^verbatim>\<open>crates/protocol/lib/codec.rs\<close>: the length-prefixed frame codec of the host-guest protocol, and
  the record types of \<^verbatim>\<open>bulk.rs\<close> and \<^verbatim>\<open>message.rs\<close> it encodes. A decoder takes the buffer and
  returns its result with the bytes it leaves behind. The CBOR encoding of a control message is
  that of the external crate \<^verbatim>\<open>ciborium\<close>, a parameter of the typed codec; the byte sink of the
  writers is an asynchronous writer of \<^verbatim>\<open>tokio\<close>, a parameter of \<open>write_vectored_all\<close>.
\<close>

section \<open>Constants and types\<close>

definition MAX_FRAME_SIZE :: nat where "MAX_FRAME_SIZE = 4 * 1024 * 1024"
definition MAX_WIRE_FRAME :: nat where "MAX_WIRE_FRAME = 4 + MAX_FRAME_SIZE"
definition FRAME_HEADER_SIZE :: nat where "FRAME_HEADER_SIZE = 5"
definition BULK_HEADER_SIZE :: nat where "BULK_HEADER_SIZE = 12"
definition MIN_BULK_RECORD_PAYLOAD :: nat where "MIN_BULK_RECORD_PAYLOAD = 16 * 1024"
definition MAX_BULK_RECORD_PAYLOAD :: nat where "MAX_BULK_RECORD_PAYLOAD = 3 * 1024 * 1024"

definition FLAG_TERMINAL :: u8 where "FLAG_TERMINAL = 0b00000001"
definition FLAG_SESSION_START :: u8 where "FLAG_SESSION_START = 0b00000010"
definition FLAG_SHUTDOWN :: u8 where "FLAG_SHUTDOWN = 0b00000100"
definition FLAG_BULK :: u8 where "FLAG_BULK = 0b00001000"

lemmas codec_consts = MAX_FRAME_SIZE_def FRAME_HEADER_SIZE_def BULK_HEADER_SIZE_def
  MAX_BULK_RECORD_PAYLOAD_def

datatype ('i, 'c) ProtocolError =
    Io 'i
  | CborEncode 'c
  | CborDecode 'c
  | FrameTooLarge nat nat
  | FrameTooShort nat nat
  | InvalidBulkFrame string
  | InvalidBulkBinding string
  | UnexpectedEof

record RawFrame =
  rf_id :: u32
  rf_flags :: u8
  rf_body :: "u8 list"

datatype BulkKind = Filesystem | TcpKind

datatype BulkFlow = HostToGuest | GuestToHost

record BulkRecord =
  br_id :: u32
  br_kind :: BulkKind
  br_flow :: BulkFlow
  br_offset :: u64
  br_payload :: "u8 list"

fun kind_byte :: "BulkKind \<Rightarrow> u8" where
  "kind_byte Filesystem = 1"
| "kind_byte TcpKind = 2"

fun flow_byte :: "BulkFlow \<Rightarrow> u8" where
  "flow_byte HostToGuest = 1"
| "flow_byte GuestToHost = 2"

definition kind_from_wire :: "u8 \<Rightarrow> BulkKind option" where
  "kind_from_wire value = (if value = 1 then Some Filesystem else if value = 2 then Some TcpKind else None)"

definition flow_from_wire :: "u8 \<Rightarrow> BulkFlow option" where
  "flow_from_wire value = (if value = 1 then Some HostToGuest else if value = 2 then Some GuestToHost else None)"

text \<open>Decimal digits, for the numbers in error messages.\<close>

fun show_nat :: "nat \<Rightarrow> string" where
  "show_nat n =
     (if n < 10 then [char_of (48 + n)] else show_nat (n div 10) @ [char_of (48 + n mod 10)])"

declare show_nat.simps [simp del]

section \<open>Raw frames\<close>

definition raw_frame_len :: "RawFrame \<Rightarrow> ('i, 'c) ProtocolError + nat" where
  "raw_frame_len frame =
     (let n = FRAME_HEADER_SIZE + length (rf_body frame)
      in if n \<ge> 2 ^ 32 then Inl (FrameTooLarge (2 ^ 32 - 1) MAX_FRAME_SIZE)
         else if n > MAX_FRAME_SIZE then Inl (FrameTooLarge n MAX_FRAME_SIZE)
         else Inr n)"

definition encode_raw_to_buf ::
  "RawFrame \<Rightarrow> u8 list \<Rightarrow> (('i, 'c) ProtocolError + unit) \<times> u8 list" where
  "encode_raw_to_buf frame buf =
     try_res (raw_frame_len frame) buf (\<lambda>frame_len.
       (Inr (), buf @ be_bytes 4 frame_len @ be_bytes 4 (unat (rf_id frame)) @ [rf_flags frame] @ rf_body frame))"

definition try_decode_raw_from_buf ::
  "u8 list \<Rightarrow> (('i, 'c) ProtocolError + RawFrame option) \<times> u8 list" where
  "try_decode_raw_from_buf buf =
     (if length buf < 4 then (Inr None, buf)
      else let frame_len = from_be (take 4 buf) in
        if frame_len > MAX_FRAME_SIZE then (Inl (FrameTooLarge frame_len MAX_FRAME_SIZE), buf)
        else let total = 4 + frame_len in
          if length buf < total then (Inr None, buf)
          else if frame_len < FRAME_HEADER_SIZE then (Inl (FrameTooShort frame_len FRAME_HEADER_SIZE), buf)
          else let fid = of_nat (from_be (take 4 (drop 4 buf)));
                   fl = buf ! 8;
                   body = drop (4 + FRAME_HEADER_SIZE) (take total buf)
               in (Inr (Some \<lparr>rf_id = fid, rf_flags = fl, rf_body = body\<rparr>), drop total buf))"

text \<open>\<^verbatim>\<open>read_exact\<close> on a byte stream that ends: it takes the bytes or reports the end.\<close>

definition read_exact :: "nat \<Rightarrow> u8 list \<Rightarrow> u8 list option \<times> u8 list" where
  "read_exact n input = (if length input < n then (None, []) else (Some (take n input), drop n input))"

text \<open>An input stream that ends in the middle of the header or the body surfaces as the I/O error
  \<open>eof\<close>; one that ends in the length prefix as \<^verbatim>\<open>UnexpectedEof\<close>.\<close>

definition read_raw_frame ::
  "'i \<Rightarrow> u8 list \<Rightarrow> (('i, 'c) ProtocolError + RawFrame) \<times> u8 list" where
  "read_raw_frame eof input =
     (case read_exact 4 input of
        (None, input1) \<Rightarrow> (Inl UnexpectedEof, input1)
      | (Some len_buf, input1) \<Rightarrow>
          let frame_len = from_be len_buf in
          if frame_len > MAX_FRAME_SIZE then (Inl (FrameTooLarge frame_len MAX_FRAME_SIZE), input1)
          else if frame_len < FRAME_HEADER_SIZE then (Inl (FrameTooShort frame_len FRAME_HEADER_SIZE), input1)
          else (case read_exact FRAME_HEADER_SIZE input1 of
                  (None, input2) \<Rightarrow> (Inl (Io eof), input2)
                | (Some header, input2) \<Rightarrow>
                    (case read_exact (frame_len - FRAME_HEADER_SIZE) input2 of
                       (None, input3) \<Rightarrow> (Inl (Io eof), input3)
                     | (Some body, input3) \<Rightarrow>
                         (Inr \<lparr>rf_id = of_nat (from_be (take 4 header)), rf_flags = header ! 4,
                               rf_body = body\<rparr>, input3))))"

section \<open>Writing\<close>

text \<open>The gathering write loop. A writer has a state and an operation \<open>put\<close> that is offered a list of
  slices and reports how many bytes it took or an error. The offsets count what has been written;
  every round takes at least one byte, so the loop ends.\<close>

datatype 'i write_error = WriteZero | WriteFailed 'i

function vectored_loop ::
  "('w \<Rightarrow> u8 list list \<Rightarrow> ('i + nat) \<times> 'w) \<Rightarrow> u8 list \<Rightarrow> u8 list \<Rightarrow> nat \<Rightarrow> nat \<Rightarrow> 'w
     \<Rightarrow> ('i write_error + unit) \<times> 'w" where
  "vectored_loop put header body header_offset body_offset w =
     (if \<not> (header_offset < length header \<or> body_offset < length body) then (Inr (), w)
      else
        let slices =
              (if header_offset < length header
               then (if body_offset < length body
                     then [drop header_offset header, drop body_offset body]
                     else [drop header_offset header])
               else [drop body_offset body]);
            (r, w') = put w slices
        in case r of
             Inl e \<Rightarrow> (Inl (WriteFailed e), w')
           | Inr written \<Rightarrow>
               if written = 0 then (Inl WriteZero, w')
               else let header_remaining = length header - header_offset in
                 if written < header_remaining
                 then vectored_loop put header body (header_offset + written) body_offset w'
                 else vectored_loop put header body (length header)
                        (body_offset + (written - header_remaining)) w')"
  by pat_completeness auto
termination
  by (relation "measure (\<lambda>(put, header, body, ho, bo, w). (length header - ho) + (length body - bo))")
    (auto split: if_splits)

declare vectored_loop.simps [simp del]

definition write_vectored_all where
  "write_vectored_all put header body w = vectored_loop put header body 0 0 w"

text \<open>The writers hand the header and the body to the loop and flush.\<close>

definition write_frame_parts ::
  "('w \<Rightarrow> u8 list list \<Rightarrow> ('i + nat) \<times> 'w) \<Rightarrow> ('w \<Rightarrow> ('i + unit) \<times> 'w) \<Rightarrow> u8 list \<Rightarrow> u8 list \<Rightarrow> 'w
     \<Rightarrow> (('i write_error, 'c) ProtocolError + unit) \<times> 'w" where
  "write_frame_parts put flush header body w =
     (case write_vectored_all put header body w of
        (Inl e, w1) \<Rightarrow> (Inl (Io e), w1)
      | (Inr _, w1) \<Rightarrow>
          (case flush w1 of
             (Inl e, w2) \<Rightarrow> (Inl (Io (WriteFailed e)), w2)
           | (Inr _, w2) \<Rightarrow> (Inr (), w2)))"

definition write_raw_frame where
  "write_raw_frame put flush frame w =
     try_res (raw_frame_len frame) w (\<lambda>frame_len.
       write_frame_parts put flush
         (be_bytes 4 frame_len @ be_bytes 4 (unat (rf_id frame)) @ [rf_flags frame]) (rf_body frame) w)"

section \<open>Bulk records\<close>

definition encode_bulk_header :: "BulkRecord \<Rightarrow> ('i, 'c) ProtocolError + u8 list" where
  "encode_bulk_header record =
     (let payload_len = length (br_payload record)
      in if payload_len = 0 \<or> payload_len > MAX_BULK_RECORD_PAYLOAD
         then Inl (InvalidBulkFrame (''payload length '' @ show_nat payload_len @ '' is outside 1..=''
                @ show_nat MAX_BULK_RECORD_PAYLOAD))
         else if checked_add64 (br_offset record) payload_len = None
         then Inl (InvalidBulkFrame ''record end offset overflows u64'')
         else let frame_len = FRAME_HEADER_SIZE + BULK_HEADER_SIZE + payload_len in
           if frame_len \<ge> 2 ^ 32 then Inl (FrameTooLarge (2 ^ 32 - 1) MAX_FRAME_SIZE)
           else if frame_len > MAX_FRAME_SIZE then Inl (FrameTooLarge frame_len MAX_FRAME_SIZE)
           else Inr (be_bytes 4 frame_len @ be_bytes 4 (unat (br_id record)) @ [FLAG_BULK]
                  @ [kind_byte (br_kind record), flow_byte (br_flow record), 0, 0]
                  @ be_bytes 8 (br_offset record)))"

definition encode_bulk_to_buf ::
  "BulkRecord \<Rightarrow> u8 list \<Rightarrow> (('i, 'c) ProtocolError + unit) \<times> u8 list" where
  "encode_bulk_to_buf record buf =
     try_res (encode_bulk_header record) buf (\<lambda>header. (Inr (), buf @ header @ br_payload record))"

definition write_bulk_record where
  "write_bulk_record put flush record w =
     try_res (encode_bulk_header record) w (\<lambda>header.
       write_frame_parts put flush header (br_payload record) w)"

definition decode_bulk_body ::
  "u32 \<Rightarrow> u8 list \<Rightarrow> nat \<Rightarrow> ('i, 'c) ProtocolError + BulkRecord" where
  "decode_bulk_body fid body max_payload =
     (if max_payload = 0 \<or> max_payload > MAX_BULK_RECORD_PAYLOAD
      then Inl (InvalidBulkFrame (''invalid decoder payload limit '' @ show_nat max_payload))
      else if length body < BULK_HEADER_SIZE + 1
      then Inl (InvalidBulkFrame ''bulk record has no payload'')
      else if body ! 2 \<noteq> 0 \<or> body ! 3 \<noteq> 0
      then Inl (InvalidBulkFrame ''reserved bulk header bytes must be zero'')
      else case kind_from_wire (body ! 0) of
        None \<Rightarrow> Inl (InvalidBulkFrame (''unknown bulk kind '' @ show_nat (unat (body ! 0))))
      | Some kind \<Rightarrow>
          (case flow_from_wire (body ! 1) of
             None \<Rightarrow> Inl (InvalidBulkFrame (''unknown bulk flow '' @ show_nat (unat (body ! 1))))
           | Some flow \<Rightarrow>
               let offset = from_be (take 8 (drop 4 body));
                   payload = drop BULK_HEADER_SIZE body
               in if length payload > max_payload
                  then Inl (InvalidBulkFrame (''payload length '' @ show_nat (length payload)
                         @ '' exceeds negotiated maximum '' @ show_nat max_payload))
                  else if checked_add64 offset (length payload) = None
                  then Inl (InvalidBulkFrame ''record end offset overflows u64'')
                  else Inr \<lparr>br_id = fid, br_kind = kind, br_flow = flow, br_offset = offset,
                            br_payload = payload\<rparr>))"

definition raw_frame_to_bulk :: "RawFrame \<Rightarrow> nat \<Rightarrow> ('i, 'c) ProtocolError + BulkRecord" where
  "raw_frame_to_bulk frame max_payload =
     (if rf_flags frame \<noteq> FLAG_BULK then Inl (InvalidBulkFrame ''bulk flag must be set exclusively'')
      else decode_bulk_body (rf_id frame) (rf_body frame) max_payload)"

section \<open>Self-delimiting encodings\<close>

text \<open>The interface of a stream codec: an encoded item is decoded from the front of a buffer and
  removed from it whatever follows, and a proper prefix of an encoded item is left alone.\<close>

locale byte_codec =
  fixes enc :: "'a \<Rightarrow> u8 list option"
    and dec :: "u8 list \<Rightarrow> ('e + 'a option) \<times> u8 list"
  assumes dec_enc: "enc a = Some bs \<Longrightarrow> dec (bs @ rest) = (Inr (Some a), rest)"
    and dec_prefix: "enc a = Some bs \<Longrightarrow> k < length bs \<Longrightarrow> dec (take k bs) = (Inr None, take k bs)"
    and dec_nil: "dec [] = (Inr None, [])"
begin

lemma enc_inj:
  assumes "enc a = Some bs" and "enc b = Some bs"
  shows "a = b"
  using dec_enc [OF assms(1), of "[]"] dec_enc [OF assms(2), of "[]"] by simp

lemma enc_nonempty: "enc a = Some bs \<Longrightarrow> bs \<noteq> []"
  using dec_enc [of a bs "[]"] dec_nil by auto

end

text \<open>The reading loop of a stream client: decode until the buffer holds no further whole item.\<close>

fun drain :: "(u8 list \<Rightarrow> ('e + 'a option) \<times> u8 list) \<Rightarrow> nat \<Rightarrow> u8 list \<Rightarrow> 'a list \<times> u8 list" where
  "drain dec 0 buf = ([], buf)"
| "drain dec (Suc n) buf =
     (case dec buf of
        (Inr (Some a), rest) \<Rightarrow> (let (xs, r) = drain dec n rest in (a # xs, r))
      | (_, rest) \<Rightarrow> ([], rest))"

context byte_codec
begin

text \<open>However a stream of encoded items is cut, the loop recovers exactly the whole items and keeps
  the cut one for later.\<close>

lemma drain_items:
  assumes "\<And>x. x \<in> set xs \<Longrightarrow> enc x \<noteq> None" and "dec tail = (Inr None, tail)"
  shows "length xs < n \<Longrightarrow> drain dec n (concat (map (\<lambda>x. the (enc x)) xs) @ tail) = (xs, tail)"
  using assms(1)
proof (induction xs arbitrary: n)
  case Nil
  then show ?case using assms(2) by (cases n) simp_all
next
  case (Cons x xs)
  obtain bs where "enc x = Some bs" using Cons.prems(2) [of x] by auto
  then have d: "dec (bs @ rest) = (Inr (Some x), rest)" and e: "the (enc x) = bs" for rest
    by (simp_all add: dec_enc)
  obtain m where n: "n = Suc m" using Cons.prems(1) by (cases n) auto
  have "drain dec m (concat (map (\<lambda>x. the (enc x)) xs) @ tail) = (xs, tail)"
    using Cons n by simp
  then show ?case using d e by (simp add: n)
qed

lemma drain_cut:
  assumes "\<And>x. x \<in> set xs \<Longrightarrow> enc x \<noteq> None" and "enc y = Some bs" and "k < length bs"
  shows "drain dec (Suc (length xs)) (concat (map (\<lambda>x. the (enc x)) xs) @ take k bs) = (xs, take k bs)"
  by (rule drain_items) (use assms dec_prefix in auto)

end

subsection \<open>Raw frames\<close>

definition raw_bytes :: "RawFrame \<Rightarrow> u8 list option" where
  "raw_bytes frame =
     (case encode_raw_to_buf frame [] :: ((unit, unit) ProtocolError + unit) \<times> u8 list of
        (Inr _, bs) \<Rightarrow> Some bs | (Inl _, bs) \<Rightarrow> None)"

definition frame_fits :: "RawFrame \<Rightarrow> bool" where
  "frame_fits frame \<longleftrightarrow> FRAME_HEADER_SIZE + length (rf_body frame) \<le> MAX_FRAME_SIZE"

lemma raw_frame_len_eq:
  "raw_frame_len frame = Inr n \<longleftrightarrow> frame_fits frame \<and> n = FRAME_HEADER_SIZE + length (rf_body frame)"
  by (auto simp: raw_frame_len_def frame_fits_def Let_def codec_consts)

lemma encode_raw_ok:
  "frame_fits frame \<Longrightarrow> encode_raw_to_buf frame buf =
     (Inr (), buf @ be_bytes 4 (FRAME_HEADER_SIZE + length (rf_body frame)) @ be_bytes 4 (unat (rf_id frame))
        @ [rf_flags frame] @ rf_body frame)"
  unfolding encode_raw_to_buf_def
  using raw_frame_len_eq [of frame "FRAME_HEADER_SIZE + length (rf_body frame)"]
  by (metis (no_types, lifting) try_res_simps(2))

lemma encode_raw_too_large:
  "\<not> frame_fits frame \<Longrightarrow> \<exists>size. encode_raw_to_buf frame buf = (Inl (FrameTooLarge size MAX_FRAME_SIZE), buf)"
  by (auto simp: encode_raw_to_buf_def raw_frame_len_def frame_fits_def Let_def codec_consts)

lemma raw_bytes_Some:
  "raw_bytes frame = Some bs \<longleftrightarrow> frame_fits frame \<and>
     bs = be_bytes 4 (FRAME_HEADER_SIZE + length (rf_body frame)) @ be_bytes 4 (unat (rf_id frame))
        @ [rf_flags frame] @ rf_body frame"
proof (cases "frame_fits frame")
  case True
  then show ?thesis by (auto simp: raw_bytes_def encode_raw_ok)
next
  case False
  then obtain size where "encode_raw_to_buf frame [] =
      (Inl (FrameTooLarge size MAX_FRAME_SIZE) :: (unit, unit) ProtocolError + unit, [])"
    using encode_raw_too_large by blast
  then show ?thesis using False by (simp add: raw_bytes_def)
qed

lemma frame_len_prefix:
  assumes "n \<le> MAX_FRAME_SIZE"
  shows "from_be (be_bytes 4 n) = n"
  using assms by (intro from_be_be_bytes) (simp add: codec_consts)

lemma u32_be: "of_nat (from_be (be_bytes 4 (unat (x :: u32)))) = x"
proof -
  have "unat x < 256 ^ 4" using unsigned_less [of x] by simp
  then show ?thesis by (simp add: from_be_be_bytes)
qed

lemma decode_raw_encoded:
  assumes "raw_bytes frame = Some bs"
  shows "try_decode_raw_from_buf (bs @ rest) = (Inr (Some frame), rest)"
proof -
  let ?n = "FRAME_HEADER_SIZE + length (rf_body frame)"
  have fit: "?n \<le> MAX_FRAME_SIZE"
    and bs: "bs = be_bytes 4 ?n @ be_bytes 4 (unat (rf_id frame)) @ [rf_flags frame] @ rf_body frame"
    using assms by (auto simp: raw_bytes_Some frame_fits_def)
  have "(be_bytes 4 ?n @ be_bytes 4 (unat (rf_id frame)) @ rf_flags frame # rf_body frame @ rest) ! 8 = rf_flags frame"
    by (simp add: nth_append)
  then show ?thesis
    unfolding try_decode_raw_from_buf_def bs
    using fit by (simp add: frame_len_prefix [OF fit] u32_be Let_def) (simp add: FRAME_HEADER_SIZE_def)
qed

lemma decode_raw_prefix:
  assumes "raw_bytes frame = Some bs" and "k < length bs"
  shows "try_decode_raw_from_buf (take k bs) = (Inr None, take k bs)"
proof (cases "k < 4")
  case True
  then show ?thesis by (simp add: try_decode_raw_from_buf_def min_less_iff_disj)
next
  case False
  let ?n = "FRAME_HEADER_SIZE + length (rf_body frame)"
  have fit: "?n \<le> MAX_FRAME_SIZE"
    and bs: "bs = be_bytes 4 ?n @ be_bytes 4 (unat (rf_id frame)) @ [rf_flags frame] @ rf_body frame"
    using assms(1) by (auto simp: raw_bytes_Some frame_fits_def)
  have "take 4 (take k bs) = be_bytes 4 ?n" using False by (simp add: bs min_def)
  moreover have "length bs = 4 + ?n" by (simp add: bs FRAME_HEADER_SIZE_def)
  ultimately show ?thesis
    using assms(2) False fit by (simp add: try_decode_raw_from_buf_def frame_len_prefix [OF fit] Let_def)
qed

lemma decode_raw_nil: "try_decode_raw_from_buf [] = (Inr None, [])"
  by (simp add: try_decode_raw_from_buf_def)

interpretation raw: byte_codec raw_bytes
  "try_decode_raw_from_buf :: u8 list \<Rightarrow> (('i, 'c) ProtocolError + RawFrame option) \<times> u8 list"
  by unfold_locales
    (simp_all add: decode_raw_encoded decode_raw_prefix decode_raw_nil)

lemma decode_raw_sound:
  assumes "try_decode_raw_from_buf buf = (Inr (Some frame), rest)"
  shows "raw_bytes frame = Some (take (length buf - length rest) buf)" and "buf = take (length buf - length rest) buf @ rest"
proof -
  let ?n = "from_be (take 4 buf)"
  have len: "4 \<le> length buf" and fit: "?n \<le> MAX_FRAME_SIZE" and tot: "4 + ?n \<le> length buf"
    and hdr: "FRAME_HEADER_SIZE \<le> ?n" and rest: "rest = drop (4 + ?n) buf"
    and f: "frame = \<lparr>rf_id = of_nat (from_be (take 4 (drop 4 buf))), rf_flags = buf ! 8,
        rf_body = drop (4 + FRAME_HEADER_SIZE) (take (4 + ?n) buf)\<rparr>"
    using assms by (auto simp: try_decode_raw_from_buf_def Let_def split: if_splits)
  show "buf = take (length buf - length rest) buf @ rest" using tot by (simp add: rest)
  have b: "length (rf_body frame) = ?n - FRAME_HEADER_SIZE" using tot hdr by (simp add: f)
  have t4: "be_bytes 4 ?n = take 4 buf" using len by (intro be_bytes_from_be) simp
  have "from_be (take 4 (drop 4 buf)) < 256 ^ length (take 4 (drop 4 buf))" by (rule from_be_bound)
  moreover have l4: "length (take 4 (drop 4 buf)) = 4" using tot hdr by (simp add: FRAME_HEADER_SIZE_def)
  ultimately have "unat (rf_id frame) = from_be (take 4 (drop 4 buf))" by (simp add: f unat_of_nat)
  then have id4: "be_bytes 4 (unat (rf_id frame)) = take 4 (drop 4 buf)"
    using l4 by (simp add: be_bytes_from_be)
  have "take (4 + ?n) buf = take 4 buf @ take 4 (drop 4 buf) @ [buf ! 8] @ drop 9 (take (4 + ?n) buf)"
  proof -
    have "take (4 + ?n) buf = take 9 (take (4 + ?n) buf) @ drop 9 (take (4 + ?n) buf)"
      by (rule append_take_drop_id [symmetric])
    also have "take 9 (take (4 + ?n) buf) = take 9 buf" using hdr by (simp add: FRAME_HEADER_SIZE_def min_def)
    also have "take 9 buf = take 4 buf @ take 4 (drop 4 buf) @ [buf ! 8]"
      using tot hdr
      by (simp add: FRAME_HEADER_SIZE_def take_Suc_conv_app_nth [of 8 buf, simplified] flip: take_add)
    finally show ?thesis by simp
  qed
  then show "raw_bytes frame = Some (take (length buf - length rest) buf)"
    using fit hdr b tot t4 id4
    by (simp add: raw_bytes_Some frame_fits_def rest f FRAME_HEADER_SIZE_def)
qed

subsection \<open>The reader\<close>

lemma read_raw_frame_iff:
  "read_raw_frame eof input = (Inr frame :: ('i, 'c) ProtocolError + RawFrame, rest) \<longleftrightarrow>
     (try_decode_raw_from_buf input :: (('i, 'c) ProtocolError + RawFrame option) \<times> u8 list) =
       (Inr (Some frame), rest)"
proof -
  let ?n = "from_be (take 4 input)"
  have body: "take (?n - 5) (drop 5 (drop 4 input)) = drop 9 (take (4 + ?n) input)"
    if "5 \<le> ?n" using that by (simp add: drop_take)
  show ?thesis
  proof (cases "4 \<le> length input \<and> ?n \<le> MAX_FRAME_SIZE \<and> 5 \<le> ?n \<and> 4 + ?n \<le> length input")
    case True
    then have "take 5 (drop 4 input) ! 4 = input ! 8" and "\<not> length input - 4 < 5"
      and "\<not> length input - 9 < ?n - 5" by auto
    with True body show ?thesis
      by (simp add: read_raw_frame_def read_exact_def try_decode_raw_from_buf_def Let_def FRAME_HEADER_SIZE_def)
  next
    case False
    then show ?thesis
      by (auto simp: read_raw_frame_def read_exact_def try_decode_raw_from_buf_def Let_def FRAME_HEADER_SIZE_def)
  qed
qed

subsection \<open>The gathering writer\<close>

text \<open>What a writer promises: it takes a prefix of the bytes it is offered, reports its length, and
  takes nothing when it fails.\<close>

definition honest_writer ::
  "('w \<Rightarrow> u8 list) \<Rightarrow> ('w \<Rightarrow> u8 list list \<Rightarrow> ('i + nat) \<times> 'w) \<Rightarrow> bool" where
  "honest_writer taken put \<longleftrightarrow>
     (\<forall>w slices. case put w slices of
        (Inr n, w') \<Rightarrow> n \<le> length (concat slices) \<and> taken w' = taken w @ take n (concat slices)
      | (Inl e, w') \<Rightarrow> taken w' = taken w)"

definition sends_all :: "('w \<Rightarrow> u8 list) \<Rightarrow> u8 list \<Rightarrow> 'w \<Rightarrow> ('e + unit) \<times> 'w \<Rightarrow> bool" where
  "sends_all taken bytes w result \<longleftrightarrow>
     (\<exists>sent unsent. bytes = sent @ unsent \<and> taken (snd result) = taken w @ sent \<and>
        (fst result = Inr () \<longrightarrow> unsent = []))"

lemma sends_all_step:
  assumes "sends_all taken (drop n bytes) w' result" and "taken w' = taken w @ take n bytes"
  shows "sends_all taken bytes w result"
proof -
  obtain sent unsent where s: "drop n bytes = sent @ unsent" "taken (snd result) = taken w' @ sent"
      "fst result = Inr () \<longrightarrow> unsent = []"
    using assms(1) by (auto simp: sends_all_def)
  have "bytes = (take n bytes @ sent) @ unsent" using s(1) by (metis append.assoc append_take_drop_id)
  then show ?thesis using s assms(2) by (auto simp: sends_all_def)
qed

lemma vectored_loop_spec:
  assumes "honest_writer taken put"
    and "ho \<le> length header" and "bo \<le> length body" and "ho < length header \<Longrightarrow> bo = 0"
  shows "sends_all taken (drop ho header @ drop bo body) w (vectored_loop put header body ho bo w)"
  using assms
proof (induction put header body ho bo w rule: vectored_loop.induct)
  case (1 put header body ho bo w)
  let ?R = "drop ho header @ drop bo body" and ?hr = "length header - ho"
  show ?case
  proof (cases "ho < length header \<or> bo < length body")
    case False
    then show ?thesis using "1.prems" by (simp add: vectored_loop.simps sends_all_def)
  next
    case True
    define slices where "slices = (if ho < length header then (if bo < length body
        then [drop ho header, drop bo body] else [drop ho header]) else [drop bo body])"
    have cs: "concat slices = ?R" using "1.prems"(2,3) by (auto simp: slices_def)
    obtain r w' where wr: "put w slices = (r, w')" by (cases "put w slices")
    have hw: "case (r, w') of (Inr n, w') \<Rightarrow> n \<le> length ?R \<and> taken w' = taken w @ take n ?R
        | (Inl e, w') \<Rightarrow> taken w' = taken w"
      using "1.prems"(1) [unfolded honest_writer_def, rule_format, of w slices] by (simp only: wr cs)
    have unf: "vectored_loop put header body ho bo w =
        (case r of Inl e \<Rightarrow> (Inl (WriteFailed e), w')
         | Inr n \<Rightarrow> if n = 0 then (Inl WriteZero, w')
             else if n < ?hr then vectored_loop put header body (ho + n) bo w'
             else vectored_loop put header body (length header) (bo + (n - ?hr)) w')"
      using True wr by (subst vectored_loop.simps) (cases r; simp add: slices_def Let_def)
    show ?thesis
    proof (cases r)
      case (Inl e)
      then show ?thesis using hw by (simp add: unf sends_all_def)
    next
      case (Inr n)
      have taken: "taken w' = taken w @ take n ?R" 
        and "n \<le> length ?R" using hw Inr by simp_all
      then have taken_le: "n \<le> (length header - ho) + (length body - bo)" by simp
      consider (zero) "n = 0" | (head) "n \<noteq> 0" "n < ?hr" | (past) "n \<noteq> 0" "\<not> n < ?hr" by blast
      then show ?thesis
      proof cases
        case zero
        then show ?thesis using hw Inr by (simp add: unf sends_all_def)
      next
        case head
        have a: "sends_all taken (drop (ho + n) header @ drop bo body) w' (vectored_loop put header body (ho + n) bo w')"
          using "1.IH"(1) [OF _ slices_def wr [symmetric] refl Inr head(1) refl head(2)] "1.prems" True head
          by simp
        have b: "drop (ho + n) header @ drop bo body = drop n ?R"
          using head by (simp add: add.commute)
        have c: "vectored_loop put header body ho bo w = vectored_loop put header body (ho + n) bo w'"
          using unf Inr head by simp
        show ?thesis unfolding c by (rule sends_all_step [OF a [unfolded b] taken])
      next
        case past
        have "bo + (n - ?hr) \<le> length body" 
          using taken_le "1.prems"(2,3) past by linarith
        then have a: "sends_all taken (drop (bo + (n - ?hr)) body) w'
            (vectored_loop put header body (length header) (bo + (n - ?hr)) w')"
          using "1.IH"(2) [OF _ slices_def wr [symmetric] refl Inr past(1) refl past(2)] "1.prems" True past
          by simp
        have b: "drop (bo + (n - ?hr)) body = drop n ?R"
          using past by (simp add: add.commute)
        have c: "vectored_loop put header body ho bo w =
            vectored_loop put header body (length header) (bo + (n - ?hr)) w'"
          using unf Inr past by simp
        show ?thesis unfolding c by (rule sends_all_step [OF a [unfolded b] taken])
      qed
    qed
  qed
qed

subsection \<open>Bulk records\<close>

definition record_fits :: "BulkRecord \<Rightarrow> bool" where
  "record_fits record \<longleftrightarrow> br_payload record \<noteq> [] \<and> length (br_payload record) \<le> MAX_BULK_RECORD_PAYLOAD \<and>
     br_offset record + length (br_payload record) < two64"

definition bulk_body :: "BulkRecord \<Rightarrow> u8 list" where
  "bulk_body record = [kind_byte (br_kind record), flow_byte (br_flow record), 0, 0]
     @ be_bytes 8 (br_offset record) @ br_payload record"

text \<open>The raw frame a record travels in.\<close>

definition bulk_frame :: "BulkRecord \<Rightarrow> RawFrame" where
  "bulk_frame record = \<lparr>rf_id = br_id record, rf_flags = FLAG_BULK, rf_body = bulk_body record\<rparr>"

lemma length_bulk_body: "length (bulk_body record) = BULK_HEADER_SIZE + length (br_payload record)"
  by (simp add: bulk_body_def BULK_HEADER_SIZE_def)

lemma bulk_frame_fits: "record_fits record \<Longrightarrow> frame_fits (bulk_frame record)"
  by (simp add: record_fits_def frame_fits_def bulk_frame_def length_bulk_body codec_consts)

lemma encode_bulk_ok:
  assumes "record_fits record"
  shows "encode_bulk_to_buf record buf = (Inr (), buf @ the (raw_bytes (bulk_frame record)))"
proof -
  have "raw_bytes (bulk_frame record) = Some (be_bytes 4 (FRAME_HEADER_SIZE + length (bulk_body record))
      @ be_bytes 4 (unat (br_id record)) @ [FLAG_BULK] @ bulk_body record)"
    using bulk_frame_fits [OF assms] by (simp add: raw_bytes_Some bulk_frame_def)
  then show ?thesis
    using assms
    by (simp add: encode_bulk_to_buf_def encode_bulk_header_def record_fits_def Let_def length_bulk_body
        bulk_body_def codec_consts)
qed

lemma encode_bulk_refuses:
  assumes "\<not> record_fits record"
  shows "\<exists>e. encode_bulk_to_buf record buf = (Inl (InvalidBulkFrame e), buf)"
  using assms
  by (auto simp: encode_bulk_to_buf_def encode_bulk_header_def record_fits_def Let_def)

lemma kind_from_wire_byte [simp]: "kind_from_wire (kind_byte k) = Some k"
  by (cases k) (simp_all add: kind_from_wire_def)

lemma flow_from_wire_byte [simp]: "flow_from_wire (flow_byte f) = Some f"
  by (cases f) (simp_all add: flow_from_wire_def)

lemma kind_from_wire_Some: "kind_from_wire b = Some k \<longleftrightarrow> b = kind_byte k"
  by (cases k) (auto simp: kind_from_wire_def)

lemma flow_from_wire_Some: "flow_from_wire b = Some f \<longleftrightarrow> b = flow_byte f"
  by (cases f) (auto simp: flow_from_wire_def)

lemma decode_bulk_body_encoded:
  assumes "record_fits record" and "length (br_payload record) \<le> max_payload"
    and "max_payload \<le> MAX_BULK_RECORD_PAYLOAD"
  shows "decode_bulk_body (br_id record) (bulk_body record) max_payload = Inr record"
proof -
  have off: "br_offset record < 256 ^ 8" using assms(1) by (simp add: record_fits_def)
  have pos: "max_payload \<noteq> 0" using assms(1,2) by (cases "br_payload record") (auto simp: record_fits_def)
  have "\<not> length (bulk_body record) < BULK_HEADER_SIZE + 1"
    using assms(1) by (cases "br_payload record") (auto simp: length_bulk_body record_fits_def)
  moreover have "drop BULK_HEADER_SIZE (bulk_body record) = br_payload record"
    by (simp add: bulk_body_def BULK_HEADER_SIZE_def)
  moreover have "take 8 (drop 4 (bulk_body record)) = be_bytes 8 (br_offset record)"
    by (simp add: bulk_body_def)
  moreover have "bulk_body record ! 0 = kind_byte (br_kind record)" "bulk_body record ! 1 = flow_byte (br_flow record)"
    "bulk_body record ! 2 = 0" "bulk_body record ! 3 = 0" by (simp_all add: bulk_body_def)
  ultimately show ?thesis
    using assms pos from_be_be_bytes [OF off]
    by (simp add: decode_bulk_body_def record_fits_def Let_def)
qed

lemma decode_bulk_body_sound:
  assumes "decode_bulk_body fid body max_payload = Inr record"
  shows "br_id record = fid" and "body = bulk_body record" and "record_fits record"
    and "length (br_payload record) \<le> max_payload"
proof -
  have len: "BULK_HEADER_SIZE + 1 \<le> length body" and m: "max_payload \<le> MAX_BULK_RECORD_PAYLOAD"
    and z: "body ! 2 = 0" "body ! 3 = 0"
    and k: "body ! 0 = kind_byte (br_kind record)" and f: "body ! 1 = flow_byte (br_flow record)"
    and off: "br_offset record = from_be (take 8 (drop 4 body))"
    and pay: "br_payload record = drop BULK_HEADER_SIZE body" and le: "length (br_payload record) \<le> max_payload"
    and sum: "br_offset record + length (br_payload record) < two64" and i: "br_id record = fid"
    using assms
    by (auto simp: decode_bulk_body_def Let_def kind_from_wire_Some flow_from_wire_Some
        split: if_splits option.splits)
  show "br_id record = fid" "length (br_payload record) \<le> max_payload" by (rule i, rule le)
  show "record_fits record" using len m le sum pay by (auto simp: record_fits_def)
  have l: "12 < length body" using len by (simp add: BULK_HEADER_SIZE_def)
  have "be_bytes 8 (br_offset record) = take 8 (drop 4 body)"
    unfolding off using l by (intro be_bytes_from_be) simp
  moreover have "take 4 body = [body ! 0, body ! 1, body ! 2, body ! 3]"
    using l by (simp add: list_eq_iff_nth_eq less_Suc_eq numeral_eq_Suc)
  moreover have "body = take 4 body @ take 8 (drop 4 body) @ drop 12 body"
    using append_take_drop_id [of 4 body] append_take_drop_id [of 8 "drop 4 body"] by simp
  ultimately show "body = bulk_body record"
    using k f z pay by (simp add: bulk_body_def BULK_HEADER_SIZE_def)
qed

lemma raw_bytes_encode:
  "frame_fits f \<Longrightarrow>
     raw_bytes f = Some (snd (encode_raw_to_buf f [] :: (('i, 'c) ProtocolError + unit) \<times> u8 list))"
  by (simp add: raw_bytes_Some encode_raw_ok)

section \<open>Properties\<close>

text \<open>C27. Framing survives any chunking of the stream: for every sequence of raw frames within the
  size limit, followed by any proper prefix of a further frame, decoding until no whole frame is
  left yields exactly the frames sent, in order, and keeps the cut frame's bytes.\<close>

theorem raw_stream_decodes:
  assumes "\<And>f. f \<in> set fs \<Longrightarrow> frame_fits f" and "frame_fits g" and "k < 9 + length (rf_body g)"
  shows "drain try_decode_raw_from_buf (Suc (length fs))
      (concat (map (\<lambda>f. snd (encode_raw_to_buf f [] :: (('i, 'c) ProtocolError + unit) \<times> u8 list)) fs)
       @ take k (snd (encode_raw_to_buf g [] :: (('i, 'c) ProtocolError + unit) \<times> u8 list))) =
    (fs, take k (snd (encode_raw_to_buf g [] :: (('i, 'c) ProtocolError + unit) \<times> u8 list)))"
proof -
  let ?enc = "\<lambda>f. snd (encode_raw_to_buf f [] :: (('i, 'c) ProtocolError + unit) \<times> u8 list)"
  have k: "k < length (?enc g)" using assms(2,3) by (simp add: encode_raw_ok)
  have m: "map ?enc fs = map (\<lambda>f. the (raw_bytes f)) fs"
    using assms(1) by (simp add: raw_bytes_encode [where 'i = 'i and 'c = 'c])
  have "raw_bytes f \<noteq> None" if "f \<in> set fs" for f
    using raw_bytes_encode [OF assms(1) [OF that], where 'i = unit and 'c = unit] by simp
  then show ?thesis
    unfolding m by (rule raw.drain_cut [OF _ raw_bytes_encode [OF assms(2)] k])
qed

theorem raw_stream_decodes_witness:
  "drain (try_decode_raw_from_buf :: u8 list \<Rightarrow> ((unit, unit) ProtocolError + RawFrame option) \<times> u8 list) (Suc (Suc 0))
     ([0, 0, 0, 7, 0, 0, 0, 7, 1, 1, 2] @ [0, 0, 0, 5, 0, 0]) =
   ([\<lparr>rf_id = 7, rf_flags = 1, rf_body = [1, 2]\<rparr>], [0, 0, 0, 5, 0, 0])"
  using raw_stream_decodes [of "[\<lparr>rf_id = 7, rf_flags = 1, rf_body = [1, 2]\<rparr>]"
      "\<lparr>rf_id = 8, rf_flags = 0, rf_body = []\<rparr>" 6, where 'i = unit and 'c = unit]
  by (simp add: frame_fits_def encode_raw_ok codec_consts be_bytes_numeral del: drain.simps)

text \<open>C28. The decoder accepts nothing the encoder would not produce, and it is the inverse of the
  encoder: whenever it returns a frame, the bytes it removed are exactly the encoding of that
  frame; otherwise the buffer is left as it was. The blocking reader accepts the same frames.\<close>

theorem decode_raw_exact:
  "(case try_decode_raw_from_buf buf :: (('i, 'c) ProtocolError + RawFrame option) \<times> u8 list of
      (Inr (Some frame), rest) \<Rightarrow>
        encode_raw_to_buf frame [] = (Inr () :: ('i, 'c) ProtocolError + unit, take (length buf - length rest) buf) \<and>
        buf = take (length buf - length rest) buf @ rest \<and>
        read_raw_frame eof buf = (Inr frame :: ('i, 'c) ProtocolError + RawFrame, rest)
    | (_, rest) \<Rightarrow> rest = buf \<and> (\<forall>frame. fst (read_raw_frame eof buf) \<noteq> (Inr frame :: ('i, 'c) ProtocolError + RawFrame)))"
proof -
  obtain r rest where d: "try_decode_raw_from_buf buf = (r :: ('i, 'c) ProtocolError + RawFrame option, rest)"
    by (cases "try_decode_raw_from_buf buf :: (('i, 'c) ProtocolError + RawFrame option) \<times> u8 list")
  show ?thesis
  proof (cases "\<exists>frame. r = Inr (Some frame)")
    case True
    then obtain frame where r: "r = Inr (Some frame)" by blast
    note s = decode_raw_sound [OF d [unfolded r]]
    from s(1) have "encode_raw_to_buf frame [] = (Inr () :: ('i, 'c) ProtocolError + unit, take (length buf - length rest) buf)"
      by (simp add: raw_bytes_Some encode_raw_ok)
    then show ?thesis
      using s(2) d r read_raw_frame_iff [of eof buf frame rest, where 'c = 'c] by simp
  next
    case False
    then have "rest = buf"
      using d by (auto simp: try_decode_raw_from_buf_def Let_def split: if_splits)
    moreover have "fst (read_raw_frame eof buf) \<noteq> (Inr frame :: ('i, 'c) ProtocolError + RawFrame)" for frame
      using d False read_raw_frame_iff [of eof buf frame _, where 'c = 'c]
      by (cases "read_raw_frame eof buf :: (('i, 'c) ProtocolError + RawFrame) \<times> u8 list") auto
    ultimately show ?thesis using False d by (auto split: sum.splits option.splits)
  qed
qed

theorem decode_raw_exact_witness:
  "read_raw_frame () [0, 0, 0, 6, 0, 0, 0, 9, 1, 77] =
     (Inr \<lparr>rf_id = 9, rf_flags = 1, rf_body = [77]\<rparr> :: (unit, unit) ProtocolError + RawFrame, [])"
proof -
  have "try_decode_raw_from_buf [0, 0, 0, 6, 0, 0, 0, 9, 1, 77] =
      (Inr (Some \<lparr>rf_id = 9, rf_flags = 1, rf_body = [77]\<rparr>) :: (unit, unit) ProtocolError + RawFrame option, [])"
    by (simp add: try_decode_raw_from_buf_def from_be_def codec_consts)
  then show ?thesis
    using decode_raw_exact [of "[0, 0, 0, 6, 0, 0, 0, 9, 1, 77]", where 'c = unit and eof = "()"]
    by simp
qed

text \<open>C29. Bulk records round trip, and only well-formed ones travel: a record with a non-empty
  payload within the limit and an end offset below two to the 64 is encoded as one raw frame that
  decodes to that record, any other is refused without a byte written, and whatever the decoder
  accepts is well formed, within the negotiated maximum, and re-encodes to the same body.\<close>

theorem bulk_record_round_trip:
  "(if record_fits record
    then (\<exists>frame. encode_bulk_to_buf record [] = (encode_raw_to_buf frame [] :: (('i, 'c) ProtocolError + unit) \<times> u8 list) \<and>
            frame_fits frame \<and>
            raw_frame_to_bulk frame MAX_BULK_RECORD_PAYLOAD =
              (Inr record :: ('i, 'c) ProtocolError + BulkRecord))
    else \<exists>e. encode_bulk_to_buf record buf = (Inl (InvalidBulkFrame e) :: ('i, 'c) ProtocolError + unit, buf)) \<and>
   (raw_frame_to_bulk fr max_payload = (Inr rec :: ('i, 'c) ProtocolError + BulkRecord) \<longrightarrow>
      record_fits rec \<and> length (br_payload rec) \<le> max_payload \<and>
      rf_id fr = br_id rec \<and> rf_flags fr = FLAG_BULK \<and> rf_body fr = bulk_body rec)"
proof (intro conjI impI)
  show "if record_fits record
    then (\<exists>frame. encode_bulk_to_buf record [] = (encode_raw_to_buf frame [] :: (('i, 'c) ProtocolError + unit) \<times> u8 list) \<and>
            frame_fits frame \<and>
            raw_frame_to_bulk frame MAX_BULK_RECORD_PAYLOAD = (Inr record :: ('i, 'c) ProtocolError + BulkRecord))
    else \<exists>e. encode_bulk_to_buf record buf = (Inl (InvalidBulkFrame e) :: ('i, 'c) ProtocolError + unit, buf)"
  proof (cases "record_fits record")
    case True
    have "encode_bulk_to_buf record [] = encode_raw_to_buf (bulk_frame record) []"
      using bulk_frame_fits [OF True] raw_bytes_Some [of "bulk_frame record"]
      by (simp add: encode_bulk_ok [OF True] encode_raw_ok) (metis option.sel)
    moreover have "raw_frame_to_bulk (bulk_frame record) MAX_BULK_RECORD_PAYLOAD = Inr record"
      using True decode_bulk_body_encoded [OF True, of MAX_BULK_RECORD_PAYLOAD]
      by (simp add: raw_frame_to_bulk_def bulk_frame_def record_fits_def)
    ultimately show ?thesis using True bulk_frame_fits [OF True] by auto
  qed (use encode_bulk_refuses in simp)
next
  assume "raw_frame_to_bulk fr max_payload = (Inr rec :: ('i, 'c) ProtocolError + BulkRecord)"
  then have f: "rf_flags fr = FLAG_BULK"
    and d: "decode_bulk_body (rf_id fr) (rf_body fr) max_payload = (Inr rec :: ('i, 'c) ProtocolError + BulkRecord)"
    by (auto simp: raw_frame_to_bulk_def split: if_splits)
  show "record_fits rec" "length (br_payload rec) \<le> max_payload" "rf_id fr = br_id rec"
    "rf_flags fr = FLAG_BULK" "rf_body fr = bulk_body rec"
    using f decode_bulk_body_sound [OF d] by simp_all
qed

theorem bulk_record_round_trip_witness:
  "\<exists>frame. encode_bulk_to_buf \<lparr>br_id = 3, br_kind = TcpKind, br_flow = GuestToHost, br_offset = 10, br_payload = [5]\<rparr> []
      = (encode_raw_to_buf frame [] :: ((unit, unit) ProtocolError + unit) \<times> u8 list) \<and>
     raw_frame_to_bulk frame MAX_BULK_RECORD_PAYLOAD =
       (Inr \<lparr>br_id = 3, br_kind = TcpKind, br_flow = GuestToHost, br_offset = 10, br_payload = [5]\<rparr>
          :: (unit, unit) ProtocolError + BulkRecord)"
  using bulk_record_round_trip [of "\<lparr>br_id = 3, br_kind = TcpKind, br_flow = GuestToHost, br_offset = 10,
      br_payload = [5]\<rparr>", where 'i = unit and 'c = unit, THEN conjunct1]
  by (auto simp: record_fits_def codec_consts)

text \<open>C30. Writers put the whole frame on the wire, in order and once: with any writer that reports
  honestly how much it took, however little at a time, a successful write of a raw frame or a bulk
  record has appended exactly its encoding, and a failed one at most a prefix of it; a frame over
  the limit leaves the writer untouched.\<close>

theorem writers_put_whole_frames:
  assumes "honest_writer taken put" and "\<And>w. taken (snd (flush w)) = taken w"
  shows "(frame_fits frame \<longrightarrow>
            sends_all taken (snd (encode_raw_to_buf frame [] :: (('i write_error, 'c) ProtocolError + unit) \<times> u8 list)) w
              (write_raw_frame put flush frame w :: (('i write_error, 'c) ProtocolError + unit) \<times> 'w)) \<and>
         (\<not> frame_fits frame \<longrightarrow>
            snd (write_raw_frame put flush frame w :: (('i write_error, 'c) ProtocolError + unit) \<times> 'w) = w) \<and>
         (record_fits record \<longrightarrow>
            sends_all taken (snd (encode_bulk_to_buf record [] :: (('i write_error, 'c) ProtocolError + unit) \<times> u8 list)) w
              (write_bulk_record put flush record w :: (('i write_error, 'c) ProtocolError + unit) \<times> 'w))"
proof -
  let ?W = "\<lambda>h b. write_frame_parts put flush h b w :: (('i write_error, 'c) ProtocolError + unit) \<times> 'w"
  have parts: "sends_all taken (header @ body) w (?W header body)" for header body
  proof -
    obtain r w1 where v: "write_vectored_all put header body w = (r, w1)"
      by (cases "write_vectored_all put header body w")
    obtain f w2 where f: "flush w1 = (f, w2)" by (cases "flush w1")
    have t: "taken w2 = taken w1" using assms(2) [of w1] f by simp
    have "sends_all taken (header @ body) w (r, w1)"
      using vectored_loop_spec [OF assms(1), of 0 header 0 body w] v by (simp add: write_vectored_all_def)
    then show ?thesis
      using t by (cases r; cases f) (simp_all add: write_frame_parts_def v f sends_all_def)
  qed
  let ?n = "FRAME_HEADER_SIZE + length (rf_body frame)"
  have "write_raw_frame put flush frame w =
      ?W (be_bytes 4 ?n @ be_bytes 4 (unat (rf_id frame)) @ [rf_flags frame]) (rf_body frame)" if "frame_fits frame"
    using that raw_frame_len_eq [of frame ?n] unfolding write_raw_frame_def by (metis (no_types, lifting) try_res_simps(2))
  moreover have "snd (write_raw_frame put flush frame w :: (('i write_error, 'c) ProtocolError + unit) \<times> 'w) = w"
    if "\<not> frame_fits frame"
    using that by (simp add: write_raw_frame_def raw_frame_len_def frame_fits_def Let_def codec_consts)
  moreover have "\<exists>h. write_bulk_record put flush record w = ?W h (br_payload record) \<and>
      snd (encode_bulk_to_buf record [] :: (('i write_error, 'c) ProtocolError + unit) \<times> u8 list) = h @ br_payload record"
    if fits: "record_fits record"
  proof -
    obtain h where "encode_bulk_header record = (Inr h :: ('i write_error, 'c) ProtocolError + u8 list)"
      using fits by (auto simp: encode_bulk_header_def record_fits_def Let_def codec_consts)
    then show ?thesis by (auto simp: write_bulk_record_def encode_bulk_to_buf_def)
  qed
  ultimately show ?thesis
    using parts [of "be_bytes 4 ?n @ be_bytes 4 (unat (rf_id frame)) @ [rf_flags frame]" "rf_body frame"] parts
    by (auto simp: encode_raw_ok)
qed

text \<open>A writer that takes one byte at a time.\<close>

definition one_byte_put :: "u8 list \<Rightarrow> u8 list list \<Rightarrow> (unit + nat) \<times> u8 list" where
  "one_byte_put w slices = (Inr (min 1 (length (concat slices))), w @ take 1 (concat slices))"

theorem writers_put_whole_frames_witness:
  "sends_all (\<lambda>w. w) [0, 0, 0, 6, 0, 0, 0, 9, 1, 77] []
     (write_raw_frame one_byte_put (\<lambda>w. (Inr (), w)) \<lparr>rf_id = 9, rf_flags = 1, rf_body = [77]\<rparr> []
        :: ((unit write_error, unit) ProtocolError + unit) \<times> u8 list)"
proof -
  have "honest_writer (\<lambda>w. w) one_byte_put"
    by (simp add: honest_writer_def one_byte_put_def min_def)
  moreover have "frame_fits \<lparr>rf_id = 9, rf_flags = 1, rf_body = [77]\<rparr>" by (simp add: frame_fits_def codec_consts)
  ultimately show ?thesis
    using writers_put_whole_frames [of "\<lambda>w. w" one_byte_put "\<lambda>w. (Inr (), w)"
        "\<lparr>rf_id = 9, rf_flags = 1, rf_body = [77]\<rparr>" "[]", where 'c = unit]
    by (simp add: encode_raw_ok be_bytes_numeral FRAME_HEADER_SIZE_def)
qed

end
