(* ===== verification/Wire_Message.thy ===== *)
theory Wire_Message
  imports Wire_Codec
begin

text \<open>
  \<^verbatim>\<open>crates/protocol/lib/message.rs\<close> and the typed half of \<^verbatim>\<open>codec.rs\<close>: message types with their
  wire names, frame flags and protocol generations, the message envelope, and the codec that reads
  control messages and bulk records from one stream. The CBOR form of the envelope is that of the
  external crate \<^verbatim>\<open>ciborium\<close>: \<open>into_writer\<close> and \<open>from_reader\<close>, arguments of the definitions.
\<close>

section \<open>Message types\<close>

datatype MessageType =
    Ready | InitResolved | InitAck | Shutdown | RelayClientDisconnected | ClockSync | Ping | Pong
    | Touch | Touched | WorkloadFreeze | WorkloadFrozen | WorkloadThaw | WorkloadThawed
    | WorkloadTransportCredit | RootDiskPrepare | RootDiskGrow | RootDiskState | CoreError
    | BulkAccepted | BulkCredit | BulkFinish | BulkCancel | ExecRequest | ExecStarted | ExecStdin
    | ExecStdinError | ExecStdout | ExecStderr | ExecExited | ExecFailed | ExecResize | ExecSignal
    | ExecOutputAck | ExecStdinAck | FsRequest | FsResponse | FsData | TcpConnect | TcpConnected
    | TcpData | TcpEof | TcpClose | TcpClosed | TcpFailed | Bootstrap | PortEvent
    | LoopbackForward | LoopbackForwardCancel | LoopbackForwardResp

definition PROTOCOL_VERSION :: nat where "PROTOCOL_VERSION = 11"

primrec as_wire_str :: "MessageType \<Rightarrow> string" where
  "as_wire_str Ready = ''core.ready''"
| "as_wire_str InitResolved = ''core.init.resolved''"
| "as_wire_str InitAck = ''core.init.ack''"
| "as_wire_str Shutdown = ''core.shutdown''"
| "as_wire_str RelayClientDisconnected = ''core.relay.client.disconnected''"
| "as_wire_str ClockSync = ''core.clock.sync''"
| "as_wire_str Ping = ''core.ping''"
| "as_wire_str Pong = ''core.pong''"
| "as_wire_str Touch = ''core.touch''"
| "as_wire_str Touched = ''core.touched''"
| "as_wire_str WorkloadFreeze = ''core.workload.freeze''"
| "as_wire_str WorkloadFrozen = ''core.workload.frozen''"
| "as_wire_str WorkloadThaw = ''core.workload.thaw''"
| "as_wire_str WorkloadThawed = ''core.workload.thawed''"
| "as_wire_str WorkloadTransportCredit = ''core.workload.transport.credit''"
| "as_wire_str RootDiskPrepare = ''core.root_disk.prepare''"
| "as_wire_str RootDiskGrow = ''core.root_disk.grow''"
| "as_wire_str RootDiskState = ''core.root_disk.state''"
| "as_wire_str CoreError = ''core.error''"
| "as_wire_str BulkAccepted = ''core.bulk.accepted''"
| "as_wire_str BulkCredit = ''core.bulk.credit''"
| "as_wire_str BulkFinish = ''core.bulk.finish''"
| "as_wire_str BulkCancel = ''core.bulk.cancel''"
| "as_wire_str ExecRequest = ''core.exec.request''"
| "as_wire_str ExecStarted = ''core.exec.started''"
| "as_wire_str ExecStdin = ''core.exec.stdin''"
| "as_wire_str ExecStdinError = ''core.exec.stdin.error''"
| "as_wire_str ExecStdout = ''core.exec.stdout''"
| "as_wire_str ExecStderr = ''core.exec.stderr''"
| "as_wire_str ExecExited = ''core.exec.exited''"
| "as_wire_str ExecFailed = ''core.exec.failed''"
| "as_wire_str ExecResize = ''core.exec.resize''"
| "as_wire_str ExecSignal = ''core.exec.signal''"
| "as_wire_str ExecOutputAck = ''core.exec.output.ack''"
| "as_wire_str ExecStdinAck = ''core.exec.stdin.ack''"
| "as_wire_str FsRequest = ''core.fs.request''"
| "as_wire_str FsResponse = ''core.fs.response''"
| "as_wire_str FsData = ''core.fs.data''"
| "as_wire_str TcpConnect = ''core.tcp.connect''"
| "as_wire_str TcpConnected = ''core.tcp.connected''"
| "as_wire_str TcpData = ''core.tcp.data''"
| "as_wire_str TcpEof = ''core.tcp.eof''"
| "as_wire_str TcpClose = ''core.tcp.close''"
| "as_wire_str TcpClosed = ''core.tcp.closed''"
| "as_wire_str TcpFailed = ''core.tcp.failed''"
| "as_wire_str Bootstrap = ''core.bootstrap''"
| "as_wire_str PortEvent = ''core.port.event''"
| "as_wire_str LoopbackForward = ''core.loopback.forward''"
| "as_wire_str LoopbackForwardCancel = ''core.loopback.forward.cancel''"
| "as_wire_str LoopbackForwardResp = ''core.loopback.forward.resp''"

text \<open>The parser derived from the same attributes: a match on the wire strings.\<close>

definition from_wire_str :: "string \<Rightarrow> MessageType option" where
  "from_wire_str s = map_of
    [(''core.ready'', Ready),
     (''core.init.resolved'', InitResolved),
     (''core.init.ack'', InitAck),
     (''core.shutdown'', Shutdown),
     (''core.relay.client.disconnected'', RelayClientDisconnected),
     (''core.clock.sync'', ClockSync),
     (''core.ping'', Ping),
     (''core.pong'', Pong),
     (''core.touch'', Touch),
     (''core.touched'', Touched),
     (''core.workload.freeze'', WorkloadFreeze),
     (''core.workload.frozen'', WorkloadFrozen),
     (''core.workload.thaw'', WorkloadThaw),
     (''core.workload.thawed'', WorkloadThawed),
     (''core.workload.transport.credit'', WorkloadTransportCredit),
     (''core.root_disk.prepare'', RootDiskPrepare),
     (''core.root_disk.grow'', RootDiskGrow),
     (''core.root_disk.state'', RootDiskState),
     (''core.error'', CoreError),
     (''core.bulk.accepted'', BulkAccepted),
     (''core.bulk.credit'', BulkCredit),
     (''core.bulk.finish'', BulkFinish),
     (''core.bulk.cancel'', BulkCancel),
     (''core.exec.request'', ExecRequest),
     (''core.exec.started'', ExecStarted),
     (''core.exec.stdin'', ExecStdin),
     (''core.exec.stdin.error'', ExecStdinError),
     (''core.exec.stdout'', ExecStdout),
     (''core.exec.stderr'', ExecStderr),
     (''core.exec.exited'', ExecExited),
     (''core.exec.failed'', ExecFailed),
     (''core.exec.resize'', ExecResize),
     (''core.exec.signal'', ExecSignal),
     (''core.exec.output.ack'', ExecOutputAck),
     (''core.exec.stdin.ack'', ExecStdinAck),
     (''core.fs.request'', FsRequest),
     (''core.fs.response'', FsResponse),
     (''core.fs.data'', FsData),
     (''core.tcp.connect'', TcpConnect),
     (''core.tcp.connected'', TcpConnected),
     (''core.tcp.data'', TcpData),
     (''core.tcp.eof'', TcpEof),
     (''core.tcp.close'', TcpClose),
     (''core.tcp.closed'', TcpClosed),
     (''core.tcp.failed'', TcpFailed),
     (''core.bootstrap'', Bootstrap),
     (''core.port.event'', PortEvent),
     (''core.loopback.forward'', LoopbackForward),
     (''core.loopback.forward.cancel'', LoopbackForwardCancel),
     (''core.loopback.forward.resp'', LoopbackForwardResp)] s"

definition is_exec_control :: "MessageType \<Rightarrow> bool" where
  "is_exec_control t \<longleftrightarrow> t \<in> set [ExecOutputAck, ExecStdinAck, ExecSignal, ExecResize]"

definition uses_workload_data_credit :: "MessageType \<Rightarrow> bool" where
  "uses_workload_data_credit t \<longleftrightarrow> t \<in> set [ExecStdin, FsData, TcpData, TcpEof]"

definition type_flags :: "MessageType \<Rightarrow> u8" where
  "type_flags t =
     (if t \<in> set [Pong, Touched, WorkloadFrozen, WorkloadThawed, RootDiskState, CoreError, ExecExited,
                   ExecFailed, FsResponse, TcpClosed, TcpFailed, LoopbackForwardResp]
      then FLAG_TERMINAL
      else if t \<in> set [ExecRequest, FsRequest, TcpConnect] then FLAG_SESSION_START
      else if t = Shutdown then FLAG_SHUTDOWN
      else 0)"

definition min_protocol_version :: "MessageType \<Rightarrow> nat" where
  "min_protocol_version t =
     (if t \<in> set [Ready, InitResolved, InitAck, Shutdown, RelayClientDisconnected, ClockSync, ExecRequest,
                   ExecStarted, ExecStdin, ExecStdinError, ExecStdout, ExecStderr, ExecExited, ExecFailed,
                   ExecResize, ExecSignal] then 1
      else if t \<in> set [ExecOutputAck, ExecStdinAck] then 10
      else if t \<in> set [FsRequest, FsResponse, FsData] then 2
      else if t = CoreError then 5
      else if t \<in> set [Ping, Pong, Touch, Touched] then 6
      else if t = Bootstrap then 7
      else if t \<in> set [PortEvent, LoopbackForward, LoopbackForwardCancel, LoopbackForwardResp] then 11
      else if t \<in> set [WorkloadFreeze, WorkloadFrozen, WorkloadThaw, WorkloadThawed, WorkloadTransportCredit] then 9
      else if t \<in> set [RootDiskPrepare, RootDiskGrow, RootDiskState] then 9
      else if t \<in> set [BulkAccepted, BulkCredit, BulkFinish, BulkCancel] then 8
      else 4)"

definition is_available_at :: "MessageType \<Rightarrow> nat \<Rightarrow> bool" where
  "is_available_at t peer_generation \<longleftrightarrow> min_protocol_version t \<le> peer_generation"

section \<open>Messages\<close>

record Message =
  msg_v :: nat
  msg_t :: MessageType
  msg_id :: u32
  msg_flags :: u8
  msg_p :: "u8 list"
  msg_maintenance :: bool

definition new_message :: "MessageType \<Rightarrow> u32 \<Rightarrow> u8 list \<Rightarrow> Message" where
  "new_message t i p =
     \<lparr>msg_v = PROTOCOL_VERSION, msg_t = t, msg_id = i, msg_flags = type_flags t, msg_p = p,
      msg_maintenance = False\<rparr>"

datatype DecodedFrame = Control Message | Bulk BulkRecord

record 'c cbor_api =
  into_writer :: "Message \<Rightarrow> 'c + u8 list"
  from_reader :: "u8 list \<Rightarrow> 'c + Message"

section \<open>The typed codec\<close>

definition encode_to_buf ::
  "'c cbor_api \<Rightarrow> Message \<Rightarrow> u8 list \<Rightarrow> (('i, 'c) ProtocolError + unit) \<times> u8 list" where
  "encode_to_buf cbor msg buf =
     (case into_writer cbor msg of
        Inl e \<Rightarrow> (Inl (CborEncode e), buf)
      | Inr body \<Rightarrow> encode_raw_to_buf \<lparr>rf_id = msg_id msg, rf_flags = msg_flags msg, rf_body = body\<rparr> buf)"

definition raw_frame_to_message :: "'c cbor_api \<Rightarrow> RawFrame \<Rightarrow> ('i, 'c) ProtocolError + Message" where
  "raw_frame_to_message cbor frame =
     (case from_reader cbor (rf_body frame) of
        Inl e \<Rightarrow> Inl (CborDecode e)
      | Inr msg \<Rightarrow> Inr (msg\<lparr>msg_id := rf_id frame, msg_flags := rf_flags frame\<rparr>))"

definition decode_message_frame :: "'c cbor_api \<Rightarrow> u8 list \<Rightarrow> ('i, 'c) ProtocolError + Message" where
  "decode_message_frame cbor frame =
     (if length frame < 4 then Inl UnexpectedEof
      else let frame_len = from_be (take 4 frame) in
        if frame_len > MAX_FRAME_SIZE then Inl (FrameTooLarge frame_len MAX_FRAME_SIZE)
        else let tot = 4 + frame_len in
          if length frame < tot then Inl UnexpectedEof
          else if frame_len < FRAME_HEADER_SIZE then Inl (FrameTooShort frame_len FRAME_HEADER_SIZE)
          else case from_reader cbor (drop (4 + FRAME_HEADER_SIZE) (take tot frame)) of
                 Inl e \<Rightarrow> Inl (CborDecode e)
               | Inr msg \<Rightarrow> Inr (msg\<lparr>msg_id := of_nat (from_be (take 4 (drop 4 frame))), msg_flags := frame ! 8\<rparr>))"

definition try_decode_from_buf ::
  "'c cbor_api \<Rightarrow> u8 list \<Rightarrow> (('i, 'c) ProtocolError + Message option) \<times> u8 list" where
  "try_decode_from_buf cbor buf =
     (if length buf < 4 then (Inr None, buf)
      else let frame_len = from_be (take 4 buf) in
        if frame_len > MAX_FRAME_SIZE then (Inl (FrameTooLarge frame_len MAX_FRAME_SIZE), buf)
        else let tot = 4 + frame_len in
          if length buf < tot then (Inr None, buf)
          else case decode_message_frame cbor (take tot buf) of
                 Inl e \<Rightarrow> (Inl e, buf)
               | Inr msg \<Rightarrow> (Inr (Some msg), drop tot buf))"

definition complete_frame_len :: "u8 list \<Rightarrow> ('i, 'c) ProtocolError + (nat \<times> nat) option" where
  "complete_frame_len buf =
     (if length buf < 4 then Inr None
      else let frame_len = from_be (take 4 buf) in
        if frame_len > MAX_FRAME_SIZE then Inl (FrameTooLarge frame_len MAX_FRAME_SIZE)
        else if frame_len < FRAME_HEADER_SIZE then Inl (FrameTooShort frame_len FRAME_HEADER_SIZE)
        else let tot = 4 + frame_len in
          if length buf < tot then Inr None else Inr (Some (frame_len, tot)))"

text \<open>A bulk frame leaves the buffer before its body is validated, a control frame only after it has
  been decoded.\<close>

definition try_decode_frame_from_bytes ::
  "'c cbor_api \<Rightarrow> u8 list \<Rightarrow> (('i, 'c) ProtocolError + DecodedFrame option) \<times> u8 list" where
  "try_decode_frame_from_bytes cbor buf =
     (case complete_frame_len buf of
        Inl e \<Rightarrow> (Inl e, buf)
      | Inr None \<Rightarrow> (Inr None, buf)
      | Inr (Some (frame_len, tot)) \<Rightarrow>
          let fl = buf ! 8 in
          if fl AND FLAG_BULK = 0
          then (case decode_message_frame cbor (take tot buf) of
                  Inl e \<Rightarrow> (Inl e, buf)
                | Inr msg \<Rightarrow> (Inr (Some (Control msg)), drop tot buf))
          else if fl \<noteq> FLAG_BULK
          then (Inl (InvalidBulkFrame ''bulk flag cannot be combined with control flags''), buf)
          else if frame_len < FRAME_HEADER_SIZE + BULK_HEADER_SIZE + 1
          then (Inl (InvalidBulkFrame ''bulk record has no payload''), buf)
          else let frame = take tot buf; rest = drop tot buf;
                   fid = of_nat (from_be (take 4 (drop 4 frame)));
                   body = drop (4 + FRAME_HEADER_SIZE) frame
               in case decode_bulk_body fid body MAX_BULK_RECORD_PAYLOAD of
                    Inl e \<Rightarrow> (Inl e, rest)
                  | Inr record \<Rightarrow> (Inr (Some (Bulk record)), rest))"

definition try_decode_from_bytes ::
  "'c cbor_api \<Rightarrow> u8 list \<Rightarrow> (('i, 'c) ProtocolError + Message option) \<times> u8 list" where
  "try_decode_from_bytes cbor buf =
     (case try_decode_frame_from_bytes cbor buf of
        (Inl e, rest) \<Rightarrow> (Inl e, rest)
      | (Inr (Some (Control message)), rest) \<Rightarrow> (Inr (Some message), rest)
      | (Inr (Some (Bulk _)), rest) \<Rightarrow>
          (Inl (InvalidBulkFrame ''raw bulk record passed to the control-message decoder''), rest)
      | (Inr None, rest) \<Rightarrow> (Inr None, rest))"

definition read_message ::
  "'c cbor_api \<Rightarrow> 'i \<Rightarrow> u8 list \<Rightarrow> (('i, 'c) ProtocolError + Message) \<times> u8 list" where
  "read_message cbor eof input =
     (case read_raw_frame eof input of
        (Inl e, rest) \<Rightarrow> (Inl e, rest)
      | (Inr frame, rest) \<Rightarrow> (raw_frame_to_message cbor frame, rest))"

definition write_message where
  "write_message cbor put flush message w =
     (case into_writer cbor message of
        Inl e \<Rightarrow> (Inl (CborEncode e), w)
      | Inr body \<Rightarrow>
          write_raw_frame put flush
            \<lparr>rf_id = msg_id message, rf_flags = msg_flags message, rf_body = body\<rparr> w)"

section \<open>Wire names, flags and generations\<close>

lemma from_wire_as_wire: "from_wire_str (as_wire_str t) = Some t"
  by (cases t) (simp_all add: from_wire_str_def)

lemma from_wire_Some: "from_wire_str s = Some t \<Longrightarrow> as_wire_str t = s"
  unfolding from_wire_str_def by (drule map_of_SomeD) auto

lemma type_flags_cases: "type_flags t \<in> {0, FLAG_TERMINAL, FLAG_SESSION_START, FLAG_SHUTDOWN}"
  by (simp add: type_flags_def)

lemma type_flags_not_bulk: "type_flags t AND FLAG_BULK = 0"
  using type_flags_cases [of t]
  by (auto simp: FLAG_TERMINAL_def FLAG_SESSION_START_def FLAG_SHUTDOWN_def FLAG_BULK_def)

section \<open>The typed codec as raw framing plus CBOR\<close>

text \<open>What the code relies on of the CBOR library: what it writes it reads back, up to the fields
  that are not part of the envelope.\<close>

definition cbor_ok :: "'c cbor_api \<Rightarrow> bool" where
  "cbor_ok cbor \<longleftrightarrow> (\<forall>msg body. into_writer cbor msg = Inr body \<longrightarrow>
     (\<exists>i f. from_reader cbor body = Inr (msg\<lparr>msg_id := i, msg_flags := f\<rparr>)))"

definition message_frame :: "'c cbor_api \<Rightarrow> Message \<Rightarrow> RawFrame option" where
  "message_frame cbor msg =
     (case into_writer cbor msg of
        Inl _ \<Rightarrow> None
      | Inr body \<Rightarrow>
          let frame = \<lparr>rf_id = msg_id msg, rf_flags = msg_flags msg, rf_body = body\<rparr>
          in if frame_fits frame then Some frame else None)"

lemma decode_message_raw:
  assumes "(try_decode_raw_from_buf buf :: (('i, 'c) ProtocolError + RawFrame option) \<times> u8 list) =
      (Inr (Some frame), rest)"
  shows "decode_message_frame cbor (take (4 + from_be (take 4 buf)) buf) =
      (raw_frame_to_message cbor frame :: ('i, 'c) ProtocolError + Message)"
proof -
  let ?n = "from_be (take 4 buf)"
  have len: "4 \<le> length buf" "?n \<le> MAX_FRAME_SIZE" "4 + ?n \<le> length buf" "FRAME_HEADER_SIZE \<le> ?n"
    and f: "frame = \<lparr>rf_id = of_nat (from_be (take 4 (drop 4 buf))), rf_flags = buf ! 8,
        rf_body = drop (4 + FRAME_HEADER_SIZE) (take (4 + ?n) buf)\<rparr>"
    using assms by (auto simp: try_decode_raw_from_buf_def Let_def split: if_splits)
  have t: "take 4 (take (4 + ?n) buf) = take 4 buf" by simp
  have d: "take 4 (drop 4 (take (4 + ?n) buf)) = take 4 (drop 4 buf)"
    using len(4) by (simp add: FRAME_HEADER_SIZE_def drop_take)
  have n8: "take (4 + ?n) buf ! 8 = buf ! 8" using len(4) by (simp add: FRAME_HEADER_SIZE_def)
  show ?thesis
    unfolding decode_message_frame_def raw_frame_to_message_def t d n8 f
    using len by (simp add: Let_def split: sum.split)
qed

lemma try_decode_from_buf_raw:
  "try_decode_from_buf cbor buf =
     (case try_decode_raw_from_buf buf :: (('i, 'c) ProtocolError + RawFrame option) \<times> u8 list of
        (Inl e, rest) \<Rightarrow> (Inl e, rest)
      | (Inr None, rest) \<Rightarrow> (Inr None, rest)
      | (Inr (Some frame), rest) \<Rightarrow>
          (case raw_frame_to_message cbor frame of
             Inl e \<Rightarrow> (Inl e, buf)
           | Inr msg \<Rightarrow> (Inr (Some msg), rest)))"
proof (cases "\<exists>frame rest. (try_decode_raw_from_buf buf :: (('i, 'c) ProtocolError + RawFrame option) \<times> u8 list) =
      (Inr (Some frame), rest)")
  case True
  then obtain frame rest where d: "(try_decode_raw_from_buf buf :: (('i, 'c) ProtocolError + RawFrame option) \<times> u8 list) =
      (Inr (Some frame), rest)" by blast
  then have "4 \<le> length buf" "from_be (take 4 buf) \<le> MAX_FRAME_SIZE" "4 + from_be (take 4 buf) \<le> length buf"
    "rest = drop (4 + from_be (take 4 buf)) buf"
    by (auto simp: try_decode_raw_from_buf_def Let_def split: if_splits)
  then show ?thesis
    using decode_message_raw [OF d, of cbor] by (simp add: d try_decode_from_buf_def Let_def)
next
  case False
  then show ?thesis
    by (auto simp: try_decode_from_buf_def try_decode_raw_from_buf_def decode_message_frame_def Let_def
        split: if_splits)
qed

lemma message_frame_decodes:
  assumes "cbor_ok cbor" and "message_frame cbor msg = Some frame"
  shows "raw_frame_to_message cbor frame = Inr msg"
proof -
  obtain body where w: "into_writer cbor msg = Inr body"
      and f: "frame = \<lparr>rf_id = msg_id msg, rf_flags = msg_flags msg, rf_body = body\<rparr>"
    using assms(2) by (auto simp: message_frame_def Let_def split: sum.splits if_splits)
  obtain i fl where "from_reader cbor body = Inr (msg\<lparr>msg_id := i, msg_flags := fl\<rparr>)"
    using assms(1) w unfolding cbor_ok_def by blast
  then show ?thesis by (simp add: raw_frame_to_message_def f)
qed

lemma encode_message_frame:
  "message_frame cbor msg = Some frame \<Longrightarrow>
     encode_to_buf cbor msg buf = encode_raw_to_buf frame buf \<and> frame_fits frame \<and>
     rf_flags frame = msg_flags msg"
  by (auto simp: message_frame_def encode_to_buf_def Let_def split: sum.splits if_splits)

lemma complete_frame_len_raw:
  assumes "(try_decode_raw_from_buf buf :: (('i, 'c) ProtocolError + RawFrame option) \<times> u8 list) =
      (Inr (Some frame), rest)"
  shows "(complete_frame_len buf :: ('i, 'c) ProtocolError + (nat \<times> nat) option) =
      Inr (Some (from_be (take 4 buf), 4 + from_be (take 4 buf)))"
    and "rf_flags frame = buf ! 8" and "rest = drop (4 + from_be (take 4 buf)) buf"
    and "of_nat (from_be (take 4 (drop 4 (take (4 + from_be (take 4 buf)) buf)))) = rf_id frame"
    and "drop (4 + FRAME_HEADER_SIZE) (take (4 + from_be (take 4 buf)) buf) = rf_body frame"
    and "length (rf_body frame) + FRAME_HEADER_SIZE = from_be (take 4 buf)"
proof -
  let ?n = "from_be (take 4 buf)"
  have len: "4 \<le> length buf" "?n \<le> MAX_FRAME_SIZE" "4 + ?n \<le> length buf" "FRAME_HEADER_SIZE \<le> ?n"
    and rest: "rest = drop (4 + ?n) buf"
    and f: "frame = \<lparr>rf_id = of_nat (from_be (take 4 (drop 4 buf))), rf_flags = buf ! 8,
        rf_body = drop (4 + FRAME_HEADER_SIZE) (take (4 + ?n) buf)\<rparr>"
    using assms by (auto simp: try_decode_raw_from_buf_def Let_def split: if_splits)
  show "(complete_frame_len buf :: ('i, 'c) ProtocolError + (nat \<times> nat) option) = Inr (Some (?n, 4 + ?n))"
    using len by (simp add: complete_frame_len_def Let_def)
  show "of_nat (from_be (take 4 (drop 4 (take (4 + ?n) buf)))) = rf_id frame"
    using len(4) by (simp add: f FRAME_HEADER_SIZE_def drop_take)
  show "length (rf_body frame) + FRAME_HEADER_SIZE = ?n" using len by (simp add: f)
  show "rf_flags frame = buf ! 8" and "rest = drop (4 + ?n) buf"
    and "drop (4 + FRAME_HEADER_SIZE) (take (4 + ?n) buf) = rf_body frame" by (simp_all add: f rest)
qed

text \<open>Decoding a typed frame, once the raw decoder finds a whole frame.\<close>

lemma decode_frame_raw:
  assumes "(try_decode_raw_from_buf buf :: (('i, 'c) ProtocolError + RawFrame option) \<times> u8 list) =
      (Inr (Some frame), rest)"
  shows "(try_decode_frame_from_bytes cbor buf :: (('i, 'c) ProtocolError + DecodedFrame option) \<times> u8 list) =
      (if rf_flags frame AND FLAG_BULK = 0
       then (case raw_frame_to_message cbor frame of
               Inl e \<Rightarrow> (Inl e, buf) | Inr msg \<Rightarrow> (Inr (Some (Control msg)), rest))
       else if rf_flags frame \<noteq> FLAG_BULK
       then (Inl (InvalidBulkFrame ''bulk flag cannot be combined with control flags''), buf)
       else if length (rf_body frame) < BULK_HEADER_SIZE + 1
       then (Inl (InvalidBulkFrame ''bulk record has no payload''), buf)
       else (case decode_bulk_body (rf_id frame) (rf_body frame) MAX_BULK_RECORD_PAYLOAD of
               Inl e \<Rightarrow> (Inl e, rest) | Inr record \<Rightarrow> (Inr (Some (Bulk record)), rest)))"
proof -
  note c = complete_frame_len_raw [OF assms]
  have less: "from_be (take 4 buf) < FRAME_HEADER_SIZE + BULK_HEADER_SIZE + 1 \<longleftrightarrow>
      length (rf_body frame) < BULK_HEADER_SIZE + 1" using c(6) by linarith
  show ?thesis
    unfolding try_decode_frame_from_bytes_def c(1) sum.case option.case prod.case Let_def
      decode_message_raw [OF assms] c(2) [symmetric] c(3) [symmetric] c(4) c(5) less ..
qed

lemma complete_frame_len_prefix:
  assumes "raw_bytes frame = Some bs" and "k < length bs"
  shows "complete_frame_len (take k bs) = Inr None"
proof (cases "k < 4")
  case True
  then have "length (take k bs) < 4" by simp
  then show ?thesis by (simp add: complete_frame_len_def del: length_take)
next
  case False
  let ?n = "FRAME_HEADER_SIZE + length (rf_body frame)"
  have fit: "?n \<le> MAX_FRAME_SIZE" and bs: "bs = be_bytes 4 ?n @ be_bytes 4 (unat (rf_id frame)) @ [rf_flags frame] @ rf_body frame"
    using assms(1) by (auto simp: raw_bytes_Some frame_fits_def)
  have "take 4 (take k bs) = be_bytes 4 ?n" using False by (simp add: bs min_def)
  moreover have "length bs = 4 + ?n" by (simp add: bs FRAME_HEADER_SIZE_def)
  ultimately show ?thesis
    using assms(2) False fit by (simp add: complete_frame_len_def frame_len_prefix [OF fit] Let_def)
qed

text \<open>What a connection carries: control messages whose flags leave the bulk bit clear, and bulk
  records.\<close>

definition typed_frame :: "'c cbor_api \<Rightarrow> DecodedFrame \<Rightarrow> RawFrame option" where
  "typed_frame cbor item =
     (case item of
        Control msg \<Rightarrow> if msg_flags msg AND FLAG_BULK = 0 then message_frame cbor msg else None
      | Bulk record \<Rightarrow> if record_fits record then Some (bulk_frame record) else None)"

definition typed_bytes :: "'c cbor_api \<Rightarrow> DecodedFrame \<Rightarrow> u8 list option" where
  "typed_bytes cbor item = Option.bind (typed_frame cbor item) raw_bytes"

definition encode_typed ::
  "'c cbor_api \<Rightarrow> DecodedFrame \<Rightarrow> u8 list \<Rightarrow> (('i, 'c) ProtocolError + unit) \<times> u8 list" where
  "encode_typed cbor item buf =
     (case item of Control msg \<Rightarrow> encode_to_buf cbor msg buf | Bulk record \<Rightarrow> encode_bulk_to_buf record buf)"

lemma typed_frame_fits: "typed_frame cbor item = Some frame \<Longrightarrow> frame_fits frame"
  by (auto simp: typed_frame_def bulk_frame_fits dest: encode_message_frame split: DecodedFrame.splits if_splits)

lemma encode_typed_ok:
  assumes "typed_frame cbor item = Some frame"
  shows "encode_typed cbor item buf = (Inr (), buf @ the (typed_bytes cbor item))"
proof (cases item)
  case (Control msg)
  then have "message_frame cbor msg = Some frame" using assms by (simp add: typed_frame_def split: if_splits)
  note e = encode_message_frame [OF this, THEN conjunct1]
  show ?thesis
    using assms typed_frame_fits [OF assms]
    by (simp add: encode_typed_def Control e encode_raw_ok typed_bytes_def raw_bytes_encode [where 'i = unit and 'c = unit])
next
  case (Bulk rcd)
  then show ?thesis
    using assms by (auto simp: encode_typed_def encode_bulk_ok typed_bytes_def typed_frame_def split: if_splits)
qed

lemma decode_typed:
  assumes "cbor_ok cbor" and "typed_bytes cbor item = Some bs"
  shows "try_decode_frame_from_bytes cbor (bs @ rest) = (Inr (Some item), rest)"
proof -
  obtain frame where f: "typed_frame cbor item = Some frame" and b: "raw_bytes frame = Some bs"
    using assms(2) by (auto simp: typed_bytes_def bind_eq_Some_conv)
  note d = decode_frame_raw [OF raw.dec_enc [OF b], of cbor rest]
  show ?thesis
  proof (cases item)
    case (Control msg)
    then have m: "message_frame cbor msg = Some frame" and fl: "msg_flags msg AND FLAG_BULK = 0"
      using f by (simp_all add: typed_frame_def split: if_splits)
    have "rf_flags frame = msg_flags msg" using encode_message_frame [OF m] by blast
    then show ?thesis unfolding d using fl by (simp add: Control message_frame_decodes [OF assms(1) m])
  next
    case (Bulk rcd)
    then have r: "record_fits rcd" and fr: "frame = bulk_frame rcd"
      using f by (simp_all add: typed_frame_def split: if_splits)
    have "\<not> length (bulk_body rcd) < BULK_HEADER_SIZE + 1"
      using r by (cases "br_payload rcd") (auto simp: length_bulk_body record_fits_def)
    moreover have "FLAG_BULK AND FLAG_BULK \<noteq> 0" by (simp add: FLAG_BULK_def)
    moreover have "length (br_payload rcd) \<le> MAX_BULK_RECORD_PAYLOAD" using r by (simp add: record_fits_def)
    ultimately show ?thesis unfolding d by (simp add: fr bulk_frame_def Bulk decode_bulk_body_encoded [OF r])
  qed
qed

lemma typed_codec:
  assumes "cbor_ok cbor"
  shows "byte_codec (typed_bytes cbor)
    (try_decode_frame_from_bytes cbor :: u8 list \<Rightarrow> (('i, 'c) ProtocolError + DecodedFrame option) \<times> u8 list)"
proof
  fix item bs and rest :: "u8 list"
  assume b: "typed_bytes cbor item = Some bs"
  then show "try_decode_frame_from_bytes cbor (bs @ rest) = (Inr (Some item), rest)"
    by (rule decode_typed [OF assms])
  fix k
  assume k: "k < length bs"
  obtain frame where r: "raw_bytes frame = Some bs" using b by (auto simp: typed_bytes_def bind_eq_Some_conv)
  show "try_decode_frame_from_bytes cbor (take k bs) = (Inr None, take k bs)"
    by (simp add: try_decode_frame_from_bytes_def complete_frame_len_prefix [OF r k])
next
  show "try_decode_frame_from_bytes cbor [] = (Inr None, [])"
    by (simp add: try_decode_frame_from_bytes_def complete_frame_len_def)
qed

text \<open>A codec that fits the assumption: the message type as one byte, then the payload.\<close>

definition type_table :: "MessageType list" where
  "type_table = [ExecRequest, ExecStarted, ExecStdin, ExecExited]"

definition demo_cbor :: "unit cbor_api" where
  "demo_cbor = \<lparr>into_writer = (\<lambda>m. case find (\<lambda>i. type_table ! i = msg_t m) [0..<4] of
        Some i \<Rightarrow> if msg_v m < 256 then Inr (of_nat i # of_nat (msg_v m) # of_bool (msg_maintenance m) # msg_p m) else Inl ()
      | None \<Rightarrow> Inl ()),
     from_reader = (\<lambda>bs. case bs of
        i # v # mt # p \<Rightarrow> if i < 4 then Inr \<lparr>msg_v = unat v, msg_t = type_table ! unat i, msg_id = 0, msg_flags = 0,
             msg_p = p, msg_maintenance = (mt = 1)\<rparr> else Inl ()
      | _ \<Rightarrow> Inl ())\<rparr>"

lemma demo_cbor_ok: "cbor_ok demo_cbor"
proof -
  have "\<exists>i f. from_reader demo_cbor body = Inr (msg\<lparr>msg_id := i, msg_flags := f\<rparr>)"
    if w: "into_writer demo_cbor msg = Inr body" for msg body
  proof -
    obtain k where k: "find (\<lambda>i. type_table ! i = msg_t msg) [0..<4] = Some k"
        and v: "msg_v msg < 256"
        and b: "body = of_nat k # of_nat (msg_v msg) # of_bool (msg_maintenance msg) # msg_p msg"
      using w by (auto simp: demo_cbor_def split: option.splits if_splits)
    have t: "type_table ! k = msg_t msg" "k < 4" using k by (auto simp: find_Some_iff)
    have "unat (of_nat k :: u8) = k" "unat (of_nat (msg_v msg) :: u8) = msg_v msg" "(of_nat k :: u8) < 4"
      using t(2) v by (simp_all add: unat_of_nat word_less_nat_alt)
    then have "from_reader demo_cbor body = Inr (msg\<lparr>msg_id := 0, msg_flags := 0\<rparr>)"
      using t by (cases msg) (simp add: demo_cbor_def b)
    then show ?thesis by blast
  qed
  then show ?thesis by (simp add: cbor_ok_def)
qed

section \<open>Properties\<close>

text \<open>C31. A connection that mixes control messages and bulk records loses nothing: for every sequence
  of items that fit their limits, followed by any proper prefix of a further item, the incremental
  decoder yields exactly the items sent, in order, and keeps the bytes of the cut one. This holds
  for every CBOR codec that reads back the envelope fields it writes.\<close>

theorem typed_stream_decodes:
  assumes "cbor_ok cbor"
    and "\<And>x. x \<in> set xs \<Longrightarrow> typed_frame cbor x \<noteq> None"
    and "typed_frame cbor y \<noteq> None"
    and "k < length (snd (encode_typed cbor y [] :: (('i, 'c) ProtocolError + unit) \<times> u8 list))"
  shows "drain (try_decode_frame_from_bytes cbor :: u8 list \<Rightarrow> (('i, 'c) ProtocolError + DecodedFrame option) \<times> u8 list)
      (Suc (length xs))
      (concat (map (\<lambda>x. snd (encode_typed cbor x [] :: (('i, 'c) ProtocolError + unit) \<times> u8 list)) xs)
       @ take k (snd (encode_typed cbor y [] :: (('i, 'c) ProtocolError + unit) \<times> u8 list))) =
    (xs, take k (snd (encode_typed cbor y [] :: (('i, 'c) ProtocolError + unit) \<times> u8 list)))"
proof -
  let ?enc = "\<lambda>x. snd (encode_typed cbor x [] :: (('i, 'c) ProtocolError + unit) \<times> u8 list)"
  have e: "?enc x = the (typed_bytes cbor x)" "typed_bytes cbor x \<noteq> None" if t: "typed_frame cbor x \<noteq> None" for x
  proof -
    obtain frame where f: "typed_frame cbor x = Some frame" using t by blast
    then show "?enc x = the (typed_bytes cbor x)" by (simp add: encode_typed_ok)
    show "typed_bytes cbor x \<noteq> None"
      using f raw_bytes_encode [OF typed_frame_fits [OF f], where 'i = unit and 'c = unit] by (simp add: typed_bytes_def)
  qed
  have m: "map ?enc xs = map (\<lambda>x. the (typed_bytes cbor x)) xs"
    using assms(2) e(1) by (auto intro: map_cong)
  obtain bs where b: "typed_bytes cbor y = Some bs" using e(2) [OF assms(3)] by blast
  then have y: "?enc y = bs" using e(1) [OF assms(3)] by simp
  show ?thesis
    unfolding m y
    by (rule byte_codec.drain_cut [OF typed_codec [OF assms(1)] _ b]) (use assms(2,4) e(2) y in auto)
qed

definition demo_record :: BulkRecord where
  "demo_record = \<lparr>br_id = 7, br_kind = TcpKind, br_flow = GuestToHost, br_offset = 0, br_payload = [66, 67]\<rparr>"

lemma demo_frames:
  "typed_frame demo_cbor (Control (new_message ExecRequest 7 [65])) =
     Some \<lparr>rf_id = 7, rf_flags = 2, rf_body = [0, 11, 0, 65]\<rparr>"
  "typed_frame demo_cbor (Control (new_message ExecExited 7 [])) =
     Some \<lparr>rf_id = 7, rf_flags = 1, rf_body = [3, 11, 0]\<rparr>"
  "typed_frame demo_cbor (Bulk demo_record) = Some (bulk_frame demo_record)"
  by (simp_all add: typed_frame_def new_message_def type_flags_def message_frame_def demo_cbor_def type_table_def upt_rec
      PROTOCOL_VERSION_def frame_fits_def record_fits_def demo_record_def codec_consts Let_def
      FLAG_TERMINAL_def FLAG_SESSION_START_def FLAG_BULK_def)

theorem typed_stream_decodes_witness:
  "drain (try_decode_frame_from_bytes demo_cbor ::
        u8 list \<Rightarrow> ((unit, unit) ProtocolError + DecodedFrame option) \<times> u8 list) (Suc (Suc (Suc 0)))
     ([0, 0, 0, 9, 0, 0, 0, 7, 2, 0, 11, 0, 65]
      @ [0, 0, 0, 19, 0, 0, 0, 7, 8, 2, 2, 0, 0, 0, 0, 0, 0, 0, 0, 0, 0, 66, 67] @ [0, 0, 0, 8, 0, 0]) =
   ([Control (new_message ExecRequest 7 [65]), Bulk demo_record], [0, 0, 0, 8, 0, 0])"
proof -
  have e: "snd (encode_typed demo_cbor (Control (new_message ExecRequest 7 [65])) [] ::
        ((unit, unit) ProtocolError + unit) \<times> u8 list) = [0, 0, 0, 9, 0, 0, 0, 7, 2, 0, 11, 0, 65]"
    "snd (encode_typed demo_cbor (Control (new_message ExecExited 7 [])) [] ::
        ((unit, unit) ProtocolError + unit) \<times> u8 list) = [0, 0, 0, 8, 0, 0, 0, 7, 1, 3, 11, 0]"
    by (simp_all add: encode_typed_ok demo_frames typed_bytes_def raw_bytes_encode [where 'i = unit and 'c = unit]
        encode_raw_ok frame_fits_def codec_consts be_bytes_numeral)
  have b: "snd (encode_typed demo_cbor (Bulk demo_record) [] :: ((unit, unit) ProtocolError + unit) \<times> u8 list) =
      [0, 0, 0, 19, 0, 0, 0, 7, 8, 2, 2, 0, 0, 0, 0, 0, 0, 0, 0, 0, 0, 66, 67]"
    unfolding encode_typed_ok [OF demo_frames(3)] typed_bytes_def demo_frames(3) bulk_frame_def bulk_body_def
    unfolding demo_record_def
    by (simp add: raw_bytes_encode [where 'i = unit and 'c = unit] encode_raw_ok frame_fits_def codec_consts be_bytes_numeral
        FLAG_BULK_def)
  have "\<And>x. x \<in> set [Control (new_message ExecRequest 7 [65]), Bulk demo_record] \<Longrightarrow> typed_frame demo_cbor x \<noteq> None"
    by (auto simp: demo_frames)
  from typed_stream_decodes [of demo_cbor "[Control (new_message ExecRequest 7 [65]), Bulk demo_record]"
      "Control (new_message ExecExited 7 [])" 6, where 'i = unit, OF demo_cbor_ok this]
  show ?thesis by (simp add: e b demo_frames del: drain.simps)
qed

text \<open>C32. The control decoders differ only in buffering: the incremental decoder accepts exactly the
  frames the raw decoder finds whose body the CBOR codec reads and leaves the buffer alone in every
  other case, errors included, and the blocking reader returns a message exactly when the
  incremental one does, with the same bytes left over.\<close>

theorem control_decoders_agree:
  "(try_decode_from_buf cbor buf :: (('i, 'c) ProtocolError + Message option) \<times> u8 list) =
     (case try_decode_raw_from_buf buf of
        (Inl e, _) \<Rightarrow> (Inl e, buf)
      | (Inr None, _) \<Rightarrow> (Inr None, buf)
      | (Inr (Some frame), rest) \<Rightarrow>
          (case raw_frame_to_message cbor frame of
             Inl e \<Rightarrow> (Inl e, buf) | Inr msg \<Rightarrow> (Inr (Some msg), rest))) \<and>
   (try_decode_from_buf cbor buf = (Inr (Some msg) :: ('i, 'c) ProtocolError + Message option, rest) \<longleftrightarrow>
      read_message cbor eof buf = (Inr msg :: ('i, 'c) ProtocolError + Message, rest))"
proof -
  let ?d = "try_decode_raw_from_buf buf :: (('i, 'c) ProtocolError + RawFrame option) \<times> u8 list"
  have keep: "snd ?d = buf" if "\<nexists>frame. fst ?d = Inr (Some frame)"
    using that by (auto simp: try_decode_raw_from_buf_def Let_def split: if_splits)
  have one: "(try_decode_from_buf cbor buf :: (('i, 'c) ProtocolError + Message option) \<times> u8 list) =
     (case ?d of
        (Inl e, _) \<Rightarrow> (Inl e, buf)
      | (Inr None, _) \<Rightarrow> (Inr None, buf)
      | (Inr (Some frame), rest) \<Rightarrow>
          (case raw_frame_to_message cbor frame of
             Inl e \<Rightarrow> (Inl e, buf) | Inr msg \<Rightarrow> (Inr (Some msg), rest)))"
    unfolding try_decode_from_buf_raw using keep by (auto split: prod.split sum.split option.split)
  have "try_decode_from_buf cbor buf = (Inr (Some msg) :: ('i, 'c) ProtocolError + Message option, rest) \<longleftrightarrow>
      (\<exists>frame. ?d = (Inr (Some frame), rest) \<and>
        raw_frame_to_message cbor frame = (Inr msg :: ('i, 'c) ProtocolError + Message))"
    unfolding one by (auto split: prod.split sum.split option.split)
  also have "\<dots> \<longleftrightarrow> read_message cbor eof buf = (Inr msg :: ('i, 'c) ProtocolError + Message, rest)"
    unfolding read_raw_frame_iff [of eof buf _ rest, symmetric]
    by (auto simp: read_message_def split: prod.split sum.split)
  finally show ?thesis using one by simp
qed

text \<open>Wire names identify message types, every type is available at the current protocol
  generation and none before the first, and no message the constructor builds carries the bulk
  flag, so it is never mistaken for a bulk record.\<close>

theorem message_types_well_formed:
  "(from_wire_str s = Some t \<longleftrightarrow> s = as_wire_str t) \<and>
   is_available_at t PROTOCOL_VERSION \<and> \<not> is_available_at t 0 \<and>
   msg_flags (new_message t i p) AND FLAG_BULK = 0"
  using from_wire_as_wire [of t] from_wire_Some [of s t]
  by (auto simp: is_available_at_def min_protocol_version_def PROTOCOL_VERSION_def new_message_def type_flags_not_bulk)

end
