(* ===== verification/Bulk_Flow.thy ===== *)
theory Bulk_Flow
  imports Wire_Codec
begin

text \<open>
  \<^verbatim>\<open>crates/protocol/lib/bulk.rs\<close>: negotiation of a bulk correlation and the credit-based flow
  control of its two endpoints. A method that changes its receiver returns its result together
  with the state it leaves, so that what survives an error is visible. The last sections put a
  sender and a receiver at the two ends of ordered channels and study the runs of that system.
\<close>

section \<open>Constants and types\<close>

definition BULK_PROTOCOL_VERSION :: u8 where "BULK_PROTOCOL_VERSION = 8"
definition BULK_FORMAT_RAW_V1 :: u8 where "BULK_FORMAT_RAW_V1 = 1"
definition DEFAULT_BULK_RECORD_PAYLOAD :: nat where "DEFAULT_BULK_RECORD_PAYLOAD = 256 * 1024"
definition DEFAULT_FILESYSTEM_BULK_RECORD_PAYLOAD :: nat where
  "DEFAULT_FILESYSTEM_BULK_RECORD_PAYLOAD = 3 * 1024 * 1024"
definition DEFAULT_BULK_WINDOW :: u64 where "DEFAULT_BULK_WINDOW = 8 * 1024 * 1024"
definition MAX_BULK_WINDOW :: u64 where "MAX_BULK_WINDOW = 32 * 1024 * 1024"
definition BULK_FLOW_MASK_HOST_TO_GUEST :: u8 where "BULK_FLOW_MASK_HOST_TO_GUEST = 0b01"
definition BULK_FLOW_MASK_GUEST_TO_HOST :: u8 where "BULK_FLOW_MASK_GUEST_TO_HOST = 0b10"

record BulkOffer =
  bo_format :: u8
  bo_max_record_payload :: nat
  bo_guest_to_host_credit_limit :: u64

record BulkAccepted =
  ba_kind :: BulkKind
  ba_flows :: u8
  ba_format :: u8
  ba_max_record_payload :: nat
  ba_host_to_guest_credit_limit :: u64
  ba_guest_to_host_credit_limit :: u64

record BulkCredit =
  bc_kind :: BulkKind
  bc_flow :: BulkFlow
  bc_consumed_offset :: u64
  bc_credit_limit :: u64

record BulkFinish =
  bf_kind :: BulkKind
  bf_flow :: BulkFlow
  bf_final_offset :: u64

datatype BulkCancelReason = CallerCancelled | DestinationIo | ResourceLimit | TransportFailure | ProtocolState

record BulkCancel =
  bx_kind :: BulkKind
  bx_reason :: BulkCancelReason
  bx_message :: string

record BulkSendState =
  ss_kind :: BulkKind
  ss_flow :: BulkFlow
  ss_max_record_payload :: nat
  ss_next_offset :: u64
  ss_consumed_offset :: u64
  ss_credit_limit :: u64
  ss_finished :: bool

record BulkReceiveState =
  rs_kind :: BulkKind
  rs_flow :: BulkFlow
  rs_max_record_payload :: nat
  rs_window :: u64
  rs_next_expected_offset :: u64
  rs_consumed_offset :: u64
  rs_credit_limit :: u64
  rs_finished :: bool

datatype BulkStateError =
    UnsupportedFormat u8
  | InvalidRecordLimit nat
  | InvalidPayloadLength nat nat
  | FlowMismatch
  | OffsetOverflow
  | CreditExceeded u64 u64
  | InvalidCredit string
  | OffsetMismatch u64 u64
  | FinishMismatch u64 u64
  | AlreadyFinished

fun cancel_reason_byte :: "BulkCancelReason \<Rightarrow> u8" where
  "cancel_reason_byte CallerCancelled = 1"
| "cancel_reason_byte DestinationIo = 2"
| "cancel_reason_byte ResourceLimit = 3"
| "cancel_reason_byte TransportFailure = 4"
| "cancel_reason_byte ProtocolState = 5"

definition cancel_reason_from_wire :: "u8 \<Rightarrow> string + BulkCancelReason" where
  "cancel_reason_from_wire value =
     (if value = 1 then Inr CallerCancelled
      else if value = 2 then Inr DestinationIo
      else if value = 3 then Inr ResourceLimit
      else if value = 4 then Inr TransportFailure
      else if value = 5 then Inr ProtocolState
      else Inl ''unknown bulk cancel reason'')"

section \<open>Negotiation\<close>

definition validate_record_limit :: "nat \<Rightarrow> BulkStateError + unit" where
  "validate_record_limit limit =
     (if \<not> (MIN_BULK_RECORD_PAYLOAD \<le> limit \<and> limit \<le> MAX_BULK_RECORD_PAYLOAD)
      then Inl (InvalidRecordLimit limit) else Inr ())"

definition validate_payload_len :: "nat \<Rightarrow> nat \<Rightarrow> BulkStateError + unit" where
  "validate_payload_len len mx =
     (if len = 0 \<or> len > mx then Inl (InvalidPayloadLength len mx) else Inr ())"

fun flow_mask :: "BulkFlow \<Rightarrow> u8" where
  "flow_mask HostToGuest = BULK_FLOW_MASK_HOST_TO_GUEST"
| "flow_mask GuestToHost = BULK_FLOW_MASK_GUEST_TO_HOST"

definition new_offer :: "nat \<Rightarrow> u64 \<Rightarrow> BulkOffer" where
  "new_offer max_record_payload guest_to_host_credit_limit =
     \<lparr>bo_format = BULK_FORMAT_RAW_V1, bo_max_record_payload = max_record_payload,
      bo_guest_to_host_credit_limit = guest_to_host_credit_limit\<rparr>"

definition filesystem_read :: BulkOffer where
  "filesystem_read = new_offer DEFAULT_FILESYSTEM_BULK_RECORD_PAYLOAD DEFAULT_BULK_WINDOW"

definition filesystem_write :: BulkOffer where
  "filesystem_write = new_offer DEFAULT_FILESYSTEM_BULK_RECORD_PAYLOAD 0"

definition tcp_offer :: BulkOffer where
  "tcp_offer = new_offer DEFAULT_BULK_RECORD_PAYLOAD DEFAULT_BULK_WINDOW"

definition validate_offer :: "BulkOffer \<Rightarrow> BulkStateError + BulkOffer" where
  "validate_offer offer =
     (case validate_record_limit (bo_max_record_payload offer) of
        Inl e \<Rightarrow> Inl e
      | Inr _ \<Rightarrow>
          if bo_format offer \<noteq> BULK_FORMAT_RAW_V1 then Inl (UnsupportedFormat (bo_format offer))
          else if bo_guest_to_host_credit_limit offer > MAX_BULK_WINDOW
          then Inl (InvalidCredit (''initial guest-to-host limit '' @ show_nat (bo_guest_to_host_credit_limit offer)
                 @ '' exceeds '' @ show_nat MAX_BULK_WINDOW))
          else Inr offer)"

definition validate_against ::
  "BulkAccepted \<Rightarrow> BulkOffer \<Rightarrow> BulkKind \<Rightarrow> u8 \<Rightarrow> BulkStateError + BulkAccepted" where
  "validate_against acc offer kind flows =
     (case validate_offer offer of
        Inl e \<Rightarrow> Inl e
      | Inr offer \<Rightarrow>
          case validate_record_limit (ba_max_record_payload acc) of
            Inl e \<Rightarrow> Inl e
          | Inr _ \<Rightarrow>
              if ba_kind acc \<noteq> kind \<or> ba_flows acc \<noteq> flows \<or> ba_flows acc AND NOT 0b11 \<noteq> 0
              then Inl FlowMismatch
              else if ba_format acc \<noteq> BULK_FORMAT_RAW_V1 then Inl (UnsupportedFormat (ba_format acc))
              else if ba_max_record_payload acc > bo_max_record_payload offer
              then Inl (InvalidRecordLimit (ba_max_record_payload acc))
              else if ba_guest_to_host_credit_limit acc \<noteq> bo_guest_to_host_credit_limit offer
              then Inl (InvalidCredit ''guest-to-host grant was not echoed exactly'')
              else if ba_host_to_guest_credit_limit acc > MAX_BULK_WINDOW
              then Inl (InvalidCredit ''host-to-guest grant exceeds the generation-8 window'')
              else let host_to_guest = ba_flows acc AND BULK_FLOW_MASK_HOST_TO_GUEST \<noteq> 0;
                       guest_to_host = ba_flows acc AND BULK_FLOW_MASK_GUEST_TO_HOST \<noteq> 0
                   in if host_to_guest \<noteq> (ba_host_to_guest_credit_limit acc \<noteq> 0)
                      then Inl (InvalidCredit
                        ''host-to-guest credit must be nonzero exactly when that flow is enabled'')
                      else if guest_to_host \<noteq> (ba_guest_to_host_credit_limit acc \<noteq> 0)
                      then Inl (InvalidCredit
                        ''guest-to-host credit must be nonzero exactly when that flow is enabled'')
                      else Inr acc)"

section \<open>The sender\<close>

definition new_send :: "BulkKind \<Rightarrow> BulkFlow \<Rightarrow> nat \<Rightarrow> u64 \<Rightarrow> BulkStateError + BulkSendState" where
  "new_send kind flow max_record_payload credit_limit =
     (case validate_record_limit max_record_payload of
        Inl e \<Rightarrow> Inl e
      | Inr _ \<Rightarrow>
          if credit_limit > MAX_BULK_WINDOW
          then Inl (InvalidCredit ''initial credit exceeds the generation-8 window'')
          else Inr \<lparr>ss_kind = kind, ss_flow = flow, ss_max_record_payload = max_record_payload,
                 ss_next_offset = 0, ss_consumed_offset = 0, ss_credit_limit = credit_limit,
                 ss_finished = False\<rparr>)"

definition available_credit :: "BulkSendState \<Rightarrow> u64" where
  "available_credit s = ss_credit_limit s - ss_next_offset s"

definition admit :: "BulkSendState \<Rightarrow> nat \<Rightarrow> (BulkStateError + u64) \<times> BulkSendState" where
  "admit s payload_len =
     (if ss_finished s then (Inl AlreadyFinished, s)
      else try_res (validate_payload_len payload_len (ss_max_record_payload s)) s (\<lambda>_.
        try_res (ok_or (checked_add64 (ss_next_offset s) payload_len) OffsetOverflow) s (\<lambda>e.
          if e > ss_credit_limit s then (Inl (CreditExceeded e (ss_credit_limit s)), s)
          else (Inr (ss_next_offset s), s\<lparr>ss_next_offset := e\<rparr>))))"

definition apply_credit :: "BulkSendState \<Rightarrow> BulkCredit \<Rightarrow> (BulkStateError + bool) \<times> BulkSendState" where
  "apply_credit s credit =
     (if bc_kind credit \<noteq> ss_kind s \<or> bc_flow credit \<noteq> ss_flow s then (Inl FlowMismatch, s)
      else if bc_consumed_offset credit > ss_next_offset s
      then (Inl (InvalidCredit ''peer consumed bytes the sender has not admitted''), s)
      else if bc_credit_limit credit < bc_consumed_offset credit
              \<or> bc_credit_limit credit - bc_consumed_offset credit > MAX_BULK_WINDOW
      then (Inl (InvalidCredit ''credit limit is outside the allowed absolute window''), s)
      else if bc_consumed_offset credit \<le> ss_consumed_offset s \<and> bc_credit_limit credit \<le> ss_credit_limit s
      then (Inr False, s)
      else if bc_consumed_offset credit < ss_consumed_offset s \<or> bc_credit_limit credit < ss_credit_limit s
              \<or> bc_credit_limit credit < ss_next_offset s
      then (Inl (InvalidCredit ''credit fields advanced inconsistently''), s)
      else (Inr True, s\<lparr>ss_consumed_offset := bc_consumed_offset credit,
                         ss_credit_limit := bc_credit_limit credit\<rparr>))"

definition finish :: "BulkSendState \<Rightarrow> (BulkStateError + BulkFinish) \<times> BulkSendState" where
  "finish s =
     (if ss_finished s then (Inl AlreadyFinished, s)
      else (Inr \<lparr>bf_kind = ss_kind s, bf_flow = ss_flow s, bf_final_offset = ss_next_offset s\<rparr>,
            s\<lparr>ss_finished := True\<rparr>))"

section \<open>The receiver\<close>

definition new_receive :: "BulkKind \<Rightarrow> BulkFlow \<Rightarrow> nat \<Rightarrow> u64 \<Rightarrow> u64 \<Rightarrow> BulkStateError + BulkReceiveState" where
  "new_receive kind flow max_record_payload credit_limit window =
     (case validate_record_limit max_record_payload of
        Inl e \<Rightarrow> Inl e
      | Inr _ \<Rightarrow>
          if window = 0 \<or> window > MAX_BULK_WINDOW \<or> credit_limit > window
          then Inl (InvalidCredit ''invalid initial receive window'')
          else Inr \<lparr>rs_kind = kind, rs_flow = flow, rs_max_record_payload = max_record_payload,
                 rs_window = window, rs_next_expected_offset = 0, rs_consumed_offset = 0,
                 rs_credit_limit = credit_limit, rs_finished = False\<rparr>)"

definition accept_record :: "BulkReceiveState \<Rightarrow> BulkRecord \<Rightarrow> (BulkStateError + u64) \<times> BulkReceiveState" where
  "accept_record r rcd =
     (if rs_finished r then (Inl AlreadyFinished, r)
      else if br_kind rcd \<noteq> rs_kind r \<or> br_flow rcd \<noteq> rs_flow r then (Inl FlowMismatch, r)
      else try_res (validate_payload_len (length (br_payload rcd)) (rs_max_record_payload r)) r (\<lambda>_.
        if br_offset rcd \<noteq> rs_next_expected_offset r
        then (Inl (OffsetMismatch (rs_next_expected_offset r) (br_offset rcd)), r)
        else try_res (ok_or (checked_add64 (br_offset rcd) (length (br_payload rcd))) OffsetOverflow) r (\<lambda>e.
          if e > rs_credit_limit r then (Inl (CreditExceeded e (rs_credit_limit r)), r)
          else (Inr e, r\<lparr>rs_next_expected_offset := e\<rparr>))))"

text \<open>The consumed offset is stored before the replenishment is computed, so an overflow error
  leaves it advanced. The subtraction is Rust's on \<^verbatim>\<open>u64\<close>.\<close>

definition consume :: "BulkReceiveState \<Rightarrow> u64 \<Rightarrow> (BulkStateError + BulkCredit option) \<times> BulkReceiveState" where
  "consume r consumed_offset =
     (if consumed_offset < rs_consumed_offset r \<or> consumed_offset > rs_next_expected_offset r
      then (Inl (InvalidCredit ''consumed offset is outside admitted bytes''), r)
      else let r = r\<lparr>rs_consumed_offset := consumed_offset\<rparr> in
        if fetch_sub64 (rs_credit_limit r) (rs_consumed_offset r) > rs_window r div 2 then (Inr None, r)
        else try_res (ok_or (checked_add64 (rs_consumed_offset r) (rs_window r)) OffsetOverflow) r (\<lambda>next_limit.
          if next_limit \<le> rs_credit_limit r then (Inr None, r)
          else let r = r\<lparr>rs_credit_limit := next_limit\<rparr> in
            (Inr (Some \<lparr>bc_kind = rs_kind r, bc_flow = rs_flow r, bc_consumed_offset = rs_consumed_offset r,
               bc_credit_limit = rs_credit_limit r\<rparr>), r)))"

definition accept_finish :: "BulkReceiveState \<Rightarrow> BulkFinish \<Rightarrow> (BulkStateError + unit) \<times> BulkReceiveState" where
  "accept_finish r fin =
     (if rs_finished r then (Inl AlreadyFinished, r)
      else if bf_kind fin \<noteq> rs_kind r \<or> bf_flow fin \<noteq> rs_flow r then (Inl FlowMismatch, r)
      else if bf_final_offset fin \<noteq> rs_next_expected_offset r
      then (Inl (FinishMismatch (rs_next_expected_offset r) (bf_final_offset fin)), r)
      else (Inr (), r\<lparr>rs_finished := True\<rparr>))"

section \<open>What each operation does\<close>

lemmas bulk_consts = MIN_BULK_RECORD_PAYLOAD_def MAX_BULK_RECORD_PAYLOAD_def MAX_BULK_WINDOW_def
  DEFAULT_BULK_WINDOW_def DEFAULT_BULK_RECORD_PAYLOAD_def DEFAULT_FILESYSTEM_BULK_RECORD_PAYLOAD_def
  BULK_FORMAT_RAW_V1_def

lemma validate_record_limit_Inr [simp]:
  "validate_record_limit n = Inr u \<longleftrightarrow> MIN_BULK_RECORD_PAYLOAD \<le> n \<and> n \<le> MAX_BULK_RECORD_PAYLOAD"
  by (simp add: validate_record_limit_def)

lemma validate_payload_len_Inr [simp]: "validate_payload_len n mx = Inr u \<longleftrightarrow> 0 < n \<and> n \<le> mx"
  by (auto simp: validate_payload_len_def)

lemma admit_ok:
  "admit s n = (Inr off, s') \<longleftrightarrow>
     \<not> ss_finished s \<and> 0 < n \<and> n \<le> ss_max_record_payload s \<and> off = ss_next_offset s \<and>
     off + n < two64 \<and> off + n \<le> ss_credit_limit s \<and> s' = s\<lparr>ss_next_offset := off + n\<rparr>"
  by (auto simp: admit_def try_res_def validate_payload_len_def checked_add64_def ok_or_def)

lemma accept_record_ok:
  "accept_record r rcd = (Inr e, r') \<longleftrightarrow>
     \<not> rs_finished r \<and> br_kind rcd = rs_kind r \<and> br_flow rcd = rs_flow r \<and>
     0 < length (br_payload rcd) \<and> length (br_payload rcd) \<le> rs_max_record_payload r \<and>
     br_offset rcd = rs_next_expected_offset r \<and> e = br_offset rcd + length (br_payload rcd) \<and>
     e < two64 \<and> e \<le> rs_credit_limit r \<and> r' = r\<lparr>rs_next_expected_offset := e\<rparr>"
  by (auto simp: accept_record_def try_res_def validate_payload_len_def checked_add64_def ok_or_def)

lemma accept_record_err: "accept_record r rcd = (Inl e, r') \<Longrightarrow> r' = r"
  by (auto simp: accept_record_def try_res_def ok_or_def split: if_splits sum.splits option.splits)

lemma admit_err: "admit s n = (Inl e, s') \<Longrightarrow> s' = s"
  by (auto simp: admit_def try_res_def ok_or_def split: if_splits sum.splits option.splits)

lemma apply_credit_err: "apply_credit s c = (Inl e, s') \<Longrightarrow> s' = s"
  by (auto simp: apply_credit_def split: if_splits)

lemma accept_finish_ok:
  "accept_finish r fin = (Inr u, r') \<longleftrightarrow>
     \<not> rs_finished r \<and> bf_kind fin = rs_kind r \<and> bf_flow fin = rs_flow r \<and>
     bf_final_offset fin = rs_next_expected_offset r \<and> r' = r\<lparr>rs_finished := True\<rparr>"
  by (auto simp: accept_finish_def)

lemma accept_finish_err: "accept_finish r fin = (Inl e, r') \<Longrightarrow> r' = r"
  by (auto simp: accept_finish_def split: if_splits)

subsection \<open>A receiver keeps its promise to its own buffer\<close>

text \<open>What a receiver maintains whatever its peer sends: it never holds more unconsumed bytes than
  its window, and it never grants more than its window beyond what was consumed.\<close>

definition recv_wf :: "BulkReceiveState \<Rightarrow> bool" where
  "recv_wf r \<longleftrightarrow> rs_consumed_offset r \<le> rs_next_expected_offset r \<and>
     rs_next_expected_offset r \<le> rs_credit_limit r \<and>
     rs_credit_limit r \<le> rs_consumed_offset r + rs_window r \<and> rs_credit_limit r < two64 \<and>
     0 < rs_window r \<and> rs_window r \<le> MAX_BULK_WINDOW"

lemma new_receive_wf: "new_receive k f mx cl w = Inr r \<Longrightarrow> recv_wf r"
  by (auto simp: new_receive_def recv_wf_def MAX_BULK_WINDOW_def split: sum.splits if_splits)

lemma accept_record_wf: "recv_wf r \<Longrightarrow> recv_wf (snd (accept_record r rcd))"
  by (auto simp: recv_wf_def accept_record_def try_res_def ok_or_def split: sum.split option.split)

lemma accept_finish_wf: "recv_wf r \<Longrightarrow> recv_wf (snd (accept_finish r fin))"
  by (auto simp: recv_wf_def accept_finish_def)

text \<open>Consumption, for a well-formed receiver: the subtraction of the code cannot wrap, and a grant is
  always a full window.\<close>

lemma consume_cases:
  assumes "recv_wf r" and "rs_consumed_offset r \<le> n" and "n \<le> rs_next_expected_offset r"
  shows "consume r n =
    (if rs_credit_limit r - n > rs_window r div 2 then (Inr None, r\<lparr>rs_consumed_offset := n\<rparr>)
     else if two64 \<le> n + rs_window r then (Inl OffsetOverflow, r\<lparr>rs_consumed_offset := n\<rparr>)
     else if n + rs_window r \<le> rs_credit_limit r then (Inr None, r\<lparr>rs_consumed_offset := n\<rparr>)
     else (Inr (Some \<lparr>bc_kind = rs_kind r, bc_flow = rs_flow r, bc_consumed_offset = n,
                 bc_credit_limit = n + rs_window r\<rparr>),
           r\<lparr>rs_consumed_offset := n, rs_credit_limit := n + rs_window r\<rparr>))"
proof -
  have "n \<le> rs_credit_limit r" "rs_credit_limit r < two64" using assms by (simp_all add: recv_wf_def)
  then have "fetch_sub64 (rs_credit_limit r) n = rs_credit_limit r - n" by (rule fetch_sub64_le)
  then show ?thesis
    using assms by (simp add: consume_def Let_def checked_add64_def)
qed

lemma consume_wf: "recv_wf r \<Longrightarrow> recv_wf (snd (consume r n))"
proof (cases "rs_consumed_offset r \<le> n \<and> n \<le> rs_next_expected_offset r")
  case True
  assume wf: "recv_wf r"
  then show ?thesis using True by (simp add: consume_cases recv_wf_def)
next
  case False
  assume "recv_wf r"
  moreover have "snd (consume r n) = r" using False by (auto simp: consume_def)
  ultimately show ?thesis by simp
qed

datatype recv_call = AcceptRecord BulkRecord | Consume u64 | AcceptFinish BulkFinish

fun recv_do :: "recv_call \<Rightarrow> BulkReceiveState \<Rightarrow> BulkReceiveState" where
  "recv_do (AcceptRecord rcd) r = snd (accept_record r rcd)"
| "recv_do (Consume n) r = snd (consume r n)"
| "recv_do (AcceptFinish fin) r = snd (accept_finish r fin)"

lemma recv_do_wf: "recv_wf r \<Longrightarrow> recv_wf (recv_do c r)"
  by (cases c) (simp_all add: accept_record_wf consume_wf accept_finish_wf)

lemma recv_run_wf: "recv_wf r \<Longrightarrow> recv_wf (fold recv_do cs r)"
  by (induction cs arbitrary: r) (simp_all add: recv_do_wf)

subsection \<open>A sender keeps within what it was granted\<close>

definition send_wf :: "BulkSendState \<Rightarrow> bool" where
  "send_wf s \<longleftrightarrow> ss_consumed_offset s \<le> ss_next_offset s \<and> ss_next_offset s \<le> ss_credit_limit s \<and>
     ss_credit_limit s \<le> ss_consumed_offset s + MAX_BULK_WINDOW"

lemma new_send_wf: "new_send k f mx cl = Inr s \<Longrightarrow> send_wf s"
  by (auto simp: new_send_def send_wf_def split: sum.splits if_splits)

datatype send_call = Admit nat | ApplyCredit BulkCredit | Finish

fun send_do :: "send_call \<Rightarrow> BulkSendState \<Rightarrow> BulkSendState" where
  "send_do (Admit n) s = snd (admit s n)"
| "send_do (ApplyCredit c) s = snd (apply_credit s c)"
| "send_do Finish s = snd (finish s)"

lemma admit_wf: "send_wf s \<Longrightarrow> send_wf (snd (admit s n))"
  by (auto simp: send_wf_def admit_def try_res_def ok_or_def split: sum.split option.split)

lemma apply_credit_wf: "send_wf s \<Longrightarrow> send_wf (snd (apply_credit s c))"
  by (auto simp: apply_credit_def send_wf_def)

lemma send_do_wf: "send_wf s \<Longrightarrow> send_wf (send_do c s)"
  by (cases c) (simp_all add: admit_wf apply_credit_wf, auto simp: finish_def send_wf_def)

lemma send_run_wf: "send_wf s \<Longrightarrow> send_wf (fold send_do cs s)"
  by (induction cs arbitrary: s) (simp_all add: send_do_wf)

section \<open>A flow between two endpoints\<close>

text \<open>One direction of a correlation: the sender's messages reach the receiver in order, the
  receiver's credit updates reach the sender in order. The byte strings handed to the sender and
  to the receiver's destination are recorded, and so is the first error an endpoint reports for
  something its peer did. The destination may consume any part of what has been admitted.\<close>

datatype flow_msg = Rec BulkRecord | Fin BulkFinish

record flow_system =
  fl_send :: BulkSendState
  fl_recv :: BulkReceiveState
  fl_data :: "flow_msg list"
  fl_credits :: "BulkCredit list"
  fl_sent :: "u8 list"
  fl_delivered :: "u8 list"
  fl_failed :: "BulkStateError option"

definition flow_init :: "flow_system \<Rightarrow> bool" where
  "flow_init s \<longleftrightarrow> (\<exists>k f mx cl w.
     new_send k f mx cl = Inr (fl_send s) \<and> new_receive k f mx cl w = Inr (fl_recv s) \<and>
     fl_data s = [] \<and> fl_credits s = [] \<and> fl_sent s = [] \<and> fl_delivered s = [] \<and> fl_failed s = None)"

definition msg_record :: "u32 \<Rightarrow> BulkSendState \<Rightarrow> u64 \<Rightarrow> u8 list \<Rightarrow> BulkRecord" where
  "msg_record i snd_state off p =
     \<lparr>br_id = i, br_kind = ss_kind snd_state, br_flow = ss_flow snd_state, br_offset = off, br_payload = p\<rparr>"

inductive flow_step :: "flow_system \<Rightarrow> flow_system \<Rightarrow> bool" where
  send: "fl_failed s = None \<Longrightarrow> admit (fl_send s) (length p) = (Inr off, s') \<Longrightarrow>
     flow_step s (s\<lparr>fl_send := s', fl_data := fl_data s @ [Rec (msg_record i s' off p)], fl_sent := fl_sent s @ p\<rparr>)"
| close: "fl_failed s = None \<Longrightarrow> finish (fl_send s) = (Inr fin, s') \<Longrightarrow>
     flow_step s (s\<lparr>fl_send := s', fl_data := fl_data s @ [Fin fin]\<rparr>)"
| deliver: "fl_failed s = None \<Longrightarrow> fl_data s = Rec rcd # ds \<Longrightarrow> accept_record (fl_recv s) rcd = (Inr e, r') \<Longrightarrow>
     flow_step s (s\<lparr>fl_recv := r', fl_data := ds, fl_delivered := fl_delivered s @ br_payload rcd\<rparr>)"
| refuse: "fl_failed s = None \<Longrightarrow> fl_data s = Rec rcd # ds \<Longrightarrow> accept_record (fl_recv s) rcd = (Inl err, r') \<Longrightarrow>
     flow_step s (s\<lparr>fl_recv := r', fl_data := ds, fl_failed := Some err\<rparr>)"
| ended: "fl_failed s = None \<Longrightarrow> fl_data s = Fin fin # ds \<Longrightarrow> accept_finish (fl_recv s) fin = (Inr u, r') \<Longrightarrow>
     flow_step s (s\<lparr>fl_recv := r', fl_data := ds\<rparr>)"
| refuse_end: "fl_failed s = None \<Longrightarrow> fl_data s = Fin fin # ds \<Longrightarrow> accept_finish (fl_recv s) fin = (Inl err, r') \<Longrightarrow>
     flow_step s (s\<lparr>fl_recv := r', fl_data := ds, fl_failed := Some err\<rparr>)"
| consume_quiet: "fl_failed s = None \<Longrightarrow> rs_consumed_offset (fl_recv s) \<le> n \<Longrightarrow> n \<le> rs_next_expected_offset (fl_recv s) \<Longrightarrow>
     consume (fl_recv s) n = (Inr None, r') \<Longrightarrow> flow_step s (s\<lparr>fl_recv := r'\<rparr>)"
| consume_grant: "fl_failed s = None \<Longrightarrow> rs_consumed_offset (fl_recv s) \<le> n \<Longrightarrow> n \<le> rs_next_expected_offset (fl_recv s) \<Longrightarrow>
     consume (fl_recv s) n = (Inr (Some c), r') \<Longrightarrow>
     flow_step s (s\<lparr>fl_recv := r', fl_credits := fl_credits s @ [c]\<rparr>)"
| consume_error: "fl_failed s = None \<Longrightarrow> rs_consumed_offset (fl_recv s) \<le> n \<Longrightarrow> n \<le> rs_next_expected_offset (fl_recv s) \<Longrightarrow>
     consume (fl_recv s) n = (Inl err, r') \<Longrightarrow> flow_step s (s\<lparr>fl_recv := r', fl_failed := Some err\<rparr>)"
| credit: "fl_failed s = None \<Longrightarrow> fl_credits s = c # cs \<Longrightarrow> apply_credit (fl_send s) c = (Inr b, s') \<Longrightarrow>
     flow_step s (s\<lparr>fl_send := s', fl_credits := cs\<rparr>)"
| refuse_credit: "fl_failed s = None \<Longrightarrow> fl_credits s = c # cs \<Longrightarrow> apply_credit (fl_send s) c = (Inl err, s') \<Longrightarrow>
     flow_step s (s\<lparr>fl_send := s', fl_credits := cs, fl_failed := Some err\<rparr>)"

subsection \<open>The invariant\<close>

text \<open>The messages in flight continue the receiver's stream without a gap up to the sender's
  offset; a finish marker is the last of them.\<close>

fun data_chain :: "BulkSendState \<Rightarrow> bool \<Rightarrow> u64 \<Rightarrow> flow_msg list \<Rightarrow> bool" where
  "data_chain s ended off [] \<longleftrightarrow> off = ss_next_offset s \<and> ended = ss_finished s"
| "data_chain s ended off (Rec rcd # ds) \<longleftrightarrow> \<not> ended \<and> br_kind rcd = ss_kind s \<and> br_flow rcd = ss_flow s \<and>
     br_offset rcd = off \<and> 0 < length (br_payload rcd) \<and> length (br_payload rcd) \<le> ss_max_record_payload s \<and>
     data_chain s ended (off + length (br_payload rcd)) ds"
| "data_chain s ended off (Fin fin # ds) \<longleftrightarrow> \<not> ended \<and> bf_kind fin = ss_kind s \<and> bf_flow fin = ss_flow s \<and>
     bf_final_offset fin = off \<and> off = ss_next_offset s \<and> ss_finished s \<and> ds = []"

text \<open>The credit updates in flight grow strictly, each a full window beyond what was consumed, up
  to the limit the receiver itself enforces.\<close>

fun credit_chain :: "BulkReceiveState \<Rightarrow> u64 \<Rightarrow> u64 \<Rightarrow> BulkCredit list \<Rightarrow> bool" where
  "credit_chain r cons lim [] \<longleftrightarrow> cons \<le> rs_consumed_offset r \<and> lim = rs_credit_limit r"
| "credit_chain r cons lim (c # cs) \<longleftrightarrow> bc_kind c = rs_kind r \<and> bc_flow c = rs_flow r \<and>
     cons \<le> bc_consumed_offset c \<and> lim < bc_credit_limit c \<and>
     bc_credit_limit c = bc_consumed_offset c + rs_window r \<and>
     credit_chain r (bc_consumed_offset c) (bc_credit_limit c) cs"

fun msg_bytes :: "flow_msg \<Rightarrow> u8 list" where
  "msg_bytes (Rec rcd) = br_payload rcd"
| "msg_bytes (Fin fin) = []"

definition in_flight :: "flow_system \<Rightarrow> u8 list" where
  "in_flight s = concat (map msg_bytes (fl_data s))"

definition live_inv :: "flow_system \<Rightarrow> bool" where
  "live_inv s \<longleftrightarrow>
     recv_wf (fl_recv s) \<and> ss_kind (fl_send s) = rs_kind (fl_recv s) \<and> ss_flow (fl_send s) = rs_flow (fl_recv s) \<and>
     ss_max_record_payload (fl_send s) = rs_max_record_payload (fl_recv s) \<and>
     ss_next_offset (fl_send s) \<le> ss_credit_limit (fl_send s) \<and>
     data_chain (fl_send s) (rs_finished (fl_recv s)) (rs_next_expected_offset (fl_recv s)) (fl_data s) \<and>
     credit_chain (fl_recv s) (ss_consumed_offset (fl_send s)) (ss_credit_limit (fl_send s)) (fl_credits s) \<and>
     length (fl_sent s) = ss_next_offset (fl_send s)"

definition flow_inv :: "flow_system \<Rightarrow> bool" where
  "flow_inv s \<longleftrightarrow>
     fl_delivered s @ in_flight s = fl_sent s \<and> length (fl_delivered s) = rs_next_expected_offset (fl_recv s) \<and>
     live_inv s \<and>
     (fl_failed s \<noteq> None \<longrightarrow> fl_failed s = Some OffsetOverflow \<and>
        two64 \<le> rs_consumed_offset (fl_recv s) + rs_window (fl_recv s))"

lemma data_chain_snoc_rec:
  "data_chain s False off ds \<Longrightarrow> \<not> ss_finished s \<Longrightarrow> 0 < length p \<Longrightarrow> length p \<le> ss_max_record_payload s \<Longrightarrow>
   ss_next_offset s + length p = m \<Longrightarrow>
     data_chain (s\<lparr>ss_next_offset := m\<rparr>) False off (ds @ [Rec (msg_record i (s\<lparr>ss_next_offset := m\<rparr>) (ss_next_offset s) p)])"
proof (induction ds arbitrary: off)
  case Nil
  then show ?case by (simp add: msg_record_def)
next
  case (Cons d ds)
  then show ?case by (cases d) auto
qed

lemma data_chain_snoc_fin:
  "data_chain s False off ds \<Longrightarrow> \<not> ss_finished s \<Longrightarrow>
     data_chain (s\<lparr>ss_finished := True\<rparr>) False off
       (ds @ [Fin \<lparr>bf_kind = ss_kind s, bf_flow = ss_flow s, bf_final_offset = ss_next_offset s\<rparr>])"
proof (induction ds arbitrary: off)
  case (Cons d ds)
  then show ?case by (cases d) auto
qed simp

lemma data_chain_credit [simp]:
  "data_chain (s\<lparr>ss_consumed_offset := a, ss_credit_limit := b\<rparr>) ended off ds \<longleftrightarrow> data_chain s ended off ds"
  by (induction s ended off ds rule: data_chain.induct) auto

lemma data_chain_ended: "data_chain s ended off ds \<Longrightarrow> \<not> ss_finished s \<Longrightarrow> \<not> ended"
  by (induction s ended off ds rule: data_chain.induct) auto

lemma data_chain_le: "data_chain s ended off ds \<Longrightarrow> off \<le> ss_next_offset s"
  by (induction s ended off ds rule: data_chain.induct) auto

lemma data_chain_bytes: "data_chain s ended off ds \<Longrightarrow> off + length (concat (map msg_bytes ds)) = ss_next_offset s"
  by (induction s ended off ds rule: data_chain.induct) auto

lemma credit_chain_other [simp]:
  "credit_chain (r\<lparr>rs_next_expected_offset := n\<rparr>) cons lim cs \<longleftrightarrow> credit_chain r cons lim cs"
  "credit_chain (r\<lparr>rs_finished := b\<rparr>) cons lim cs \<longleftrightarrow> credit_chain r cons lim cs"
  by (induction r cons lim cs rule: credit_chain.induct) auto

lemma credit_chain_consume:
  "credit_chain r cons lim cs \<Longrightarrow> rs_consumed_offset r \<le> n \<Longrightarrow> credit_chain (r\<lparr>rs_consumed_offset := n\<rparr>) cons lim cs"
  by (induction r cons lim cs rule: credit_chain.induct) auto

lemma credit_chain_grant:
  "credit_chain r cons lim cs \<Longrightarrow> rs_consumed_offset r \<le> n \<Longrightarrow> rs_credit_limit r < n + rs_window r \<Longrightarrow>
   credit_chain (r\<lparr>rs_consumed_offset := n, rs_credit_limit := n + rs_window r\<rparr>) cons lim
     (cs @ [\<lparr>bc_kind = rs_kind r, bc_flow = rs_flow r, bc_consumed_offset = n, bc_credit_limit = n + rs_window r\<rparr>])"
  by (induction r cons lim cs rule: credit_chain.induct) auto

lemma credit_chain_consumed: "credit_chain r cons lim cs \<Longrightarrow> cons \<le> rs_consumed_offset r \<and> lim \<le> rs_credit_limit r"
  by (induction r cons lim cs rule: credit_chain.induct) auto

subsection \<open>Every step keeps it\<close>

lemma flow_inv_init:
  assumes "flow_init s"
  shows "flow_inv s"
proof -
  obtain k f mx cl w where s: "new_send k f mx cl = Inr (fl_send s)" and r: "new_receive k f mx cl w = Inr (fl_recv s)"
    and e: "fl_data s = []" "fl_credits s = []" "fl_sent s = []" "fl_delivered s = []" "fl_failed s = None"
    using assms unfolding flow_init_def by blast
  have "fl_send s = \<lparr>ss_kind = k, ss_flow = f, ss_max_record_payload = mx, ss_next_offset = 0,
      ss_consumed_offset = 0, ss_credit_limit = cl, ss_finished = False\<rparr>"
    using s by (simp add: new_send_def split: sum.splits if_splits)
  moreover have "fl_recv s = \<lparr>rs_kind = k, rs_flow = f, rs_max_record_payload = mx, rs_window = w,
      rs_next_expected_offset = 0, rs_consumed_offset = 0, rs_credit_limit = cl, rs_finished = False\<rparr>"
    using r by (simp add: new_receive_def split: sum.splits if_splits)
  ultimately show ?thesis
    using new_receive_wf [OF r] e by (simp add: flow_inv_def live_inv_def in_flight_def)
qed

lemma flow_inv_send:
  assumes "flow_inv s" and "fl_failed s = None" and "admit (fl_send s) (length p) = (Inr off, s')"
  shows "flow_inv (s\<lparr>fl_send := s', fl_data := fl_data s @ [Rec (msg_record i s' off p)], fl_sent := fl_sent s @ p\<rparr>)"
proof -
  have inv: "live_inv s" "fl_delivered s @ in_flight s = fl_sent s"
    "length (fl_delivered s) = rs_next_expected_offset (fl_recv s)" using assms(1) by (simp_all add: flow_inv_def)
  have a: "\<not> ss_finished (fl_send s)" "0 < length p" "length p \<le> ss_max_record_payload (fl_send s)"
    "off = ss_next_offset (fl_send s)" "off + length p \<le> ss_credit_limit (fl_send s)"
    "s' = (fl_send s)\<lparr>ss_next_offset := off + length p\<rparr>" using assms(3) unfolding admit_ok by blast+
  have ne: "\<not> rs_finished (fl_recv s)" using inv(1) a(1) data_chain_ended unfolding live_inv_def by blast
  have "data_chain s' False (rs_next_expected_offset (fl_recv s)) (fl_data s @ [Rec (msg_record i s' off p)])"
    unfolding a(6) using inv(1) ne a by (simp add: live_inv_def data_chain_snoc_rec)
  then show ?thesis
    using inv ne a assms(2) by (simp add: flow_inv_def live_inv_def in_flight_def msg_record_def)
qed

lemma flow_inv_close:
  assumes "flow_inv s" and "fl_failed s = None" and "finish (fl_send s) = (Inr fin, s')"
  shows "flow_inv (s\<lparr>fl_send := s', fl_data := fl_data s @ [Fin fin]\<rparr>)"
proof -
  have inv: "live_inv s" "fl_delivered s @ in_flight s = fl_sent s"
    "length (fl_delivered s) = rs_next_expected_offset (fl_recv s)" using assms(1) by (simp_all add: flow_inv_def)
  have a: "\<not> ss_finished (fl_send s)" "s' = (fl_send s)\<lparr>ss_finished := True\<rparr>"
    "fin = \<lparr>bf_kind = ss_kind (fl_send s), bf_flow = ss_flow (fl_send s), bf_final_offset = ss_next_offset (fl_send s)\<rparr>"
    using assms(3) by (auto simp: finish_def split: if_splits)
  have ne: "\<not> rs_finished (fl_recv s)" using inv(1) a(1) data_chain_ended unfolding live_inv_def by blast
  have "data_chain s' False (rs_next_expected_offset (fl_recv s)) (fl_data s @ [Fin fin])"
    unfolding a(2,3) by (rule data_chain_snoc_fin) (use inv(1) ne a(1) in \<open>simp_all add: live_inv_def\<close>)
  then show ?thesis
    using inv ne a assms(2) by (simp add: flow_inv_def live_inv_def in_flight_def)
qed

text \<open>No endpoint ever refuses what its peer did.\<close>

lemma record_accepted:
  assumes "live_inv s" and "fl_data s = Rec rcd # ds"
  shows "accept_record (fl_recv s) rcd =
    (Inr (br_offset rcd + length (br_payload rcd)),
     (fl_recv s)\<lparr>rs_next_expected_offset := br_offset rcd + length (br_payload rcd)\<rparr>)"
proof -
  have c: "data_chain (fl_send s) (rs_finished (fl_recv s)) (rs_next_expected_offset (fl_recv s)) (Rec rcd # ds)"
    and lim: "ss_next_offset (fl_send s) \<le> rs_credit_limit (fl_recv s)" "rs_credit_limit (fl_recv s) < two64"
    using assms credit_chain_consumed unfolding live_inv_def recv_wf_def by (auto intro: le_trans)
  have "br_offset rcd + length (br_payload rcd) \<le> ss_next_offset (fl_send s)" using c data_chain_le by auto
  then show ?thesis using assms(1) c lim by (simp add: accept_record_ok live_inv_def)
qed

lemma finish_accepted:
  assumes "live_inv s" and "fl_data s = Fin fin # ds"
  shows "accept_finish (fl_recv s) fin = (Inr (), (fl_recv s)\<lparr>rs_finished := True\<rparr>)"
  using assms by (simp add: accept_finish_ok live_inv_def)

lemma credit_accepted:
  assumes "live_inv s" and "fl_credits s = c # cs"
  shows "apply_credit (fl_send s) c =
    (Inr True, (fl_send s)\<lparr>ss_consumed_offset := bc_consumed_offset c, ss_credit_limit := bc_credit_limit c\<rparr>)"
proof -
  have ch: "credit_chain (fl_recv s) (ss_consumed_offset (fl_send s)) (ss_credit_limit (fl_send s)) (c # cs)"
    using assms(1) unfolding live_inv_def assms(2) by blast
  have "bc_consumed_offset c \<le> rs_consumed_offset (fl_recv s)" using ch credit_chain_consumed by auto
  moreover have "rs_next_expected_offset (fl_recv s) \<le> ss_next_offset (fl_send s)"
    using assms(1) data_chain_le unfolding live_inv_def by blast
  ultimately have "bc_consumed_offset c \<le> ss_next_offset (fl_send s)"
    using assms(1) by (simp add: live_inv_def recv_wf_def)
  then show ?thesis
    using ch assms(1) by (simp add: apply_credit_def live_inv_def recv_wf_def)
qed

lemma flow_inv_deliver:
  assumes "flow_inv s" and "fl_failed s = None" and "fl_data s = Rec rcd # ds"
    and "accept_record (fl_recv s) rcd = (Inr e, r')"
  shows "flow_inv (s\<lparr>fl_recv := r', fl_data := ds, fl_delivered := fl_delivered s @ br_payload rcd\<rparr>)"
proof -
  have inv: "live_inv s" using assms(1) by (simp add: flow_inv_def)
  have r: "r' = (fl_recv s)\<lparr>rs_next_expected_offset := br_offset rcd + length (br_payload rcd)\<rparr>"
    using record_accepted [OF inv assms(3)] assms(4) by simp
  have wf: "recv_wf r'" using accept_record_wf [of "fl_recv s" rcd] inv assms(4) by (simp add: live_inv_def)
  have o: "br_offset rcd = rs_next_expected_offset (fl_recv s)" using inv assms(3) by (simp add: live_inv_def)
  have "live_inv (s\<lparr>fl_recv := r', fl_data := ds, fl_delivered := fl_delivered s @ br_payload rcd\<rparr>)"
    using inv wf assms(3) by (auto simp: live_inv_def r)
  then show ?thesis
    using assms(1-3) by (simp add: flow_inv_def r o in_flight_def)
qed

lemma flow_inv_ended:
  assumes "flow_inv s" and "fl_failed s = None" and "fl_data s = Fin fin # ds"
    and "accept_finish (fl_recv s) fin = (Inr u, r')"
  shows "flow_inv (s\<lparr>fl_recv := r', fl_data := ds\<rparr>)"
proof -
  have inv: "live_inv s" using assms(1) by (simp add: flow_inv_def)
  have r: "r' = (fl_recv s)\<lparr>rs_finished := True\<rparr>" using finish_accepted [OF inv assms(3)] assms(4) by simp
  have wf: "recv_wf r'" using accept_finish_wf [of "fl_recv s" fin] inv assms(4) by (simp add: live_inv_def)
  have "live_inv (s\<lparr>fl_recv := r', fl_data := ds\<rparr>)"
    using inv wf assms(3) by (auto simp: live_inv_def r)
  then show ?thesis using assms(1-3) by (simp add: flow_inv_def r in_flight_def)
qed

lemma live_inv_consumed:
  assumes "live_inv s" and "rs_consumed_offset (fl_recv s) \<le> n" and "n \<le> rs_next_expected_offset (fl_recv s)"
    and "r' = (fl_recv s)\<lparr>rs_consumed_offset := n\<rparr>" 
  shows "live_inv (s\<lparr>fl_recv := r', fl_failed := e\<rparr>)"
  using assms by (simp add: live_inv_def credit_chain_consume recv_wf_def)

lemma flow_inv_consume:
  assumes "flow_inv s" and "fl_failed s = None"
    and n: "rs_consumed_offset (fl_recv s) \<le> n" "n \<le> rs_next_expected_offset (fl_recv s)"
    and "consume (fl_recv s) n = (res, r')"
  shows "case res of
      Inr None \<Rightarrow> flow_inv (s\<lparr>fl_recv := r'\<rparr>)
    | Inr (Some c) \<Rightarrow> flow_inv (s\<lparr>fl_recv := r', fl_credits := fl_credits s @ [c]\<rparr>)
    | Inl err \<Rightarrow> flow_inv (s\<lparr>fl_recv := r', fl_failed := Some err\<rparr>)"
proof -
  let ?r = "fl_recv s"
  have inv: "live_inv s" using assms(1) by (simp add: flow_inv_def)
  then have wf: "recv_wf ?r" by (simp add: live_inv_def)
  have wf': "recv_wf r'" using consume_wf [OF wf, of n] assms(5) by simp
  have c: "consume ?r n = (res, r')" by fact
  note cc = c [unfolded consume_cases [OF wf n]]
  have keep: "live_inv (s\<lparr>fl_recv := ?r\<lparr>rs_consumed_offset := n\<rparr>, fl_failed := e\<rparr>)" for e
    using live_inv_consumed [OF inv n refl] .
  consider (quiet) "res = Inr None" "r' = ?r\<lparr>rs_consumed_offset := n\<rparr>"
    | (over) "res = Inl OffsetOverflow" "r' = ?r\<lparr>rs_consumed_offset := n\<rparr>" "two64 \<le> n + rs_window ?r"
    | (grant) "res = Inr (Some \<lparr>bc_kind = rs_kind ?r, bc_flow = rs_flow ?r, bc_consumed_offset = n,
        bc_credit_limit = n + rs_window ?r\<rparr>)" "r' = ?r\<lparr>rs_consumed_offset := n, rs_credit_limit := n + rs_window ?r\<rparr>"
        "rs_credit_limit ?r < n + rs_window ?r"
    using cc by (auto split: if_splits)
  then show ?thesis
  proof cases
    case quiet
    have "live_inv (s\<lparr>fl_recv := r'\<rparr>)" using keep [of "fl_failed s"] by (simp add: quiet)
    then show ?thesis using assms(1,2) by (simp add: quiet flow_inv_def in_flight_def)
  next
    case over
    show ?thesis using assms(1) keep [of "Some OffsetOverflow"] over(3) by (simp add: over(1,2) flow_inv_def in_flight_def)
  next
    case grant
    have "live_inv (s\<lparr>fl_recv := r', fl_credits := fl_credits s @ [\<lparr>bc_kind = rs_kind ?r, bc_flow = rs_flow ?r,
        bc_consumed_offset = n, bc_credit_limit = n + rs_window ?r\<rparr>]\<rparr>)"
      using inv wf' n grant(3) by (simp add: live_inv_def grant(2) credit_chain_grant)
    then show ?thesis using assms(1,2) by (simp add: grant flow_inv_def in_flight_def)
  qed
qed

lemma flow_inv_credit:
  assumes "flow_inv s" and "fl_failed s = None" and "fl_credits s = c # cs"
    and "apply_credit (fl_send s) c = (Inr b, s')"
  shows "flow_inv (s\<lparr>fl_send := s', fl_credits := cs\<rparr>)"
proof -
  have inv: "live_inv s" using assms(1) by (simp add: flow_inv_def)
  have r: "s' = (fl_send s)\<lparr>ss_consumed_offset := bc_consumed_offset c, ss_credit_limit := bc_credit_limit c\<rparr>"
    using credit_accepted [OF inv assms(3)] assms(4) by simp
  have le: "ss_next_offset (fl_send s) \<le> bc_credit_limit c" using inv assms(3) by (simp add: live_inv_def)
  have "live_inv (s\<lparr>fl_send := s', fl_credits := cs\<rparr>)"
    using inv assms(3) le by (auto simp: live_inv_def r)
  then show ?thesis using assms(1-3) by (simp add: flow_inv_def in_flight_def)
qed

lemma flow_inv_step: "flow_step s t \<Longrightarrow> flow_inv s \<Longrightarrow> flow_inv t"
proof (induction rule: flow_step.induct)
  case (refuse s rcd ds err r')
  then show ?case using record_accepted [of s rcd ds] by (simp add: flow_inv_def)
next
  case (refuse_end s fin ds err r')
  then show ?case using finish_accepted [of s fin ds] by (simp add: flow_inv_def)
next
  case (refuse_credit s c cs err s')
  then show ?case using credit_accepted [of s c cs] by (simp add: flow_inv_def)
next
  case (consume_quiet s n r')
  then show ?case using flow_inv_consume [of s n "Inr None" r'] by simp
next
  case (consume_grant s n c r')
  then show ?case using flow_inv_consume [of s n "Inr (Some c)" r'] by simp
next
  case (consume_error s n err r')
  then show ?case using flow_inv_consume [of s n "Inl err" r'] by simp
qed (simp_all add: flow_inv_send flow_inv_close flow_inv_deliver flow_inv_ended flow_inv_credit)

interpretation flow: inductive_invariant flow_init flow_step flow_inv
  by unfold_locales (auto intro: flow_inv_init flow_inv_step)

definition granted :: "BulkAccepted \<Rightarrow> BulkFlow \<Rightarrow> u64" where
  "granted acc f =
     (case f of HostToGuest \<Rightarrow> ba_host_to_guest_credit_limit acc | GuestToHost \<Rightarrow> ba_guest_to_host_credit_limit acc)"

lemma validate_against_Inr:
  assumes "validate_against acc offer kind flows = Inr acc'"
  shows "acc' = acc" and "ba_kind acc = kind" and "ba_flows acc = flows"
    and "ba_max_record_payload acc \<le> bo_max_record_payload offer"
    and "MIN_BULK_RECORD_PAYLOAD \<le> ba_max_record_payload acc" "ba_max_record_payload acc \<le> MAX_BULK_RECORD_PAYLOAD"
    and "ba_guest_to_host_credit_limit acc = bo_guest_to_host_credit_limit offer"
    and "granted acc f \<le> MAX_BULK_WINDOW" and "granted acc f \<noteq> 0 \<longleftrightarrow> flows AND flow_mask f \<noteq> 0"
  using assms
  by (auto simp: validate_against_def validate_offer_def granted_def Let_def validate_record_limit_def
      split: sum.splits if_splits BulkFlow.splits)

lemma recv_do_window: "rs_window (recv_do c r) = rs_window r"
  by (cases c) (auto simp: accept_record_def accept_finish_def consume_def try_res_def ok_or_def Let_def
      split: sum.split option.split)

lemma recv_run_window: "rs_window (fold recv_do cs r) = rs_window r"
  by (induction cs arbitrary: r) (simp_all add: recv_do_window)

lemma new_receive_window: "new_receive k f mx cl w = Inr r \<Longrightarrow> rs_window r = w"
  by (auto simp: new_receive_def split: sum.splits if_splits)

section \<open>Properties\<close>

text \<open>C33. Bulk transfer is exact: in every run of a sender and a receiver over ordered channels, with
  any mix of sends, deliveries, partial consumption and credit updates, what the destination got
  followed by what is in flight is exactly what was sent; the bytes not yet consumed never exceed
  the receiver's window; a receiver that accepted the finish marker has everything; and neither
  endpoint ever rejects its peer, except that a stream that reaches the end of the 64-bit offset
  space stops with an overflow error.\<close>

theorem flow_transfers_exactly:
  assumes "reachable flow_init flow_step s"
  shows "fl_delivered s @ in_flight s = fl_sent s \<and>
     length (fl_sent s) - rs_consumed_offset (fl_recv s) \<le> rs_window (fl_recv s) \<and>
     (rs_finished (fl_recv s) \<longrightarrow> fl_delivered s = fl_sent s \<and> ss_finished (fl_send s)) \<and>
     (fl_failed s \<noteq> None \<longrightarrow> fl_failed s = Some OffsetOverflow \<and>
        two64 \<le> length (fl_delivered s) + rs_window (fl_recv s))"
proof -
  have inv: "flow_inv s" using assms by (rule flow.inv_reachable)
  then have l: "live_inv s" by (simp add: flow_inv_def)
  have cons: "ss_credit_limit (fl_send s) \<le> rs_credit_limit (fl_recv s)"
    using l credit_chain_consumed unfolding live_inv_def by blast
  have bound: "length (fl_sent s) - rs_consumed_offset (fl_recv s) \<le> rs_window (fl_recv s)"
    using l cons by (auto simp: live_inv_def recv_wf_def)
  have fin: "fl_data s = [] \<and> ss_finished (fl_send s)" if "rs_finished (fl_recv s)"
    using l that by (cases "(fl_send s, True, rs_next_expected_offset (fl_recv s), fl_data s)" rule: data_chain.cases)
      (auto simp: live_inv_def)
  then have "rs_finished (fl_recv s) \<longrightarrow> fl_delivered s = fl_sent s \<and> ss_finished (fl_send s)"
    using inv by (auto simp: flow_inv_def in_flight_def)
  then show ?thesis using inv bound l by (auto simp: flow_inv_def live_inv_def recv_wf_def)
qed

text \<open>A small run: one record is sent, delivered and consumed.\<close>

definition demo_flow :: flow_system where
  "demo_flow = \<lparr>
     fl_send = \<lparr>ss_kind = TcpKind, ss_flow = HostToGuest, ss_max_record_payload = 16384, ss_next_offset = 0,
        ss_consumed_offset = 0, ss_credit_limit = 4, ss_finished = False\<rparr>,
     fl_recv = \<lparr>rs_kind = TcpKind, rs_flow = HostToGuest, rs_max_record_payload = 16384, rs_window = 4,
        rs_next_expected_offset = 0, rs_consumed_offset = 0, rs_credit_limit = 4, rs_finished = False\<rparr>,
     fl_data = [], fl_credits = [], fl_sent = [], fl_delivered = [], fl_failed = None\<rparr>"

lemma demo_flow_init: "flow_init demo_flow"
  unfolding flow_init_def
  by (rule exI [of _ TcpKind], rule exI [of _ HostToGuest], rule exI [of _ 16384], rule exI [of _ 4], rule exI [of _ 4])
    (simp add: demo_flow_def new_send_def new_receive_def validate_record_limit_def bulk_consts)

lemma demo_flow_sent:
  "reachable flow_init flow_step
     (demo_flow\<lparr>fl_send := (fl_send demo_flow)\<lparr>ss_next_offset := 3\<rparr>,
        fl_data := [Rec (msg_record 1 ((fl_send demo_flow)\<lparr>ss_next_offset := 3\<rparr>) 0 [7, 8, 9])],
        fl_sent := [7, 8, 9]\<rparr>)"
proof -
  have "admit (fl_send demo_flow) (length [7 :: u8, 8, 9]) = (Inr 0, (fl_send demo_flow)\<lparr>ss_next_offset := 3\<rparr>)"
    by (simp add: admit_ok demo_flow_def)
  moreover have "fl_failed demo_flow = None" by (simp add: demo_flow_def)
  ultimately have "flow_step demo_flow
      (demo_flow\<lparr>fl_send := (fl_send demo_flow)\<lparr>ss_next_offset := 3\<rparr>,
        fl_data := fl_data demo_flow @ [Rec (msg_record 1 ((fl_send demo_flow)\<lparr>ss_next_offset := 3\<rparr>) 0 [7, 8, 9])],
        fl_sent := fl_sent demo_flow @ [7, 8, 9]\<rparr>)" by (intro flow_step.send)
  with reach_init [of flow_init, OF demo_flow_init] have "reachable flow_init flow_step
      (demo_flow\<lparr>fl_send := (fl_send demo_flow)\<lparr>ss_next_offset := 3\<rparr>,
        fl_data := fl_data demo_flow @ [Rec (msg_record 1 ((fl_send demo_flow)\<lparr>ss_next_offset := 3\<rparr>) 0 [7, 8, 9])],
        fl_sent := fl_sent demo_flow @ [7, 8, 9]\<rparr>)" by (rule reach_step)
  then show ?thesis by (simp add: demo_flow_def)
qed

theorem flow_transfers_exactly_witness:
  "in_flight (demo_flow\<lparr>fl_send := (fl_send demo_flow)\<lparr>ss_next_offset := 3\<rparr>,
     fl_data := [Rec (msg_record 1 ((fl_send demo_flow)\<lparr>ss_next_offset := 3\<rparr>) 0 [7, 8, 9])],
     fl_sent := [7, 8, 9]\<rparr>) = [7, 8, 9]"
  using flow_transfers_exactly [OF demo_flow_sent, THEN conjunct1] by (simp add: demo_flow_def)

text \<open>C34. Credit never runs dry: whenever every record and every credit update has arrived and the
  destination reporting all it got brings no further grant, the sender may send more than half a
  window at once.\<close>

theorem flow_never_starves:
  assumes "reachable flow_init flow_step s" and "fl_data s = []" and "fl_credits s = []"
    and "fst (consume (fl_recv s) (rs_next_expected_offset (fl_recv s))) = Inr None"
  shows "available_credit (fl_send s) > rs_window (fl_recv s) div 2"
proof -
  let ?r = "fl_recv s"
  have l: "live_inv s" using flow.inv_reachable [OF assms(1)] by (simp add: flow_inv_def)
  then have wf: "recv_wf ?r" by (simp add: live_inv_def)
  have eq: "ss_next_offset (fl_send s) = rs_next_expected_offset ?r" "ss_credit_limit (fl_send s) = rs_credit_limit ?r"
    using l assms(2,3) by (simp_all add: live_inv_def)
  have le: "rs_consumed_offset ?r \<le> rs_next_expected_offset ?r" "0 < rs_window ?r" using wf by (simp_all add: recv_wf_def)
  have "rs_credit_limit ?r - rs_next_expected_offset ?r > rs_window ?r div 2 \<or>
      rs_next_expected_offset ?r + rs_window ?r \<le> rs_credit_limit ?r"
    using assms(4) unfolding consume_cases [OF wf le(1) order_refl] by (auto split: if_splits)
  then show ?thesis unfolding available_credit_def eq using le(2) by auto
qed

theorem flow_never_starves_witness:
  "available_credit (fl_send demo_flow) > rs_window (fl_recv demo_flow) div 2"
  by (rule flow_never_starves [OF reach_init [of flow_init, OF demo_flow_init]])
    (simp_all add: demo_flow_def consume_def fetch_sub64_def)

text \<open>C35. Each endpoint is safe against any peer: whatever sequence of records, finish markers,
  credit updates and local calls reaches it, a receiver never holds more unconsumed bytes than its
  window and never grants beyond it, and a sender never sends past the granted limit nor keeps
  more than the largest window unacknowledged.\<close>

theorem endpoints_bounded:
  assumes "new_receive k f mx cl w = Inr r" and "new_send k f mx cl = Inr s"
  shows "(let r' = fold recv_do calls r in
       rs_next_expected_offset r' - rs_consumed_offset r' \<le> w \<and>
       rs_credit_limit r' \<le> rs_consumed_offset r' + w \<and>
       rs_next_expected_offset r' \<le> rs_credit_limit r') \<and>
     (let s' = fold send_do scalls s in
       ss_next_offset s' \<le> ss_credit_limit s' \<and>
       ss_next_offset s' - ss_consumed_offset s' \<le> MAX_BULK_WINDOW)"
  using recv_run_wf [OF new_receive_wf [OF assms(1)], of calls] send_run_wf [OF new_send_wf [OF assms(2)], of scalls]
    recv_run_window [of calls r] new_receive_window [OF assms(1)]
  by (auto simp: Let_def recv_wf_def send_wf_def)

theorem endpoints_bounded_witness:
  "rs_credit_limit (fold recv_do [AcceptRecord \<lparr>br_id = 1, br_kind = TcpKind, br_flow = HostToGuest, br_offset = 9, br_payload = [1]\<rparr>,
      Consume 5] (fl_recv demo_flow)) \<le> 4"
proof -
  have n: "new_receive TcpKind HostToGuest 16384 4 4 = Inr (fl_recv demo_flow)"
    "new_send TcpKind HostToGuest 16384 4 = Inr (fl_send demo_flow)"
    by (simp_all add: demo_flow_def new_receive_def new_send_def validate_record_limit_def bulk_consts)
  show ?thesis
    using endpoints_bounded [OF n, of "[AcceptRecord \<lparr>br_id = 1, br_kind = TcpKind, br_flow = HostToGuest,
        br_offset = 9, br_payload = [1]\<rparr>, Consume 5]" "[]"]
    by (simp add: Let_def demo_flow_def accept_record_def consume_def validate_payload_len_def)
qed

text \<open>Negotiation opens exactly the flows that were agreed: an acceptance that passes validation
  keeps the offered limits, gives every enabled flow a positive credit from which both endpoints
  can be built, and gives a disabled flow none.\<close>

theorem negotiation_opens_flows:
  assumes "validate_against acc offer kind flows = Inr acc'"
  shows "acc' = acc \<and> ba_max_record_payload acc \<le> bo_max_record_payload offer \<and>
     granted acc GuestToHost = bo_guest_to_host_credit_limit offer \<and>
     (if flows AND flow_mask f = 0 then granted acc f = 0
      else \<exists>s r. new_send kind f (ba_max_record_payload acc) (granted acc f) = Inr s \<and>
             new_receive kind f (ba_max_record_payload acc) (granted acc f) (granted acc f) = Inr r \<and>
             0 < available_credit s)"
proof -
  note v = validate_against_Inr(1-7) [OF assms] validate_against_Inr(8,9) [OF assms, of f]
  have "\<exists>s r. new_send kind f (ba_max_record_payload acc) (granted acc f) = Inr s \<and>
      new_receive kind f (ba_max_record_payload acc) (granted acc f) (granted acc f) = Inr r \<and> 0 < available_credit s"
    if "flows AND flow_mask f \<noteq> 0"
    using v that by (auto simp: new_send_def new_receive_def available_credit_def validate_record_limit_def)
  moreover have "granted acc GuestToHost = ba_guest_to_host_credit_limit acc" by (simp add: granted_def)
  ultimately show ?thesis using v by auto
qed

theorem negotiation_opens_flows_witness:
  "\<exists>s. new_send TcpKind HostToGuest 65536 4096 = Inr s \<and> 0 < available_credit s"
proof -
  let ?a = "\<lparr>ba_kind = TcpKind, ba_flows = 3, ba_format = 1, ba_max_record_payload = 65536,
      ba_host_to_guest_credit_limit = 4096, ba_guest_to_host_credit_limit = DEFAULT_BULK_WINDOW\<rparr>"
  have "validate_against ?a tcp_offer TcpKind 3 = Inr ?a"
    by (simp add: validate_against_def validate_offer_def tcp_offer_def new_offer_def validate_record_limit_def bulk_consts
        BULK_FLOW_MASK_HOST_TO_GUEST_def BULK_FLOW_MASK_GUEST_TO_HOST_def)
  from negotiation_opens_flows [OF this, of HostToGuest] show ?thesis
    by (auto simp: granted_def BULK_FLOW_MASK_HOST_TO_GUEST_def)
qed

end
