(* ===== verification/Transport.thy ===== *)
theory Transport
  imports Bulk_Flow
begin

text \<open>
  \<^verbatim>\<open>crates/protocol/lib/transport.rs\<close>: the binding contract of the optional second console port,
  the correlation-identifier ranges of relay clients, the fixed-size lease records that assign
  them, and the framing of the dedicated bulk lane. Fixed-size byte arrays are lists with their
  length stated; 32-bit identifiers are natural numbers below \<open>2 ^ 32\<close>, with the checked
  arithmetic of the source written out.
\<close>

section \<open>Constants and types\<close>

definition DUAL_PORT_V1_PROFILE :: string where "DUAL_PORT_V1_PROFILE = ''dual-port-v1''"
definition AGENT_BULK_PORT_NAME :: string where "AGENT_BULK_PORT_NAME = ''agent-bulk''"
definition BULK_BINDING_SIZE :: nat where "BULK_BINDING_SIZE = 24"
definition BULK_BINDING_FORMAT_V1 :: u8 where "BULK_BINDING_FORMAT_V1 = 1"
definition CLIENT_INCARNATION_SIZE :: nat where "CLIENT_INCARNATION_SIZE = 16"
definition RELAY_CLIENT_LEASE_SIZE :: nat where "RELAY_CLIENT_LEASE_SIZE = 41"
definition RELAY_LEASE_FORMAT_V1 :: u8 where "RELAY_LEASE_FORMAT_V1 = 1"
definition LOCAL_SHM_FORMAT_V1 :: u8 where "LOCAL_SHM_FORMAT_V1 = 1"
definition BULK_HELLO_MAGIC :: "u8 list" where "BULK_HELLO_MAGIC = [0x4d, 0x53, 0x42, 0x42]"
definition BULK_ACK_MAGIC :: "u8 list" where "BULK_ACK_MAGIC = [0x4d, 0x53, 0x42, 0x41]"
definition RELAY_CLIENT_MAGIC :: "u8 list" where "RELAY_CLIENT_MAGIC = [0x4d, 0x53, 0x42, 0x4c]"
definition RELAY_CLIENT_CONNECTED :: u8 where "RELAY_CLIENT_CONNECTED = 1"
definition RELAY_CLIENT_DISCONNECTED_ACK :: u8 where "RELAY_CLIENT_DISCONNECTED_ACK = 2"

abbreviation two32 :: nat where "two32 \<equiv> 4294967296"
abbreviation u32_max :: nat where "u32_max \<equiv> 4294967295"

definition AGENT_RELAY_MAX_CLIENTS :: nat where "AGENT_RELAY_MAX_CLIENTS = 128"
definition AGENT_RELAY_ID_RANGE_STEP :: nat where "AGENT_RELAY_ID_RANGE_STEP = u32_max div AGENT_RELAY_MAX_CLIENTS"

record BulkTransportReady =
  btr_profile :: string
  btr_port :: string
  btr_connection_id :: "u8 list"

type_synonym ClientIncarnation = "u8 list"

record RelayLeaseReady =
  rlr_max_format :: u8

record LocalTransportReady =
  ltr_max_format :: u8

record IncarnatedBulkFrame =
  ibf_incarnation :: ClientIncarnation
  ibf_frame :: "u8 list"
  ibf_record :: BulkRecord

record RelayClientConnected =
  rcc_id_start :: nat
  rcc_id_end_exclusive :: nat
  rcc_incarnation :: ClientIncarnation

record RelayClientDisconnectedAck =
  rca_id_start :: nat
  rca_id_end_exclusive :: nat
  rca_incarnation :: ClientIncarnation

section \<open>Capabilities\<close>

definition dual_port_v1 :: "u8 list \<Rightarrow> BulkTransportReady" where
  "dual_port_v1 connection_id =
     \<lparr>btr_profile = DUAL_PORT_V1_PROFILE, btr_port = AGENT_BULK_PORT_NAME, btr_connection_id = connection_id\<rparr>"

definition validate_dual_port_v1 :: "BulkTransportReady \<Rightarrow> u8 list \<Rightarrow> ('i, 'c) ProtocolError + unit" where
  "validate_dual_port_v1 ready expected_id =
     (if btr_profile ready \<noteq> DUAL_PORT_V1_PROFILE
      then Inl (InvalidBulkBinding (''unexpected profile '' @ btr_profile ready))
      else if btr_port ready \<noteq> AGENT_BULK_PORT_NAME
      then Inl (InvalidBulkBinding (''unexpected port '' @ btr_port ready))
      else if btr_connection_id ready \<noteq> expected_id
      then Inl (InvalidBulkBinding ''connection ID does not match bulk port'')
      else Inr ())"

definition range_lease_v1 :: RelayLeaseReady where
  "range_lease_v1 = \<lparr>rlr_max_format = RELAY_LEASE_FORMAT_V1\<rparr>"

definition lease_select_supported :: "RelayLeaseReady \<Rightarrow> u8 \<Rightarrow> u8 option" where
  "lease_select_supported ready host_max =
     (let selected = min (rlr_max_format ready) host_max
      in if RELAY_LEASE_FORMAT_V1 \<le> selected then Some selected else None)"

definition shared_arena_v1 :: LocalTransportReady where
  "shared_arena_v1 = \<lparr>ltr_max_format = LOCAL_SHM_FORMAT_V1\<rparr>"

definition local_select_supported :: "LocalTransportReady \<Rightarrow> u8 \<Rightarrow> u8 option" where
  "local_select_supported ready client_max =
     (let selected = min (ltr_max_format ready) client_max
      in if LOCAL_SHM_FORMAT_V1 \<le> selected then Some selected else None)"

section \<open>Correlation ranges\<close>

definition checked_add32 :: "nat \<Rightarrow> nat \<Rightarrow> nat option" where
  "checked_add32 a b = (if a + b < two32 then Some (a + b) else None)"

definition checked_mul32 :: "nat \<Rightarrow> nat \<Rightarrow> nat option" where
  "checked_mul32 a b = (if a * b < two32 then Some (a * b) else None)"

definition relay_client_id_range :: "nat \<Rightarrow> (nat \<times> nat) option" where
  "relay_client_id_range slot =
     (if slot \<ge> AGENT_RELAY_MAX_CLIENTS then None
      else case checked_mul32 slot AGENT_RELAY_ID_RANGE_STEP of
             None \<Rightarrow> None
           | Some offset \<Rightarrow>
               (case checked_add32 offset 1 of
                  None \<Rightarrow> None
                | Some a \<Rightarrow>
                    (case checked_add32 offset AGENT_RELAY_ID_RANGE_STEP of None \<Rightarrow> None | Some b \<Rightarrow> Some (a, b))))"

definition relay_client_slot :: "nat \<Rightarrow> nat option" where
  "relay_client_slot i =
     (let slot = i div AGENT_RELAY_ID_RANGE_STEP in
      case relay_client_id_range slot of
        None \<Rightarrow> None
      | Some (id_start, id_end_exclusive) \<Rightarrow> if id_start \<le> i \<and> i < id_end_exclusive then Some slot else None)"

definition validate_relay_client_range :: "nat \<Rightarrow> nat \<Rightarrow> nat option" where
  "validate_relay_client_range id_start id_end_exclusive =
     (case relay_client_slot id_start of
        None \<Rightarrow> None
      | Some slot \<Rightarrow> if relay_client_id_range slot = Some (id_start, id_end_exclusive) then Some slot else None)"

section \<open>The binding handshake\<close>

definition encode_binding :: "u8 list \<Rightarrow> u8 list \<Rightarrow> u8 list" where
  "encode_binding magic connection_id =
     magic @ [BULK_BINDING_FORMAT_V1, BULK_PROTOCOL_VERSION, 0, 0] @ connection_id"

definition decode_binding :: "u8 list \<Rightarrow> u8 list \<Rightarrow> string \<Rightarrow> ('i, 'c) ProtocolError + u8 list" where
  "decode_binding bytes expected_magic label =
     (if length bytes \<noteq> BULK_BINDING_SIZE
      then Inl (InvalidBulkBinding (label @ '' is '' @ show_nat (length bytes) @ '' bytes, expected ''
             @ show_nat BULK_BINDING_SIZE))
      else if take 4 bytes \<noteq> expected_magic
      then Inl (InvalidBulkBinding (''invalid '' @ label @ '' magic''))
      else if bytes ! 4 \<noteq> BULK_BINDING_FORMAT_V1
      then Inl (InvalidBulkBinding (''unsupported '' @ label @ '' format '' @ show_nat (unat (bytes ! 4))))
      else if bytes ! 5 \<noteq> BULK_PROTOCOL_VERSION
      then Inl (InvalidBulkBinding (''unsupported '' @ label @ '' minimum generation '' @ show_nat (unat (bytes ! 5))))
      else if take 2 (drop 6 bytes) \<noteq> [0, 0]
      then Inl (InvalidBulkBinding (''nonzero reserved bytes in '' @ label))
      else Inr (drop 8 bytes))"

definition encode_bulk_hello :: "u8 list \<Rightarrow> u8 list" where
  "encode_bulk_hello connection_id = encode_binding BULK_HELLO_MAGIC connection_id"

definition encode_bulk_ack :: "u8 list \<Rightarrow> u8 list" where
  "encode_bulk_ack connection_id = encode_binding BULK_ACK_MAGIC connection_id"

definition decode_bulk_hello :: "u8 list \<Rightarrow> ('i, 'c) ProtocolError + u8 list" where
  "decode_bulk_hello bytes = decode_binding bytes BULK_HELLO_MAGIC ''hello''"

definition decode_bulk_ack :: "u8 list \<Rightarrow> u8 list \<Rightarrow> ('i, 'c) ProtocolError + unit" where
  "decode_bulk_ack bytes expected_id =
     (case decode_binding bytes BULK_ACK_MAGIC ''acknowledgement'' of
        Inl e \<Rightarrow> Inl e
      | Inr actual_id \<Rightarrow>
          if actual_id \<noteq> expected_id
          then Inl (InvalidBulkBinding ''acknowledgement connection ID does not match hello'')
          else Inr ())"

section \<open>The dedicated bulk lane\<close>

definition try_decode_incarnated_bulk_from_bytes ::
  "u8 list \<Rightarrow> (('i, 'c) ProtocolError + IncarnatedBulkFrame option) \<times> u8 list" where
  "try_decode_incarnated_bulk_from_bytes bytes =
     (let length_offset = CLIENT_INCARNATION_SIZE in
      if length bytes < length_offset + 4 then (Inr None, bytes)
      else let frame_len = from_be (take 4 (drop length_offset bytes)) in
        if frame_len > MAX_FRAME_SIZE then (Inl (FrameTooLarge frame_len MAX_FRAME_SIZE), bytes)
        else if frame_len < FRAME_HEADER_SIZE + BULK_HEADER_SIZE + 1
        then (Inl (InvalidBulkFrame ''dedicated bulk record has no payload''), bytes)
        else let tot = CLIENT_INCARNATION_SIZE + 4 + frame_len in
          if length bytes < tot then (Inr None, bytes)
          else let packet = take tot bytes; rest = drop tot bytes;
                   incarnation = take CLIENT_INCARNATION_SIZE packet;
                   frame = drop CLIENT_INCARNATION_SIZE packet
               in if frame ! 8 \<noteq> FLAG_BULK
                  then (Inl (InvalidBulkFrame ''non-bulk frame arrived on dedicated bulk lane''), rest)
                  else let fid = of_nat (from_be (take 4 (drop 4 frame)));
                           body = drop (4 + FRAME_HEADER_SIZE) frame
                       in try_res (decode_bulk_body fid body MAX_BULK_RECORD_PAYLOAD) rest (\<lambda>rcd.
                            (Inr (Some \<lparr>ibf_incarnation = incarnation, ibf_frame = frame, ibf_record = rcd\<rparr>), rest)))"

section \<open>Lease records\<close>

definition encode_relay_client_lease :: "u8 \<Rightarrow> RelayClientConnected \<Rightarrow> u8 list" where
  "encode_relay_client_lease event lease =
     be_bytes 4 (RELAY_CLIENT_LEASE_SIZE - 4) @ [0, 0, 0, 0, 0] @ RELAY_CLIENT_MAGIC
     @ [RELAY_LEASE_FORMAT_V1, event, 0, 0] @ be_bytes 4 (rcc_id_start lease)
     @ be_bytes 4 (rcc_id_end_exclusive lease) @ rcc_incarnation lease"

definition encode_relay_client_connected :: "RelayClientConnected \<Rightarrow> u8 list" where
  "encode_relay_client_connected connected = encode_relay_client_lease RELAY_CLIENT_CONNECTED connected"

definition encode_relay_client_disconnected_ack :: "RelayClientDisconnectedAck \<Rightarrow> u8 list" where
  "encode_relay_client_disconnected_ack ack =
     encode_relay_client_lease RELAY_CLIENT_DISCONNECTED_ACK
       \<lparr>rcc_id_start = rca_id_start ack, rcc_id_end_exclusive = rca_id_end_exclusive ack,
        rcc_incarnation = rca_incarnation ack\<rparr>"

definition try_decode_relay_client_lease_from_bytes ::
  "u8 list \<Rightarrow> u8 \<Rightarrow> (('i, 'c) ProtocolError + RelayClientConnected option) \<times> u8 list" where
  "try_decode_relay_client_lease_from_bytes bytes expected_event =
     (if length bytes < 13 then (Inr None, bytes)
      else if take 4 (drop 9 bytes) \<noteq> RELAY_CLIENT_MAGIC then (Inr None, bytes)
      else if length bytes < RELAY_CLIENT_LEASE_SIZE then (Inr None, bytes)
      else if from_be (take 4 bytes) \<noteq> RELAY_CLIENT_LEASE_SIZE - 4
              \<or> take 5 (drop 4 bytes) \<noteq> [0, 0, 0, 0, 0]
              \<or> bytes ! 13 \<noteq> RELAY_LEASE_FORMAT_V1
              \<or> bytes ! 14 \<noteq> expected_event
              \<or> take 2 (drop 15 bytes) \<noteq> [0, 0]
      then (Inl (InvalidBulkBinding ''malformed relay client lease frame''), bytes)
      else let frame = take RELAY_CLIENT_LEASE_SIZE bytes in
        (Inr (Some \<lparr>rcc_id_start = from_be (take 4 (drop 17 frame)),
                    rcc_id_end_exclusive = from_be (take 4 (drop 21 frame)),
                    rcc_incarnation = drop 25 frame\<rparr>),
         drop RELAY_CLIENT_LEASE_SIZE bytes))"

definition try_decode_relay_client_connected_from_bytes ::
  "u8 list \<Rightarrow> (('i, 'c) ProtocolError + RelayClientConnected option) \<times> u8 list" where
  "try_decode_relay_client_connected_from_bytes bytes =
     try_decode_relay_client_lease_from_bytes bytes RELAY_CLIENT_CONNECTED"

definition try_decode_relay_client_disconnected_ack_from_bytes ::
  "u8 list \<Rightarrow> (('i, 'c) ProtocolError + RelayClientDisconnectedAck option) \<times> u8 list" where
  "try_decode_relay_client_disconnected_ack_from_bytes bytes =
     (case try_decode_relay_client_lease_from_bytes bytes RELAY_CLIENT_DISCONNECTED_ACK of
        (Inl e, rest) \<Rightarrow> (Inl e, rest)
      | (Inr None, rest) \<Rightarrow> (Inr None, rest)
      | (Inr (Some lease), rest) \<Rightarrow>
          (Inr (Some \<lparr>rca_id_start = rcc_id_start lease, rca_id_end_exclusive = rcc_id_end_exclusive lease,
                      rca_incarnation = rcc_incarnation lease\<rparr>), rest))"

section \<open>Ranges\<close>

lemma relay_step: "AGENT_RELAY_ID_RANGE_STEP = 33554431"
  by (simp add: AGENT_RELAY_ID_RANGE_STEP_def AGENT_RELAY_MAX_CLIENTS_def)

lemma relay_client_id_range_eq:
  "relay_client_id_range slot =
     (if slot < 128 then Some (slot * AGENT_RELAY_ID_RANGE_STEP + 1, Suc slot * AGENT_RELAY_ID_RANGE_STEP) else None)"
  by (auto simp: relay_client_id_range_def AGENT_RELAY_MAX_CLIENTS_def checked_mul32_def checked_add32_def relay_step)

lemma relay_client_slot_eq:
  "relay_client_slot i = Some slot \<longleftrightarrow>
     slot < 128 \<and> slot * AGENT_RELAY_ID_RANGE_STEP < i \<and> i < Suc slot * AGENT_RELAY_ID_RANGE_STEP"
proof -
  let ?S = AGENT_RELAY_ID_RANGE_STEP
  have S: "0 < ?S" by (simp add: relay_step)
  have d: "i div ?S = slot \<longleftrightarrow> slot * ?S \<le> i \<and> i < Suc slot * ?S"
    using S by (auto simp: relay_step)
  show ?thesis
    unfolding relay_client_slot_def Let_def relay_client_id_range_eq using d by auto
qed

section \<open>Bindings\<close>

lemma decode_binding_iff:
  assumes "length magic = 4"
  shows "decode_binding bytes magic label = (Inr i :: ('i, 'c) ProtocolError + u8 list) \<longleftrightarrow>
    length i = 16 \<and> bytes = encode_binding magic i"
proof
  assume d: "decode_binding bytes magic label = (Inr i :: ('i, 'c) ProtocolError + u8 list)"
  then have len: "length bytes = 24" and m: "take 4 bytes = magic" and f: "bytes ! 4 = BULK_BINDING_FORMAT_V1"
    and v: "bytes ! 5 = BULK_PROTOCOL_VERSION" and z: "take 2 (drop 6 bytes) = [0, 0]" and i: "i = drop 8 bytes"
    by (auto simp: decode_binding_def BULK_BINDING_SIZE_def split: if_splits)
  have "drop 4 bytes = bytes ! 4 # bytes ! 5 # drop 6 bytes"
    using len Cons_nth_drop_Suc [of 4 bytes] Cons_nth_drop_Suc [of 5 bytes] by simp
  moreover have "drop 6 bytes = take 2 (drop 6 bytes) @ drop 8 bytes"
    using append_take_drop_id [of 2 "drop 6 bytes"] by simp
  ultimately have "bytes = take 4 bytes @ [bytes ! 4, bytes ! 5] @ take 2 (drop 6 bytes) @ drop 8 bytes"
    using append_take_drop_id [of 4 bytes] by simp
  then show "length i = 16 \<and> bytes = encode_binding magic i"
    using len by (simp add: encode_binding_def m f v z i)
next
  assume a: "length i = 16 \<and> bytes = encode_binding magic i"
  obtain a b c d where "magic = [a, b, c, d]" using assms by (auto simp: length_Suc_conv numeral_eq_Suc)
  then show "decode_binding bytes magic label = (Inr i :: ('i, 'c) ProtocolError + u8 list)"
    using a by (simp add: decode_binding_def encode_binding_def BULK_BINDING_SIZE_def)
qed

section \<open>Leases\<close>

definition lease_wf :: "RelayClientConnected \<Rightarrow> bool" where
  "lease_wf lease \<longleftrightarrow> rcc_id_start lease < two32 \<and> rcc_id_end_exclusive lease < two32 \<and>
     length (rcc_incarnation lease) = CLIENT_INCARNATION_SIZE"

definition lease_bytes :: "RelayClientConnected \<Rightarrow> u8 list option" where
  "lease_bytes lease = (if lease_wf lease then Some (encode_relay_client_connected lease) else None)"

lemma lease_layout:
  assumes "lease_wf lease"
  shows "encode_relay_client_lease event lease =
      [0, 0, 0, 37, 0, 0, 0, 0, 0, 0x4d, 0x53, 0x42, 0x4c, 1, event, 0, 0]
      @ be_bytes 4 (rcc_id_start lease) @ be_bytes 4 (rcc_id_end_exclusive lease) @ rcc_incarnation lease"
    and "length (encode_relay_client_lease event lease) = 41"
  using assms
  by (simp_all add: encode_relay_client_lease_def RELAY_CLIENT_LEASE_SIZE_def RELAY_CLIENT_MAGIC_def
      RELAY_LEASE_FORMAT_V1_def be_bytes_numeral lease_wf_def CLIENT_INCARNATION_SIZE_def)

lemma decode_lease_encoded:
  assumes "lease_wf lease"
  shows "try_decode_relay_client_lease_from_bytes (encode_relay_client_lease event lease @ rest) event =
    (Inr (Some lease), rest)"
proof -
  let ?h = "[0, 0, 0, 37, 0, 0, 0, 0, 0, 0x4d, 0x53, 0x42, 0x4c, 1, event, 0, 0] :: u8 list"
  let ?a = "be_bytes 4 (rcc_id_start lease)" and ?b = "be_bytes 4 (rcc_id_end_exclusive lease)"
  have inc: "length (rcc_incarnation lease) = 16" using assms by (simp add: lease_wf_def CLIENT_INCARNATION_SIZE_def)
  have b: "from_be ?a = rcc_id_start lease" "from_be ?b = rcc_id_end_exclusive lease"
    using assms by (simp_all add: lease_wf_def from_be_be_bytes)
  have f: "take 41 (encode_relay_client_lease event lease @ rest) = encode_relay_client_lease event lease"
    "drop 41 (encode_relay_client_lease event lease @ rest) = rest" using lease_layout(2) [OF assms] by simp_all
  have "take 4 (drop 17 (encode_relay_client_lease event lease)) = ?a"
    "take 4 (drop 21 (encode_relay_client_lease event lease)) = ?b"
    "drop 25 (encode_relay_client_lease event lease) = rcc_incarnation lease"
    using inc by (simp_all add: lease_layout(1) [OF assms])
  moreover have "from_be [0, 0, 0, 37 :: u8] = 37" by (simp add: from_be_def)
  ultimately show ?thesis
    unfolding try_decode_relay_client_lease_from_bytes_def RELAY_CLIENT_LEASE_SIZE_def f Let_def b
    using inc by (simp add: lease_layout(1) [OF assms] RELAY_CLIENT_MAGIC_def RELAY_LEASE_FORMAT_V1_def b)
qed

lemma decode_lease_prefix:
  assumes "lease_wf lease" and "k < 41"
  shows "try_decode_relay_client_lease_from_bytes (take k (encode_relay_client_lease event lease)) e =
    (Inr None, take k (encode_relay_client_lease event lease))"
  using assms(2) lease_layout(2) [OF assms(1), of event]
  by (simp add: try_decode_relay_client_lease_from_bytes_def RELAY_CLIENT_LEASE_SIZE_def)

interpretation lease: byte_codec lease_bytes
  "try_decode_relay_client_connected_from_bytes :: u8 list \<Rightarrow> (('i, 'c) ProtocolError + RelayClientConnected option) \<times> u8 list"
  by unfold_locales
    (auto simp: lease_bytes_def try_decode_relay_client_connected_from_bytes_def encode_relay_client_connected_def
      decode_lease_encoded decode_lease_prefix lease_layout(2) try_decode_relay_client_lease_from_bytes_def [of "[]"]
      split: if_splits)

section \<open>The lane\<close>

definition lane_frame_ok :: "IncarnatedBulkFrame \<Rightarrow> bool" where
  "lane_frame_ok x \<longleftrightarrow> length (ibf_incarnation x) = CLIENT_INCARNATION_SIZE \<and> record_fits (ibf_record x) \<and>
     raw_bytes (bulk_frame (ibf_record x)) = Some (ibf_frame x)"

definition lane_bytes :: "IncarnatedBulkFrame \<Rightarrow> u8 list option" where
  "lane_bytes x = (if lane_frame_ok x then Some (ibf_incarnation x @ ibf_frame x) else None)"

lemma lane_frame_layout:
  assumes "lane_frame_ok x"
  shows "ibf_frame x = be_bytes 4 (FRAME_HEADER_SIZE + length (bulk_body (ibf_record x)))
      @ be_bytes 4 (unat (br_id (ibf_record x))) @ [FLAG_BULK] @ bulk_body (ibf_record x)"
    and "FRAME_HEADER_SIZE + length (bulk_body (ibf_record x)) \<le> MAX_FRAME_SIZE"
    and "BULK_HEADER_SIZE + 1 \<le> length (bulk_body (ibf_record x))"
proof -
  show "ibf_frame x = be_bytes 4 (FRAME_HEADER_SIZE + length (bulk_body (ibf_record x)))
      @ be_bytes 4 (unat (br_id (ibf_record x))) @ [FLAG_BULK] @ bulk_body (ibf_record x)"
    "FRAME_HEADER_SIZE + length (bulk_body (ibf_record x)) \<le> MAX_FRAME_SIZE"
    using assms by (simp_all add: lane_frame_ok_def raw_bytes_Some bulk_frame_def frame_fits_def)
  show "BULK_HEADER_SIZE + 1 \<le> length (bulk_body (ibf_record x))"
    using assms by (cases "br_payload (ibf_record x)") (auto simp: lane_frame_ok_def length_bulk_body record_fits_def)
qed

lemma decode_lane_encoded:
  assumes "lane_frame_ok x"
  shows "try_decode_incarnated_bulk_from_bytes ((ibf_incarnation x @ ibf_frame x) @ rest) = (Inr (Some x), rest)"
proof -
  let ?r = "ibf_record x" and ?n = "FRAME_HEADER_SIZE + length (bulk_body (ibf_record x))"
  note l = lane_frame_layout [OF assms]
  have inc: "length (ibf_incarnation x) = CLIENT_INCARNATION_SIZE" and fit: "record_fits ?r"
    using assms by (simp_all add: lane_frame_ok_def)
  have len: "length (ibf_frame x) = 4 + ?n" by (simp add: l(1) FRAME_HEADER_SIZE_def)
  have n: "from_be (take 4 (drop CLIENT_INCARNATION_SIZE ((ibf_incarnation x @ ibf_frame x) @ rest))) = ?n"
    using inc frame_len_prefix [OF l(2)] by (simp add: l(1))
  have t: "take (CLIENT_INCARNATION_SIZE + 4 + ?n) ((ibf_incarnation x @ ibf_frame x) @ rest) = ibf_incarnation x @ ibf_frame x"
    "drop (CLIENT_INCARNATION_SIZE + 4 + ?n) ((ibf_incarnation x @ ibf_frame x) @ rest) = rest"
    using inc len by simp_all
  have flag: "ibf_frame x ! 8 = FLAG_BULK" by (simp add: l(1) nth_append)
  have i: "of_nat (from_be (take 4 (drop 4 (ibf_frame x)))) = br_id ?r" by (simp add: l(1) u32_be)
  have body: "drop (4 + FRAME_HEADER_SIZE) (ibf_frame x) = bulk_body ?r" by (simp add: l(1) FRAME_HEADER_SIZE_def)
  have "length (br_payload ?r) \<le> MAX_BULK_RECORD_PAYLOAD" using fit by (simp add: record_fits_def)
  note d = decode_bulk_body_encoded [OF fit this order_refl]
  have c: "\<not> length ((ibf_incarnation x @ ibf_frame x) @ rest) < CLIENT_INCARNATION_SIZE + 4"
    "\<not> length ((ibf_incarnation x @ ibf_frame x) @ rest) < CLIENT_INCARNATION_SIZE + 4 + ?n"
    "\<not> ?n > MAX_FRAME_SIZE" "\<not> ?n < FRAME_HEADER_SIZE + BULK_HEADER_SIZE + 1"
    using inc len l(2,3) by simp_all
  show ?thesis
    unfolding try_decode_incarnated_bulk_from_bytes_def Let_def n t if_not_P [OF c(1)] if_not_P [OF c(2)]
      if_not_P [OF c(3)] if_not_P [OF c(4)]
    using inc by (simp add: flag i body d)
qed

lemma decode_lane_prefix:
  assumes "lane_frame_ok x" and "k < length (ibf_incarnation x @ ibf_frame x)"
  shows "try_decode_incarnated_bulk_from_bytes (take k (ibf_incarnation x @ ibf_frame x)) =
    (Inr None, take k (ibf_incarnation x @ ibf_frame x))"
proof (cases "k < CLIENT_INCARNATION_SIZE + 4")
  case True
  then have "length (take k (ibf_incarnation x @ ibf_frame x)) < CLIENT_INCARNATION_SIZE + 4" by simp
  then show ?thesis by (simp only: try_decode_incarnated_bulk_from_bytes_def Let_def if_True)
next
  case False
  let ?b = "take k (ibf_incarnation x @ ibf_frame x)"
  let ?n = "FRAME_HEADER_SIZE + length (bulk_body (ibf_record x))"
  note l = lane_frame_layout [OF assms(1)]
  have inc: "length (ibf_incarnation x) = CLIENT_INCARNATION_SIZE" using assms(1) by (simp add: lane_frame_ok_def)
  have len: "length (ibf_frame x) = 4 + ?n" by (simp add: l(1) FRAME_HEADER_SIZE_def)
  have lb: "length ?b = k" using assms(2) by simp
  have "take 4 (drop CLIENT_INCARNATION_SIZE ?b) = take 4 (ibf_frame x)"
    using False inc by (simp add: drop_take take_take min_absorb1)
  then have n: "from_be (take 4 (drop CLIENT_INCARNATION_SIZE ?b)) = ?n"
    using frame_len_prefix [OF l(2)] by (simp add: l(1))
  have c: "\<not> length ?b < CLIENT_INCARNATION_SIZE + 4" "\<not> ?n > MAX_FRAME_SIZE"
    "\<not> ?n < FRAME_HEADER_SIZE + BULK_HEADER_SIZE + 1" "length ?b < CLIENT_INCARNATION_SIZE + 4 + ?n"
    using assms(2) False inc len l(2,3) unfolding lb by simp_all
  show ?thesis
    unfolding try_decode_incarnated_bulk_from_bytes_def Let_def n if_not_P [OF c(1)] if_not_P [OF c(2)]
      if_not_P [OF c(3)] if_P [OF c(4)] ..
qed

interpretation lane: byte_codec lane_bytes
  "try_decode_incarnated_bulk_from_bytes :: u8 list \<Rightarrow> (('i, 'c) ProtocolError + IncarnatedBulkFrame option) \<times> u8 list"
proof
  fix x bs and rest :: "u8 list"
  assume "lane_bytes x = Some bs"
  then have x: "lane_frame_ok x" and bs: "bs = ibf_incarnation x @ ibf_frame x"
    by (auto simp: lane_bytes_def split: if_splits)
  show "try_decode_incarnated_bulk_from_bytes (bs @ rest) = (Inr (Some x), rest)"
    unfolding bs by (rule decode_lane_encoded [OF x])
  show "try_decode_incarnated_bulk_from_bytes (take k bs) = (Inr None, take k bs)" if "k < length bs" for k
    using that unfolding bs by (rule decode_lane_prefix [OF x])
next
  show "try_decode_incarnated_bulk_from_bytes [] = (Inr None, [])"
    by (simp add: try_decode_incarnated_bulk_from_bytes_def)
qed

section \<open>Properties\<close>

text \<open>C36. Correlation identifiers have at most one owner: an identifier belongs to a slot exactly when
  it lies in the range assigned to that slot, so different slots never share one; all slots below
  the client limit have a range of the same size; and a pair of bounds validates exactly when it
  is the range of the slot returned.\<close>

theorem relay_ranges_partition:
  "(relay_client_slot i = Some slot \<longleftrightarrow> (\<exists>a b. relay_client_id_range slot = Some (a, b) \<and> a \<le> i \<and> i < b)) \<and>
   (slot < AGENT_RELAY_MAX_CLIENTS \<longleftrightarrow>
      (\<exists>a. relay_client_id_range slot = Some (a, a + (AGENT_RELAY_ID_RANGE_STEP - 1)) \<and>
           a + (AGENT_RELAY_ID_RANGE_STEP - 1) < two32)) \<and>
   (validate_relay_client_range a b = Some slot \<longleftrightarrow> relay_client_id_range slot = Some (a, b))"
proof (intro conjI)
  show "relay_client_slot i = Some slot \<longleftrightarrow> (\<exists>a b. relay_client_id_range slot = Some (a, b) \<and> a \<le> i \<and> i < b)"
    by (auto simp: relay_client_slot_eq relay_client_id_range_eq)
  show "slot < AGENT_RELAY_MAX_CLIENTS \<longleftrightarrow>
      (\<exists>a. relay_client_id_range slot = Some (a, a + (AGENT_RELAY_ID_RANGE_STEP - 1)) \<and>
           a + (AGENT_RELAY_ID_RANGE_STEP - 1) < two32)"
    by (auto simp: relay_client_id_range_eq relay_step AGENT_RELAY_MAX_CLIENTS_def)
  show "validate_relay_client_range a b = Some slot \<longleftrightarrow> relay_client_id_range slot = Some (a, b)"
  proof
    assume "relay_client_id_range slot = Some (a, b)"
    moreover from this have "relay_client_slot a = Some slot"
      by (auto simp: relay_client_slot_eq relay_client_id_range_eq relay_step split: if_splits)
    ultimately show "validate_relay_client_range a b = Some slot" by (simp add: validate_relay_client_range_def)
  qed (auto simp: validate_relay_client_range_def split: option.splits if_splits)
qed

text \<open>C37. The binding handshake is exact: a hello decodes to a connection identity exactly when it is
  that identity's encoding, an acknowledgement is accepted exactly when it is the encoding of the
  expected identity, a hello never passes for an acknowledgement, and the advertisement built for
  an identity validates against that identity alone.\<close>

theorem binding_handshake_exact:
  assumes "length i = 16"
  shows "(decode_bulk_hello bytes = (Inr i :: ('i, 'c) ProtocolError + u8 list) \<longleftrightarrow> bytes = encode_bulk_hello i) \<and>
     (decode_bulk_ack bytes i = (Inr () :: ('i, 'c) ProtocolError + unit) \<longleftrightarrow> bytes = encode_bulk_ack i) \<and>
     decode_bulk_ack (encode_bulk_hello j) i \<noteq> (Inr () :: ('i, 'c) ProtocolError + unit) \<and>
     (validate_dual_port_v1 (dual_port_v1 j) i = (Inr () :: ('i, 'c) ProtocolError + unit) \<longleftrightarrow> j = i)"
proof -
  have m: "length BULK_HELLO_MAGIC = 4" "length BULK_ACK_MAGIC = 4" "BULK_HELLO_MAGIC \<noteq> BULK_ACK_MAGIC"
    by (simp_all add: BULK_HELLO_MAGIC_def BULK_ACK_MAGIC_def)
  have ack: "decode_bulk_ack b i = (Inr () :: ('i, 'c) ProtocolError + unit) \<longleftrightarrow> b = encode_bulk_ack i" for b
  proof -
    have "decode_bulk_ack b i = (Inr () :: ('i, 'c) ProtocolError + unit) \<longleftrightarrow>
        decode_binding b BULK_ACK_MAGIC ''acknowledgement'' = (Inr i :: ('i, 'c) ProtocolError + u8 list)"
      by (auto simp: decode_bulk_ack_def split: sum.split)
    then show ?thesis using decode_binding_iff [OF m(2)] assms by (auto simp: encode_bulk_ack_def)
  qed
  have "decode_bulk_hello bytes = (Inr i :: ('i, 'c) ProtocolError + u8 list) \<longleftrightarrow> bytes = encode_bulk_hello i"
    using decode_binding_iff [OF m(1)] assms by (auto simp: decode_bulk_hello_def encode_bulk_hello_def)
  moreover have "encode_bulk_hello j \<noteq> encode_bulk_ack i"
    by (simp add: encode_bulk_hello_def encode_bulk_ack_def encode_binding_def BULK_HELLO_MAGIC_def BULK_ACK_MAGIC_def)
  moreover have "validate_dual_port_v1 (dual_port_v1 j) i = (Inr () :: ('i, 'c) ProtocolError + unit) \<longleftrightarrow> j = i"
    by (simp add: validate_dual_port_v1_def dual_port_v1_def)
  ultimately show ?thesis using ack by simp
qed

theorem binding_handshake_exact_witness:
  "decode_bulk_hello (encode_bulk_hello (replicate 16 90)) = (Inr (replicate 16 90) :: (unit, unit) ProtocolError + u8 list)"
  using binding_handshake_exact [of "replicate 16 90" "encode_bulk_hello (replicate 16 90)", where 'i = unit and 'c = unit,
      THEN conjunct1] by simp

text \<open>C38. The dedicated lane delivers each record with its owner: any sequence of records prefixed by
  the incarnation of their client, cut anywhere inside a further one, is decoded to exactly those
  incarnations, records and forwardable frame bytes, and the cut bytes are kept.\<close>

theorem lane_stream_decodes:
  assumes "\<And>x. x \<in> set xs \<Longrightarrow> lane_frame_ok x" and "lane_frame_ok y"
    and "k < length (ibf_incarnation y @ ibf_frame y)"
  shows "drain (try_decode_incarnated_bulk_from_bytes ::
        u8 list \<Rightarrow> (('i, 'c) ProtocolError + IncarnatedBulkFrame option) \<times> u8 list) (Suc (length xs))
      (concat (map (\<lambda>x. ibf_incarnation x @ ibf_frame x) xs) @ take k (ibf_incarnation y @ ibf_frame y)) =
    (xs, take k (ibf_incarnation y @ ibf_frame y))"
proof -
  have m: "map (\<lambda>x. ibf_incarnation x @ ibf_frame x) xs = map (\<lambda>x. the (lane_bytes x)) xs"
    using assms(1) by (simp add: lane_bytes_def)
  have y: "lane_bytes y = Some (ibf_incarnation y @ ibf_frame y)" using assms(2) by (simp add: lane_bytes_def)
  show ?thesis
    unfolding m by (rule lane.drain_cut [OF _ y assms(3)]) (use assms(1) in \<open>simp add: lane_bytes_def\<close>)
qed

definition demo_lane :: IncarnatedBulkFrame where
  "demo_lane = \<lparr>ibf_incarnation = replicate 16 1,
     ibf_frame = [0, 0, 0, 18, 0, 0, 0, 7, 8, 2, 2, 0, 0, 0, 0, 0, 0, 0, 0, 0, 0, 66],
     ibf_record = \<lparr>br_id = 7, br_kind = TcpKind, br_flow = GuestToHost, br_offset = 0, br_payload = [66]\<rparr>\<rparr>"

lemma demo_lane_ok: "lane_frame_ok demo_lane"
  by (simp add: lane_frame_ok_def demo_lane_def record_fits_def raw_bytes_Some frame_fits_def bulk_frame_def bulk_body_def
      codec_consts CLIENT_INCARNATION_SIZE_def be_bytes_numeral FLAG_BULK_def)

theorem lane_stream_decodes_witness:
  "drain (try_decode_incarnated_bulk_from_bytes ::
        u8 list \<Rightarrow> ((unit, unit) ProtocolError + IncarnatedBulkFrame option) \<times> u8 list) (Suc (Suc 0))
     ((ibf_incarnation demo_lane @ ibf_frame demo_lane) @ take 20 (ibf_incarnation demo_lane @ ibf_frame demo_lane)) =
   ([demo_lane], take 20 (ibf_incarnation demo_lane @ ibf_frame demo_lane))"
proof -
  have "\<And>x. x \<in> set [demo_lane] \<Longrightarrow> lane_frame_ok x" using demo_lane_ok by simp
  moreover have "20 < length (ibf_incarnation demo_lane @ ibf_frame demo_lane)" by (simp add: demo_lane_def)
  ultimately show ?thesis
    using lane_stream_decodes [of "[demo_lane]" demo_lane 20, where 'i = unit and 'c = unit] demo_lane_ok
    by (simp del: drain.simps)
qed

text \<open>Lease records are exact and never swallow other traffic: a connected or acknowledgement
  record decodes to the range and incarnation it was built from and nothing after it is touched,
  each kind is refused where the other is expected, and a buffer that does not carry the lease
  mark is left for the ordinary decoder.\<close>

theorem lease_records_exact:
  assumes "lease_wf lease"
  shows "try_decode_relay_client_connected_from_bytes (encode_relay_client_connected lease @ rest) =
       (Inr (Some lease) :: ('i, 'c) ProtocolError + RelayClientConnected option, rest) \<and>
     try_decode_relay_client_disconnected_ack_from_bytes
         (encode_relay_client_disconnected_ack
            \<lparr>rca_id_start = rcc_id_start lease, rca_id_end_exclusive = rcc_id_end_exclusive lease,
             rca_incarnation = rcc_incarnation lease\<rparr> @ rest) =
       (Inr (Some \<lparr>rca_id_start = rcc_id_start lease, rca_id_end_exclusive = rcc_id_end_exclusive lease,
             rca_incarnation = rcc_incarnation lease\<rparr>) :: ('i, 'c) ProtocolError + RelayClientDisconnectedAck option, rest) \<and>
     try_decode_relay_client_disconnected_ack_from_bytes (encode_relay_client_connected lease @ rest) =
       (Inl (InvalidBulkBinding ''malformed relay client lease frame'') ::
          ('i, 'c) ProtocolError + RelayClientDisconnectedAck option, encode_relay_client_connected lease @ rest) \<and>
     (if take 4 (drop 9 buf) = RELAY_CLIENT_MAGIC then True
      else try_decode_relay_client_connected_from_bytes buf =
        (Inr None :: ('i, 'c) ProtocolError + RelayClientConnected option, buf))"
proof -
  have wrong: "try_decode_relay_client_lease_from_bytes (encode_relay_client_lease 1 lease @ rest) 2 =
      (Inl (InvalidBulkBinding ''malformed relay client lease frame'') ::
        ('i, 'c) ProtocolError + RelayClientConnected option, encode_relay_client_lease 1 lease @ rest)"
    using assms by (simp add: try_decode_relay_client_lease_from_bytes_def lease_layout RELAY_CLIENT_MAGIC_def
        RELAY_CLIENT_LEASE_SIZE_def lease_wf_def CLIENT_INCARNATION_SIZE_def)
  have other: "if take 4 (drop 9 buf) = RELAY_CLIENT_MAGIC then True
      else try_decode_relay_client_connected_from_bytes buf =
        (Inr None :: ('i, 'c) ProtocolError + RelayClientConnected option, buf)"
    by (simp add: try_decode_relay_client_connected_from_bytes_def try_decode_relay_client_lease_from_bytes_def)
  have eta: "\<lparr>rcc_id_start = rcc_id_start lease, rcc_id_end_exclusive = rcc_id_end_exclusive lease,
      rcc_incarnation = rcc_incarnation lease\<rparr> = lease" by simp
  show ?thesis
    by (intro conjI other)
      (simp_all add: try_decode_relay_client_connected_from_bytes_def try_decode_relay_client_disconnected_ack_from_bytes_def
        encode_relay_client_connected_def encode_relay_client_disconnected_ack_def decode_lease_encoded [OF assms]
        RELAY_CLIENT_CONNECTED_def RELAY_CLIENT_DISCONNECTED_ACK_def wrong eta)
qed

theorem lease_records_exact_witness:
  "try_decode_relay_client_connected_from_bytes
      (encode_relay_client_connected \<lparr>rcc_id_start = 1, rcc_id_end_exclusive = 9, rcc_incarnation = replicate 16 3\<rparr> @ [5]) =
    (Inr (Some \<lparr>rcc_id_start = 1, rcc_id_end_exclusive = 9, rcc_incarnation = replicate 16 3\<rparr>) ::
       (unit, unit) ProtocolError + RelayClientConnected option, [5])"
proof -
  have "lease_wf \<lparr>rcc_id_start = 1, rcc_id_end_exclusive = 9, rcc_incarnation = replicate 16 3\<rparr>"
    by (simp add: lease_wf_def CLIENT_INCARNATION_SIZE_def)
  from lease_records_exact [OF this, of "[5]", where 'i = unit and 'c = unit, THEN conjunct1] show ?thesis .
qed

end
