(* ===== verification/Memfs_Types.thy ===== *)
theory Memfs_Types
  imports Std_Maps
begin

text \<open>
  The data of the in-memory filesystem (\<^verbatim>\<open>crates/filesystem/lib/backends/memfs/types.rs\<close>,
  \<^verbatim>\<open>mod.rs\<close>, \<^verbatim>\<open>builder.rs\<close>) and the helpers it shares with the other backends
  (\<^verbatim>\<open>shared/platform.rs\<close>, \<^verbatim>\<open>shared/name_validation.rs\<close>, \<^verbatim>\<open>shared/init_binary.rs\<close>), for a
  Linux host. Nodes live in a heap, a list that only grows; an \<^verbatim>\<open>Arc\<close> is an index into it, and
  its strong count is the number of places that hold the index: the inode table, the open file
  and directory handles, and the local variables of the running operation. Files and system calls
  the code uses for staging are parameters.
\<close>

section \<open>Errors and modes\<close>

datatype errno =
    EIO | EBADF | EINVAL | EACCES | EPERM | EROFS | ENOSYS | ENOENT | ENODATA | EISDIR | ENOTDIR
  | ENOTEMPTY | ELOOP | ENAMETOOLONG | EEXIST | ENOSPC | EFBIG | EOPNOTSUPP | ENODEV | ENXIO | ERANGE
  | OsError nat

definition MODE_TYPE_MASK :: u32 where "MODE_TYPE_MASK = 0xF000"
definition MODE_REG :: u32 where "MODE_REG = 0x8000"
definition MODE_DIR :: u32 where "MODE_DIR = 0x4000"
definition MODE_LNK :: u32 where "MODE_LNK = 0xA000"
definition MODE_CHR :: u32 where "MODE_CHR = 0x2000"
definition MODE_BLK :: u32 where "MODE_BLK = 0x6000"
definition MODE_FIFO :: u32 where "MODE_FIFO = 0x1000"
definition MODE_SOCK :: u32 where "MODE_SOCK = 0xC000"
definition MODE_SETUID :: u32 where "MODE_SETUID = 0x800"
definition MODE_SETGID :: u32 where "MODE_SETGID = 0x400"

definition DIRENT_REG :: u32 where "DIRENT_REG = 8"
definition DIRENT_DIR :: u32 where "DIRENT_DIR = 4"
definition DIRENT_LNK :: u32 where "DIRENT_LNK = 10"
definition DIRENT_CHR :: u32 where "DIRENT_CHR = 2"
definition DIRENT_BLK :: u32 where "DIRENT_BLK = 6"
definition DIRENT_FIFO :: u32 where "DIRENT_FIFO = 1"
definition DIRENT_SOCK :: u32 where "DIRENT_SOCK = 12"
definition DT_UNKNOWN :: u32 where "DT_UNKNOWN = 0"

definition ACCESS_F_OK :: u32 where "ACCESS_F_OK = 0"
definition ACCESS_R_OK :: u32 where "ACCESS_R_OK = 4"
definition ACCESS_W_OK :: u32 where "ACCESS_W_OK = 2"
definition ACCESS_X_OK :: u32 where "ACCESS_X_OK = 1"

lemmas mode_consts = MODE_TYPE_MASK_def MODE_REG_def MODE_DIR_def MODE_LNK_def MODE_CHR_def MODE_BLK_def
  MODE_FIFO_def MODE_SOCK_def MODE_SETUID_def MODE_SETGID_def

definition dirent_type_from_mode :: "u32 \<Rightarrow> u32" where
  "dirent_type_from_mode file_type =
     (if file_type = MODE_LNK then DIRENT_LNK
      else if file_type = MODE_DIR then DIRENT_DIR
      else if file_type = MODE_CHR then DIRENT_CHR
      else if file_type = MODE_BLK then DIRENT_BLK
      else if file_type = MODE_FIFO then DIRENT_FIFO
      else if file_type = MODE_SOCK then DIRENT_SOCK
      else DIRENT_REG)"

definition GUEST_O_WRONLY :: u32 where "GUEST_O_WRONLY = 1"
definition GUEST_O_RDWR :: u32 where "GUEST_O_RDWR = 2"
definition GUEST_O_TRUNC :: u32 where "GUEST_O_TRUNC = 0x200"
definition GUEST_O_APPEND :: u32 where "GUEST_O_APPEND = 0x400"

section \<open>Names\<close>

type_synonym bytes = "u8 list"

definition NAME_MAX :: nat where "NAME_MAX = 255"

definition validate_name :: "bytes \<Rightarrow> errno + unit" where
  "validate_name bytes =
     (if bytes = [] then Inl EINVAL
      else if bytes = [46, 46] then Inl EPERM
      else if 47 \<in> set bytes then Inl EPERM
      else Inr ())"

definition validate_memfs_name :: "bytes \<Rightarrow> errno + unit" where
  "validate_memfs_name bytes =
     (case validate_name bytes of
        Inl e \<Rightarrow> Inl e
      | Inr _ \<Rightarrow>
          if bytes = [46] then Inl EPERM
          else if length bytes > NAME_MAX then Inl ENAMETOOLONG
          else Inr ())"

lemma validate_memfs_name_Inr:
  "validate_memfs_name bytes = Inr u \<longleftrightarrow>
     bytes \<noteq> [] \<and> bytes \<noteq> [46] \<and> bytes \<noteq> [46, 46] \<and> 47 \<notin> set bytes \<and> length bytes \<le> NAME_MAX"
  by (auto simp: validate_memfs_name_def validate_name_def)

section \<open>Nodes\<close>

definition ROOT_INODE :: u64 where "ROOT_INODE = 1"

datatype CachePolicy = Never | Auto | Always

record MemFsConfig =
  cfg_capacity :: "u64 option"
  cfg_max_inodes :: "u64 option"
  cfg_entry_timeout :: nat
  cfg_attr_timeout :: nat
  cfg_cache_policy :: CachePolicy
  cfg_writeback :: bool

record Timespec =
  ts_sec :: int
  ts_nsec :: int

record InodeMeta =
  im_uid :: u32
  im_gid :: u32
  im_mode :: u32
  im_rdev :: u32
  im_nlink :: u64
  im_size :: u64
  im_atime :: Timespec
  im_mtime :: Timespec
  im_ctime :: Timespec

datatype InodeContent =
    RegularFile bytes
  | Directory "(bytes \<times> u64) list" u64
  | Symlink bytes
  | Special

record MemNode =
  mn_inode :: u64
  mn_kind :: u32
  mn_lookup_refs :: u64
  mn_meta :: InodeMeta
  mn_content :: InodeContent
  mn_xattrs :: "(bytes \<times> bytes) list"

type_synonym addr = nat

record FileHandle =
  fh_node :: addr
  fh_flags :: u32

record MemDirEntry =
  de_name :: bytes
  de_inode :: u64
  de_offset :: u64
  de_file_type :: u32

record DirSnapshot =
  ds_entries :: "MemDirEntry list"

record DirHandle =
  dh_node :: addr
  dh_snapshot :: "DirSnapshot option"

record MemFs =
  mf_heap :: "MemNode list"
  mf_nodes :: "(u64 \<times> addr) list"
  mf_file_handles :: "(u64 \<times> FileHandle) list"
  mf_dir_handles :: "(u64 \<times> DirHandle) list"
  mf_next_inode :: u64
  mf_next_handle :: u64
  mf_used_bytes :: u64
  mf_inode_count :: u64
  mf_writeback :: bool
  mf_staging_file :: bytes
  mf_init_file :: bytes
  mf_cfg :: MemFsConfig

type_synonym 'a op_result = "(errno + 'a) \<times> MemFs"

record ctx =
  ctx_uid :: u32
  ctx_gid :: u32

section \<open>Replies\<close>

record stat64 =
  st_ino :: u64
  st_mode :: u32
  st_nlink :: u64
  st_rdev :: u32
  st_uid :: u32
  st_gid :: u32
  st_size :: int
  st_blksize :: int
  st_blocks :: int
  st_atime :: Timespec
  st_mtime :: Timespec
  st_ctime :: Timespec

record Entry =
  en_inode :: u64
  en_generation :: u64
  en_attr :: stat64
  en_attr_flags :: u32
  en_attr_timeout :: nat
  en_entry_timeout :: nat

text \<open>The reply options of the virtio-fs server: each value used here is one of its named flags or
  the empty set.\<close>

datatype OpenOptions = DIRECT_IO | KEEP_CACHE | CACHE_DIR | OPEN_EMPTY

text \<open>Rust's conversion of an unsigned to a signed 64-bit integer.\<close>

definition as_i64 :: "u64 \<Rightarrow> int" where
  "as_i64 n = (if n \<le> i64_max then int n else int n - int two64)"

definition wrap_i64 :: "int \<Rightarrow> int" where
  "wrap_i64 i = as_i64 (nat (i mod int two64))"

definition blocks_of :: "int \<Rightarrow> int" where
  "blocks_of sz = (let x = wrap_i64 (sz + 511) in if x \<ge> 0 then x div 512 else - ((- x) div 512))"

section \<open>The virtual init file\<close>

definition INIT_FILENAME :: bytes where
  "INIT_FILENAME = [105, 110, 105, 116, 46, 107, 114, 117, 110]"

definition INIT_INODE :: u64 where "INIT_INODE = 2"
definition INIT_HANDLE :: u64 where "INIT_HANDLE = 0"

definition is_init_name :: "bytes \<Rightarrow> bool" where
  "is_init_name name \<longleftrightarrow> name = INIT_FILENAME"

definition epoch :: Timespec where "epoch = \<lparr>ts_sec = 0, ts_nsec = 0\<rparr>"

definition init_stat :: "bytes \<Rightarrow> stat64" where
  "init_stat agentd_bytes =
     \<lparr>st_ino = INIT_INODE, st_mode = MODE_REG OR 0x1ED, st_nlink = 1, st_rdev = 0, st_uid = 0, st_gid = 0,
      st_size = as_i64 (length agentd_bytes), st_blksize = 4096, st_blocks = blocks_of (as_i64 (length agentd_bytes)),
      st_atime = epoch, st_mtime = epoch, st_ctime = epoch\<rparr>"

definition init_entry :: "bytes \<Rightarrow> nat \<Rightarrow> nat \<Rightarrow> Entry" where
  "init_entry agentd_bytes entry_timeout attr_timeout =
     \<lparr>en_inode = INIT_INODE, en_generation = 0, en_attr = init_stat agentd_bytes, en_attr_flags = 0,
      en_attr_timeout = attr_timeout, en_entry_timeout = entry_timeout\<rparr>"

definition read_init ::
  "bytes \<Rightarrow> (bytes \<Rightarrow> nat \<Rightarrow> u64 \<Rightarrow> errno + nat) \<Rightarrow> bytes \<Rightarrow> nat \<Rightarrow> u64 \<Rightarrow> errno + nat" where
  "read_init agentd_bytes write_from init_file sz offset =
     (let data_len = length agentd_bytes in
      if offset \<ge> data_len then Inr 0
      else let count = min sz (data_len - offset) in write_from init_file count offset)"

section \<open>The filesystem object\<close>

definition cache_open_options :: "MemFs \<Rightarrow> OpenOptions" where
  "cache_open_options fs =
     (case cfg_cache_policy (mf_cfg fs) of Never \<Rightarrow> DIRECT_IO | Auto \<Rightarrow> OPEN_EMPTY | Always \<Rightarrow> KEEP_CACHE)"

definition cache_dir_options :: "MemFs \<Rightarrow> OpenOptions" where
  "cache_dir_options fs =
     (case cfg_cache_policy (mf_cfg fs) of Never \<Rightarrow> DIRECT_IO | Auto \<Rightarrow> OPEN_EMPTY | Always \<Rightarrow> CACHE_DIR)"

definition normalize_handle_flags :: "bool \<Rightarrow> u32 \<Rightarrow> u32" where
  "normalize_handle_flags writeback flags =
     (if writeback
      then let flags = (if flags AND GUEST_O_WRONLY \<noteq> 0 then (flags AND NOT GUEST_O_WRONLY) OR GUEST_O_RDWR else flags)
           in flags AND NOT GUEST_O_APPEND
      else flags)"

text \<open>\<open>build\<close> of the builder, with the configuration it was given and the embedded agent binary; the
  two backing files it opens may fail.\<close>

definition build :: "MemFsConfig \<Rightarrow> Timespec \<Rightarrow> errno + bytes \<Rightarrow> errno + bytes \<Rightarrow> errno + MemFs" where
  "build cfg now create_init_file create_staging_file =
     (let root = \<lparr>mn_inode = ROOT_INODE, mn_kind = MODE_DIR, mn_lookup_refs = u64_max div 2,
            mn_meta = \<lparr>im_uid = 0, im_gid = 0, im_mode = MODE_DIR OR 0x1ED, im_rdev = 0, im_nlink = 2, im_size = 0,
              im_atime = now, im_mtime = now, im_ctime = now\<rparr>,
            mn_content = Directory [] ROOT_INODE, mn_xattrs = []\<rparr>
      in case create_init_file of
           Inl e \<Rightarrow> Inl e
         | Inr init_file \<Rightarrow>
             (case create_staging_file of
                Inl e \<Rightarrow> Inl e
              | Inr staging_file \<Rightarrow>
                  Inr \<lparr>mf_heap = [root], mf_nodes = [(ROOT_INODE, 0)], mf_file_handles = [], mf_dir_handles = [],
                       mf_next_inode = 3, mf_next_handle = 1, mf_used_bytes = 0, mf_inode_count = 1,
                       mf_writeback = False, mf_staging_file = staging_file, mf_init_file = init_file,
                       mf_cfg = cfg\<rparr>))"

text \<open>The options negotiated with the guest kernel, as sets of named flags.\<close>

datatype FsOption =
    DONT_MASK | BIG_WRITES | ASYNC_READ | PARALLEL_DIROPS | MAX_PAGES | HANDLE_KILLPRIV_V2
  | DO_READDIRPLUS | READDIRPLUS_AUTO | WRITEBACK_CACHE | OtherOption nat

definition memfs_init :: "MemFs \<Rightarrow> FsOption set \<Rightarrow> FsOption set op_result" where
  "memfs_init fs capable =
     (let wanted = {DONT_MASK, BIG_WRITES, ASYNC_READ, PARALLEL_DIROPS, MAX_PAGES, HANDLE_KILLPRIV_V2};
          opts = capable \<inter> wanted;
          opts = (if DO_READDIRPLUS \<in> capable then opts \<union> {DO_READDIRPLUS, READDIRPLUS_AUTO} else opts)
      in if cfg_writeback (mf_cfg fs) \<and> WRITEBACK_CACHE \<in> capable
         then (Inr (opts \<union> {WRITEBACK_CACHE}), fs\<lparr>mf_writeback := True\<rparr>)
         else (Inr opts, fs))"

definition memfs_destroy :: "MemFs \<Rightarrow> MemFs" where
  "memfs_destroy fs = fs\<lparr>mf_file_handles := [], mf_dir_handles := [], mf_nodes := []\<rparr>"

section \<open>Access to nodes\<close>

definition node_at :: "MemFs \<Rightarrow> addr \<Rightarrow> MemNode" where
  "node_at fs a = mf_heap fs ! a"

definition upd_node :: "addr \<Rightarrow> (MemNode \<Rightarrow> MemNode) \<Rightarrow> MemFs \<Rightarrow> MemFs" where
  "upd_node a f fs = fs\<lparr>mf_heap := (mf_heap fs)[a := f (node_at fs a)]\<rparr>"

definition upd_meta :: "addr \<Rightarrow> (InodeMeta \<Rightarrow> InodeMeta) \<Rightarrow> MemFs \<Rightarrow> MemFs" where
  "upd_meta a f = upd_node a (\<lambda>n. n\<lparr>mn_meta := f (mn_meta n)\<rparr>)"

text \<open>A new node, the effect of \<^verbatim>\<open>Arc::new\<close>.\<close>

definition new_node :: "MemNode \<Rightarrow> MemFs \<Rightarrow> addr \<times> MemFs" where
  "new_node n fs = (length (mf_heap fs), fs\<lparr>mf_heap := mf_heap fs @ [n]\<rparr>)"

text \<open>Updates of a directory's children; on any other node they do nothing, like an
  \<^verbatim>\<open>if let InodeContent::Directory\<close> without an alternative.\<close>

definition ch_insert :: "addr \<Rightarrow> bytes \<Rightarrow> u64 \<Rightarrow> MemFs \<Rightarrow> MemFs" where
  "ch_insert a name ino = upd_node a (\<lambda>n.
     case mn_content n of Directory ch p \<Rightarrow> n\<lparr>mn_content := Directory (bt_insert name ino ch) p\<rparr> | _ \<Rightarrow> n)"

definition ch_remove :: "addr \<Rightarrow> bytes \<Rightarrow> MemFs \<Rightarrow> MemFs" where
  "ch_remove a name = upd_node a (\<lambda>n.
     case mn_content n of Directory ch p \<Rightarrow> n\<lparr>mn_content := Directory (bt_remove name ch) p\<rparr> | _ \<Rightarrow> n)"

definition set_parent :: "addr \<Rightarrow> u64 \<Rightarrow> MemFs \<Rightarrow> MemFs" where
  "set_parent a p' = upd_node a (\<lambda>n.
     case mn_content n of Directory ch p \<Rightarrow> n\<lparr>mn_content := Directory ch p'\<rparr> | _ \<Rightarrow> n)"

end
