(* ===== verification/Memfs_Inode.thy ===== *)
theory Memfs_Inode
  imports Memfs_Types
begin

text \<open>
  \<^verbatim>\<open>memfs/inode.rs\<close> and \<^verbatim>\<open>memfs/metadata.rs\<close>: inode allocation and eviction, byte accounting,
  attributes and access checks, and the lookup and forget requests of \<^verbatim>\<open>mod.rs\<close>. The clock is a
  parameter: an operation gets the readings it takes. The list \<open>locals\<close> holds the nodes that local
  variables of the caller keep alive while an inode is evicted.
\<close>

section \<open>Inodes\<close>

definition alloc_inode :: "MemFs \<Rightarrow> u64 op_result" where
  "alloc_inode fs =
     (case cfg_max_inodes (mf_cfg fs) of
        Some mx \<Rightarrow>
          if mf_inode_count fs \<ge> mx then (Inl ENOSPC, fs)
          else (Inr (mf_next_inode fs), fs\<lparr>mf_next_inode := fetch_add64 (mf_next_inode fs) 1,
                                         mf_inode_count := fetch_add64 (mf_inode_count fs) 1\<rparr>)
      | None \<Rightarrow> (Inr (mf_next_inode fs), fs\<lparr>mf_next_inode := fetch_add64 (mf_next_inode fs) 1,
                                          mf_inode_count := fetch_add64 (mf_inode_count fs) 1\<rparr>))"

definition dec_inode_count :: "MemFs \<Rightarrow> MemFs" where
  "dec_inode_count fs = fs\<lparr>mf_inode_count := fetch_sub64 (mf_inode_count fs) 1\<rparr>"

definition get_node :: "MemFs \<Rightarrow> u64 \<Rightarrow> errno + addr" where
  "get_node fs ino = ok_or (map_of (mf_nodes fs) ino) EBADF"

definition build_stat_from_meta :: "u64 \<Rightarrow> InodeMeta \<Rightarrow> stat64" where
  "build_stat_from_meta ino meta =
     \<lparr>st_ino = ino, st_mode = im_mode meta, st_nlink = im_nlink meta, st_rdev = im_rdev meta,
      st_uid = im_uid meta, st_gid = im_gid meta, st_size = as_i64 (im_size meta), st_blksize = 4096,
      st_blocks = blocks_of (as_i64 (im_size meta)), st_atime = im_atime meta, st_mtime = im_mtime meta,
      st_ctime = im_ctime meta\<rparr>"

definition build_stat :: "MemNode \<Rightarrow> stat64" where
  "build_stat node = build_stat_from_meta (mn_inode node) (mn_meta node)"

definition build_entry :: "MemFs \<Rightarrow> MemNode \<Rightarrow> Entry" where
  "build_entry fs node =
     \<lparr>en_inode = mn_inode node, en_generation = 0, en_attr = build_stat node, en_attr_flags = 0,
      en_attr_timeout = cfg_attr_timeout (mf_cfg fs), en_entry_timeout = cfg_entry_timeout (mf_cfg fs)\<rparr>"

definition inc_lookup :: "addr \<Rightarrow> MemFs \<Rightarrow> MemFs" where
  "inc_lookup a = upd_node a (\<lambda>n. n\<lparr>mn_lookup_refs := fetch_add64 (mn_lookup_refs n) 1\<rparr>)"

section \<open>Byte accounting\<close>

text \<open>One pass of the compare-and-exchange loop: without interference the exchange succeeds.\<close>

definition reserve_bytes :: "MemFs \<Rightarrow> u64 \<Rightarrow> unit op_result" where
  "reserve_bytes fs amount =
     (if amount = 0 then (Inr (), fs)
      else case cfg_capacity (mf_cfg fs) of
             None \<Rightarrow> (Inr (), fs)
           | Some cap \<Rightarrow>
               try_res (ok_or (checked_add64 (mf_used_bytes fs) amount) ENOSPC) fs (\<lambda>new.
                 if new > cap then (Inl ENOSPC, fs) else (Inr (), fs\<lparr>mf_used_bytes := new\<rparr>)))"

definition release_bytes :: "MemFs \<Rightarrow> u64 \<Rightarrow> MemFs" where
  "release_bytes fs amount =
     (if amount > 0 then fs\<lparr>mf_used_bytes := fetch_sub64 (mf_used_bytes fs) amount\<rparr> else fs)"

section \<open>Eviction\<close>

definition strong_count :: "MemFs \<Rightarrow> addr list \<Rightarrow> addr \<Rightarrow> nat" where
  "strong_count fs locals a =
     length (filter (\<lambda>(ino, a'). a' = a) (mf_nodes fs)) + length (filter (\<lambda>(h, fh). fh_node fh = a) (mf_file_handles fs))
     + length (filter (\<lambda>(h, dh). dh_node dh = a) (mf_dir_handles fs)) + count_list locals a"

definition evict_inode :: "MemFs \<Rightarrow> addr list \<Rightarrow> u64 \<Rightarrow> MemFs" where
  "evict_inode fs locals ino =
     (let removed = map_of (mf_nodes fs) ino; fs = fs\<lparr>mf_nodes := bt_remove ino (mf_nodes fs)\<rparr> in
      case removed of
        None \<Rightarrow> fs
      | Some node \<Rightarrow>
          let fs = (if strong_count fs (node # locals) node = 1
                    then (case mn_content (node_at fs node) of
                            RegularFile data \<Rightarrow> if length data > 0 then release_bytes fs (length data) else fs
                          | _ \<Rightarrow> fs)
                    else fs)
          in dec_inode_count fs)"

definition forget_one :: "MemFs \<Rightarrow> addr list \<Rightarrow> u64 \<Rightarrow> u64 \<Rightarrow> MemFs" where
  "forget_one fs locals ino count =
     (case map_of (mf_nodes fs) ino of
        None \<Rightarrow> fs
      | Some node \<Rightarrow>
          let prev = mn_lookup_refs (node_at fs node);
              fs = upd_node node (\<lambda>n. n\<lparr>mn_lookup_refs := fetch_sub64 prev count\<rparr>) fs;
              fs = (if prev < count then upd_node node (\<lambda>n. n\<lparr>mn_lookup_refs := 0\<rparr>) fs else fs);
              refs = mn_lookup_refs (node_at fs node);
              nlink = im_nlink (mn_meta (node_at fs node))
          in if refs = 0 \<and> nlink = 0 then evict_inode fs locals ino else fs)"

definition try_evict :: "MemFs \<Rightarrow> addr list \<Rightarrow> u64 \<Rightarrow> MemFs" where
  "try_evict fs locals ino =
     (case map_of (mf_nodes fs) ino of
        None \<Rightarrow> fs
      | Some node \<Rightarrow>
          let refs = mn_lookup_refs (node_at fs node); nlink = im_nlink (mn_meta (node_at fs node))
          in if refs = 0 \<and> nlink = 0 then evict_inode fs locals ino else fs)"

definition mode_to_dtype :: "u32 \<Rightarrow> u32" where
  "mode_to_dtype mode_type = dirent_type_from_mode (mode_type AND MODE_TYPE_MASK)"

section \<open>Requests\<close>

definition memfs_lookup :: "MemFs \<Rightarrow> u64 \<Rightarrow> bytes \<Rightarrow> Entry op_result" where
  "memfs_lookup fs parent name =
     try_res (validate_memfs_name name) fs (\<lambda>_.
       if parent = ROOT_INODE \<and> is_init_name name
       then (Inr (init_entry (mf_init_file fs) (cfg_entry_timeout (mf_cfg fs)) (cfg_attr_timeout (mf_cfg fs))), fs)
       else try_res (get_node fs parent) fs (\<lambda>parent_node.
         case mn_content (node_at fs parent_node) of
           Directory children _ \<Rightarrow>
             try_res (ok_or (map_of children name) ENOENT) fs (\<lambda>child_ino.
               try_res (get_node fs child_ino) fs (\<lambda>child.
                 let fs = inc_lookup child fs in (Inr (build_entry fs (node_at fs child)), fs)))
         | _ \<Rightarrow> (Inl ENOTDIR, fs)))"

definition memfs_forget :: "MemFs \<Rightarrow> u64 \<Rightarrow> u64 \<Rightarrow> MemFs" where
  "memfs_forget fs ino count = (if ino = INIT_INODE then fs else forget_one fs [] ino count)"

fun batch_forget :: "MemFs \<Rightarrow> (u64 \<times> u64) list \<Rightarrow> MemFs" where
  "batch_forget fs [] = fs"
| "batch_forget fs ((ino, count) # requests) =
     (if ino = INIT_INODE then batch_forget fs requests
      else batch_forget (forget_one fs [] ino count) requests)"

definition do_getattr :: "MemFs \<Rightarrow> u64 \<Rightarrow> (stat64 \<times> nat) op_result" where
  "do_getattr fs ino =
     (if ino = INIT_INODE then (Inr (init_stat (mf_init_file fs), cfg_attr_timeout (mf_cfg fs)), fs)
      else try_res (get_node fs ino) fs (\<lambda>node.
        (Inr (build_stat (node_at fs node), cfg_attr_timeout (mf_cfg fs)), fs)))"

text \<open>The validity flags of a setattr request, as the set of those that are present.\<close>

datatype SetattrFlag = SA_SIZE | SA_MODE | SA_UID | SA_GID | SA_ATIME | SA_ATIME_NOW | SA_MTIME | SA_MTIME_NOW | SA_KILL_SUIDGID

text \<open>The size change: what it does to the bytes, or the error that ends the request.\<close>

definition setattr_size :: "MemFs \<Rightarrow> addr \<Rightarrow> int \<Rightarrow> u64 op_result" where
  "setattr_size fs node st_size' =
     (case mn_content (node_at fs node) of
        RegularFile data \<Rightarrow>
          let old_len = length data in
          if st_size' < 0 then (Inl EINVAL, fs)
          else let new_len = nat st_size' in
            if new_len > i64_max then (Inl EFBIG, fs)
            else if new_len < old_len
            then (Inr new_len,
                  release_bytes (upd_node node (\<lambda>n. n\<lparr>mn_content := RegularFile (take new_len data)\<rparr>) fs) (old_len - new_len))
            else if new_len > old_len
            then let growth = new_len - old_len in
                 (case reserve_bytes fs growth of
                    (Inl e, fs) \<Rightarrow> (Inl e, fs)
                  | (Inr _, fs) \<Rightarrow>
                      (Inr new_len, upd_node node (\<lambda>n. n\<lparr>mn_content := RegularFile (data @ replicate growth 0)\<rparr>) fs))
            else (Inr new_len, fs)
      | _ \<Rightarrow> (Inl EINVAL, fs))"

text \<open>The changes of the other attributes, in the order of the source; \<open>now1\<close> to \<open>now3\<close> are its
  clock readings.\<close>

definition setattr_meta ::
  "SetattrFlag set \<Rightarrow> stat64 \<Rightarrow> Timespec \<Rightarrow> Timespec \<Rightarrow> Timespec \<Rightarrow> InodeMeta \<Rightarrow> InodeMeta" where
  "setattr_meta valid attr now1 now2 now3 meta =
     (let meta = (if SA_MODE \<in> valid
                  then meta\<lparr>im_mode := (im_mode meta AND MODE_TYPE_MASK) OR (st_mode attr AND NOT MODE_TYPE_MASK)\<rparr>
                  else meta);
          meta = (if SA_UID \<in> valid then meta\<lparr>im_uid := st_uid attr\<rparr> else meta);
          meta = (if SA_GID \<in> valid then meta\<lparr>im_gid := st_gid attr\<rparr> else meta);
          meta = (if SA_ATIME \<in> valid
                  then if SA_ATIME_NOW \<in> valid then meta\<lparr>im_atime := now1\<rparr> else meta\<lparr>im_atime := st_atime attr\<rparr>
                  else meta);
          meta = (if SA_MTIME \<in> valid
                  then if SA_MTIME_NOW \<in> valid then meta\<lparr>im_mtime := now2\<rparr> else meta\<lparr>im_mtime := st_mtime attr\<rparr>
                  else meta);
          meta = (if SA_KILL_SUIDGID \<in> valid
                  then meta\<lparr>im_mode := im_mode meta AND NOT (MODE_SETUID OR MODE_SETGID)\<rparr> else meta)
      in meta\<lparr>im_ctime := now3\<rparr>)"

definition do_setattr ::
  "MemFs \<Rightarrow> u64 \<Rightarrow> stat64 \<Rightarrow> SetattrFlag set \<Rightarrow> Timespec \<Rightarrow> Timespec \<Rightarrow> Timespec \<Rightarrow> (stat64 \<times> nat) op_result" where
  "do_setattr fs ino attr valid now1 now2 now3 =
     (if ino = INIT_INODE then (Inl EACCES, fs)
      else try_res (get_node fs ino) fs (\<lambda>node.
        case (if SA_SIZE \<in> valid
              then (case setattr_size fs node (st_size attr) of
                      (Inl e, fs) \<Rightarrow> (Inl e, fs)
                    | (Inr new_len, fs) \<Rightarrow> (Inr (), upd_meta node (im_size_update (\<lambda>_. new_len)) fs))
              else (Inr (), fs)) of
          (Inl e, fs) \<Rightarrow> (Inl e, fs)
        | (Inr _, fs) \<Rightarrow>
            let fs = upd_meta node (setattr_meta valid attr now1 now2 now3) fs
            in (Inr (build_stat_from_meta ino (mn_meta (node_at fs node)), cfg_attr_timeout (mf_cfg fs)), fs)))"

definition do_access :: "MemFs \<Rightarrow> ctx \<Rightarrow> u64 \<Rightarrow> u32 \<Rightarrow> errno + unit" where
  "do_access fs cx ino msk =
     (if ino = INIT_INODE then (if msk AND ACCESS_W_OK \<noteq> 0 then Inl EACCES else Inr ())
      else case get_node fs ino of
        Inl e \<Rightarrow> Inl e
      | Inr node \<Rightarrow>
          let meta = mn_meta (node_at fs node) in
          if msk = ACCESS_F_OK then Inr ()
          else let mode = im_mode meta in
            if ctx_uid cx = 0
            then (if msk AND ACCESS_X_OK \<noteq> 0 \<and> mode AND 0x49 = 0 then Inl EACCES else Inr ())
            else let bits = (if im_uid meta = ctx_uid cx then drop_bit 6 mode AND 7
                             else if im_gid meta = ctx_gid cx then drop_bit 3 mode AND 7
                             else mode AND 7)
                 in if msk AND ACCESS_R_OK \<noteq> 0 \<and> bits AND 4 = 0 then Inl EACCES
                    else if msk AND ACCESS_W_OK \<noteq> 0 \<and> bits AND 2 = 0 then Inl EACCES
                    else if msk AND ACCESS_X_OK \<noteq> 0 \<and> bits AND 1 = 0 then Inl EACCES
                    else Inr ())"

end
