(* ===== verification/Memfs_Create.thy ===== *)
theory Memfs_Create
  imports Memfs_Inode
begin

text \<open>
  \<^verbatim>\<open>memfs/create_ops.rs\<close>: creation of files, directories, special files and symbolic links, and
  hard links. Each operation takes the one clock reading of its source.
\<close>

section \<open>Shared steps\<close>

text \<open>The metadata and the node every creating operation builds.\<close>

definition new_meta :: "ctx \<Rightarrow> u32 \<Rightarrow> u32 \<Rightarrow> u64 \<Rightarrow> u64 \<Rightarrow> Timespec \<Rightarrow> InodeMeta" where
  "new_meta cx mode rdev nlink sz now =
     \<lparr>im_uid = ctx_uid cx, im_gid = ctx_gid cx, im_mode = mode, im_rdev = rdev, im_nlink = nlink, im_size = sz,
      im_atime = now, im_mtime = now, im_ctime = now\<rparr>"

definition fresh_node :: "u64 \<Rightarrow> u32 \<Rightarrow> InodeMeta \<Rightarrow> InodeContent \<Rightarrow> MemNode" where
  "fresh_node ino kind meta content =
     \<lparr>mn_inode = ino, mn_kind = kind, mn_lookup_refs = 1, mn_meta = meta, mn_content = content, mn_xattrs = []\<rparr>"

text \<open>Insertion of a new name into a directory, common to the four creating operations: the inode
  allocation is undone when the name exists or the parent is no directory.\<close>

definition insert_child :: "MemFs \<Rightarrow> addr \<Rightarrow> bytes \<Rightarrow> u64 \<Rightarrow> unit op_result" where
  "insert_child fs parent_node name ino =
     (case mn_content (node_at fs parent_node) of
        Directory children _ \<Rightarrow>
          if map_of children name \<noteq> None then (Inl EEXIST, dec_inode_count fs)
          else (Inr (), ch_insert parent_node name ino fs)
      | _ \<Rightarrow> (Inl ENOTDIR, dec_inode_count fs))"

definition touch_dir :: "Timespec \<Rightarrow> InodeMeta \<Rightarrow> InodeMeta" where
  "touch_dir now meta = meta\<lparr>im_mtime := now, im_ctime := now\<rparr>"

definition register_node :: "u64 \<Rightarrow> addr \<Rightarrow> MemFs \<Rightarrow> MemFs" where
  "register_node ino node fs = fs\<lparr>mf_nodes := bt_insert ino node (mf_nodes fs)\<rparr>"

text \<open>A new file handle under the next free number.\<close>

definition add_handle :: "FileHandle \<Rightarrow> MemFs \<Rightarrow> u64 \<times> MemFs" where
  "add_handle fh fs =
     (let handle = mf_next_handle fs;
          fs = fs\<lparr>mf_next_handle := fetch_add64 handle 1\<rparr>
      in (handle, fs\<lparr>mf_file_handles := bt_insert handle fh (mf_file_handles fs)\<rparr>))"

section \<open>Operations\<close>

definition do_create ::
  "MemFs \<Rightarrow> ctx \<Rightarrow> u64 \<Rightarrow> bytes \<Rightarrow> u32 \<Rightarrow> u32 \<Rightarrow> u32 \<Rightarrow> Timespec \<Rightarrow> (Entry \<times> u64 option \<times> OpenOptions) op_result" where
  "do_create fs cx parent name mode flags umask now =
     try_res (validate_memfs_name name) fs (\<lambda>_.
       if parent = ROOT_INODE \<and> is_init_name name then (Inl EEXIST, fs)
       else try_res (get_node fs parent) fs (\<lambda>parent_node.
         case alloc_inode fs of
           (Inl e, fs) \<Rightarrow> (Inl e, fs)
         | (Inr ino, fs) \<Rightarrow>
             let effective_mode = MODE_REG OR (mode AND NOT umask AND 0xFFF);
                 (node, fs) = new_node (fresh_node ino MODE_REG (new_meta cx effective_mode 0 1 0 now) (RegularFile [])) fs
             in case insert_child fs parent_node name ino of
                  (Inl e, fs) \<Rightarrow> (Inl e, fs)
                | (Inr _, fs) \<Rightarrow>
                    let fs = upd_meta parent_node (touch_dir now) fs;
                        fs = register_node ino node fs;
                        handle_flags = normalize_handle_flags (mf_writeback fs) flags;
                        (handle, fs) = add_handle \<lparr>fh_node = node, fh_flags = handle_flags\<rparr> fs
                    in (Inr (build_entry fs (node_at fs node), Some handle, cache_open_options fs), fs)))"

definition do_mkdir ::
  "MemFs \<Rightarrow> ctx \<Rightarrow> u64 \<Rightarrow> bytes \<Rightarrow> u32 \<Rightarrow> u32 \<Rightarrow> Timespec \<Rightarrow> Entry op_result" where
  "do_mkdir fs cx parent name mode umask now =
     try_res (validate_memfs_name name) fs (\<lambda>_.
       if parent = ROOT_INODE \<and> is_init_name name then (Inl EEXIST, fs)
       else try_res (get_node fs parent) fs (\<lambda>parent_node.
         case alloc_inode fs of
           (Inl e, fs) \<Rightarrow> (Inl e, fs)
         | (Inr ino, fs) \<Rightarrow>
             let effective_mode = MODE_DIR OR (mode AND NOT umask AND 0xFFF);
                 (node, fs) = new_node (fresh_node ino MODE_DIR (new_meta cx effective_mode 0 2 4096 now) (Directory [] parent)) fs
             in case insert_child fs parent_node name ino of
                  (Inl e, fs) \<Rightarrow> (Inl e, fs)
                | (Inr _, fs) \<Rightarrow>
                    let fs = upd_meta parent_node (\<lambda>m. touch_dir now (m\<lparr>im_nlink := fetch_add64 (im_nlink m) 1\<rparr>)) fs;
                        fs = register_node ino node fs
                    in (Inr (build_entry fs (node_at fs node)), fs)))"

definition mknod_content :: "u32 \<Rightarrow> (u32 \<times> InodeContent) option" where
  "mknod_content file_type =
     (if file_type = MODE_REG then Some (MODE_REG, RegularFile [])
      else if file_type = MODE_BLK \<or> file_type = MODE_CHR \<or> file_type = MODE_FIFO \<or> file_type = MODE_SOCK
      then Some (file_type, Special)
      else None)"

definition do_mknod ::
  "MemFs \<Rightarrow> ctx \<Rightarrow> u64 \<Rightarrow> bytes \<Rightarrow> u32 \<Rightarrow> u32 \<Rightarrow> u32 \<Rightarrow> Timespec \<Rightarrow> Entry op_result" where
  "do_mknod fs cx parent name mode rdev umask now =
     try_res (validate_memfs_name name) fs (\<lambda>_.
       if parent = ROOT_INODE \<and> is_init_name name then (Inl EEXIST, fs)
       else try_res (get_node fs parent) fs (\<lambda>parent_node.
         case alloc_inode fs of
           (Inl e, fs) \<Rightarrow> (Inl e, fs)
         | (Inr ino, fs) \<Rightarrow>
             let file_type = mode AND MODE_TYPE_MASK;
                 effective_mode = file_type OR (mode AND NOT umask AND 0xFFF)
             in case mknod_content file_type of
                  None \<Rightarrow> (Inl EINVAL, dec_inode_count fs)
                | Some (kind, content) \<Rightarrow>
                    let (node, fs) = new_node (fresh_node ino kind (new_meta cx effective_mode rdev 1 0 now) content) fs
                    in case insert_child fs parent_node name ino of
                         (Inl e, fs) \<Rightarrow> (Inl e, fs)
                       | (Inr _, fs) \<Rightarrow>
                           let fs = upd_meta parent_node (touch_dir now) fs;
                               fs = register_node ino node fs
                           in (Inr (build_entry fs (node_at fs node)), fs)))"

definition do_symlink :: "MemFs \<Rightarrow> ctx \<Rightarrow> bytes \<Rightarrow> u64 \<Rightarrow> bytes \<Rightarrow> Timespec \<Rightarrow> Entry op_result" where
  "do_symlink fs cx linkname parent name now =
     try_res (validate_memfs_name name) fs (\<lambda>_.
       if parent = ROOT_INODE \<and> is_init_name name then (Inl EEXIST, fs)
       else try_res (get_node fs parent) fs (\<lambda>parent_node.
         case alloc_inode fs of
           (Inl e, fs) \<Rightarrow> (Inl e, fs)
         | (Inr ino, fs) \<Rightarrow>
             let (node, fs) = new_node (fresh_node ino MODE_LNK
                   (new_meta cx (MODE_LNK OR 0x1FF) 0 1 (length linkname) now) (Symlink linkname)) fs
             in case insert_child fs parent_node name ino of
                  (Inl e, fs) \<Rightarrow> (Inl e, fs)
                | (Inr _, fs) \<Rightarrow>
                    let fs = upd_meta parent_node (touch_dir now) fs;
                        fs = register_node ino node fs
                    in (Inr (build_entry fs (node_at fs node)), fs)))"

definition do_link :: "MemFs \<Rightarrow> u64 \<Rightarrow> u64 \<Rightarrow> bytes \<Rightarrow> Timespec \<Rightarrow> Entry op_result" where
  "do_link fs ino newparent newname now =
     try_res (validate_memfs_name newname) fs (\<lambda>_.
       if ino = INIT_INODE then (Inl EACCES, fs)
       else try_res (get_node fs ino) fs (\<lambda>node.
         if mn_kind (node_at fs node) = MODE_DIR then (Inl EPERM, fs)
         else try_res (get_node fs newparent) fs (\<lambda>parent_node.
           case mn_content (node_at fs parent_node) of
             Directory children _ \<Rightarrow>
               if map_of children newname \<noteq> None then (Inl EEXIST, fs)
               else let fs = ch_insert parent_node newname ino fs;
                        fs = upd_meta node (\<lambda>m. m\<lparr>im_nlink := fetch_add64 (im_nlink m) 1, im_ctime := now\<rparr>) fs;
                        fs = inc_lookup node fs;
                        fs = upd_meta parent_node (touch_dir now) fs
                    in (Inr (build_entry fs (node_at fs node)), fs)
           | _ \<Rightarrow> (Inl ENOTDIR, fs))))"

end
