(* ===== verification/Memfs_Remove.thy ===== *)
theory Memfs_Remove
  imports Memfs_Create
begin

text \<open>
  \<^verbatim>\<open>memfs/remove_ops.rs\<close>: unlink, rmdir and rename, with the rename flags. The nodes an operation
  holds in local variables when it evicts an inode are passed on, because they count as owners.
\<close>

section \<open>Unlink and rmdir\<close>

definition saturating_dec :: "InodeMeta \<Rightarrow> InodeMeta" where
  "saturating_dec m = m\<lparr>im_nlink := im_nlink m - 1\<rparr>"

definition do_unlink :: "MemFs \<Rightarrow> u64 \<Rightarrow> bytes \<Rightarrow> Timespec \<Rightarrow> unit op_result" where
  "do_unlink fs parent name now =
     try_res (validate_memfs_name name) fs (\<lambda>_.
       if parent = ROOT_INODE \<and> is_init_name name then (Inl EACCES, fs)
       else try_res (get_node fs parent) fs (\<lambda>parent_node.
         case mn_content (node_at fs parent_node) of
           Directory children _ \<Rightarrow>
             try_res (ok_or (map_of children name) ENOENT) fs (\<lambda>child_ino.
               let fs = ch_remove parent_node name fs in
               try_res (get_node fs child_ino) fs (\<lambda>child_node.
                 if mn_kind (node_at fs child_node) = MODE_DIR
                 then (Inl EISDIR, ch_insert parent_node name child_ino fs)
                 else let fs = upd_meta child_node (\<lambda>m. (saturating_dec m)\<lparr>im_ctime := now\<rparr>) fs;
                          fs = upd_meta parent_node (touch_dir now) fs
                      in (Inr (), try_evict fs [parent_node, child_node] child_ino)))
         | _ \<Rightarrow> (Inl ENOTDIR, fs)))"

definition dir_nonempty :: "MemNode \<Rightarrow> bool" where
  "dir_nonempty n = (case mn_content n of Directory children _ \<Rightarrow> children \<noteq> [] | _ \<Rightarrow> False)"

definition do_rmdir :: "MemFs \<Rightarrow> u64 \<Rightarrow> bytes \<Rightarrow> Timespec \<Rightarrow> unit op_result" where
  "do_rmdir fs parent name now =
     try_res (validate_memfs_name name) fs (\<lambda>_.
       if parent = ROOT_INODE \<and> is_init_name name then (Inl EACCES, fs)
       else try_res (get_node fs parent) fs (\<lambda>parent_node.
         case mn_content (node_at fs parent_node) of
           Directory children _ \<Rightarrow>
             try_res (ok_or (map_of children name) ENOENT) fs (\<lambda>child_ino.
               try_res (get_node fs child_ino) fs (\<lambda>child_node.
                 if mn_kind (node_at fs child_node) \<noteq> MODE_DIR then (Inl ENOTDIR, fs)
                 else if dir_nonempty (node_at fs child_node) then (Inl ENOTEMPTY, fs)
                 else let fs = ch_remove parent_node name fs;
                          fs = upd_meta child_node (\<lambda>m. m\<lparr>im_nlink := 0, im_ctime := now\<rparr>) fs;
                          fs = upd_meta parent_node (\<lambda>m. touch_dir now (saturating_dec m)) fs
                      in (Inr (), try_evict fs [parent_node, child_node] child_ino)))
         | _ \<Rightarrow> (Inl ENOTDIR, fs)))"

section \<open>Rename\<close>

definition RENAME_NOREPLACE :: u32 where "RENAME_NOREPLACE = 1"
definition RENAME_EXCHANGE :: u32 where "RENAME_EXCHANGE = 2"
definition KNOWN_RENAME_FLAGS :: u32 where "KNOWN_RENAME_FLAGS = RENAME_NOREPLACE OR RENAME_EXCHANGE"

definition set_ctime :: "Timespec \<Rightarrow> InodeMeta \<Rightarrow> InodeMeta" where
  "set_ctime now m = m\<lparr>im_ctime := now\<rparr>"

text \<open>The swap of two entries.\<close>

definition rename_exchange ::
  "MemFs \<Rightarrow> u64 \<Rightarrow> bytes \<Rightarrow> u64 \<Rightarrow> bytes \<Rightarrow> addr \<Rightarrow> addr \<Rightarrow> u64 \<Rightarrow> addr \<Rightarrow> u64 option \<Rightarrow> Timespec \<Rightarrow> unit op_result" where
  "rename_exchange fs olddir oldname newdir newname old_parent new_parent source_ino source_node dest_ino now =
     try_res (ok_or dest_ino ENOENT) fs (\<lambda>dest.
       try_res (get_node fs dest) fs (\<lambda>dest_node.
         let fs = ch_insert old_parent oldname dest fs;
             fs = ch_insert (if olddir = newdir then old_parent else new_parent) newname source_ino fs;
             fs = (if mn_kind (node_at fs source_node) = MODE_DIR \<and> olddir \<noteq> newdir
                   then set_parent source_node newdir fs else fs);
             fs = (if mn_kind (node_at fs dest_node) = MODE_DIR \<and> olddir \<noteq> newdir
                   then set_parent dest_node olddir fs else fs);
             fs = upd_meta source_node (set_ctime now) fs;
             fs = upd_meta dest_node (set_ctime now) fs;
             fs = upd_meta old_parent (touch_dir now) fs;
             fs = (if olddir \<noteq> newdir then upd_meta new_parent (touch_dir now) fs else fs)
         in (Inr (), fs)))"

text \<open>What happens to an existing destination before it is replaced; the result names the inode to
  evict afterwards.\<close>

definition rename_dest ::
  "MemFs \<Rightarrow> addr \<Rightarrow> bool \<Rightarrow> u64 option \<Rightarrow> Timespec \<Rightarrow> u64 option op_result" where
  "rename_dest fs new_parent source_is_dir dest_ino now =
     (case dest_ino of
        None \<Rightarrow> (Inr None, fs)
      | Some dest \<Rightarrow>
          try_res (get_node fs dest) fs (\<lambda>dest_node.
            let dest_is_dir = (mn_kind (node_at fs dest_node) = MODE_DIR) in
            if source_is_dir \<and> \<not> dest_is_dir then (Inl ENOTDIR, fs)
            else if \<not> source_is_dir \<and> dest_is_dir then (Inl EISDIR, fs)
            else if dest_is_dir \<and> dir_nonempty (node_at fs dest_node) then (Inl ENOTEMPTY, fs)
            else let fs = upd_meta dest_node (\<lambda>m. set_ctime now
                       (if dest_is_dir then m\<lparr>im_nlink := 0\<rparr> else saturating_dec m)) fs;
                     fs = (if dest_is_dir then upd_meta new_parent saturating_dec fs else fs)
                 in (Inr (Some dest), fs)))"

text \<open>The move itself and the bookkeeping after it.\<close>

definition rename_move ::
  "MemFs \<Rightarrow> u64 \<Rightarrow> bytes \<Rightarrow> u64 \<Rightarrow> bytes \<Rightarrow> addr \<Rightarrow> addr \<Rightarrow> u64 \<Rightarrow> addr \<Rightarrow> Timespec \<Rightarrow> MemFs" where
  "rename_move fs olddir oldname newdir newname old_parent new_parent source_ino source_node now =
     (let source_is_dir = (mn_kind (node_at fs source_node) = MODE_DIR);
          fs = ch_remove old_parent oldname fs;
          fs = ch_insert (if olddir = newdir then old_parent else new_parent) newname source_ino fs;
          fs = (if source_is_dir \<and> olddir \<noteq> newdir
                then let fs = upd_meta old_parent saturating_dec fs;
                         fs = upd_meta new_parent (\<lambda>m. m\<lparr>im_nlink := fetch_add64 (im_nlink m) 1\<rparr>) fs
                     in set_parent source_node newdir fs
                else fs);
          fs = upd_meta source_node (set_ctime now) fs;
          fs = upd_meta old_parent (touch_dir now) fs
      in if olddir \<noteq> newdir then upd_meta new_parent (touch_dir now) fs else fs)"

definition rename_replace ::
  "MemFs \<Rightarrow> u64 \<Rightarrow> bytes \<Rightarrow> u64 \<Rightarrow> bytes \<Rightarrow> addr \<Rightarrow> addr \<Rightarrow> u64 \<Rightarrow> addr \<Rightarrow> bool \<Rightarrow> u64 option \<Rightarrow> Timespec \<Rightarrow>
     unit op_result" where
  "rename_replace fs olddir oldname newdir newname old_parent new_parent source_ino source_node source_is_dir dest_ino now =
     (case rename_dest fs new_parent source_is_dir dest_ino now of
        (Inl e, fs) \<Rightarrow> (Inl e, fs)
      | (Inr evict_dest, fs) \<Rightarrow>
          let fs = rename_move fs olddir oldname newdir newname old_parent new_parent source_ino source_node now
          in (Inr (), case evict_dest of
                 None \<Rightarrow> fs
               | Some dest \<Rightarrow> try_evict fs [old_parent, new_parent, source_node] dest))"

definition do_rename ::
  "MemFs \<Rightarrow> u64 \<Rightarrow> bytes \<Rightarrow> u64 \<Rightarrow> bytes \<Rightarrow> u32 \<Rightarrow> Timespec \<Rightarrow> unit op_result" where
  "do_rename fs olddir oldname newdir newname flags now =
     try_res (validate_memfs_name oldname) fs (\<lambda>_.
     try_res (validate_memfs_name newname) fs (\<lambda>_.
       if flags AND NOT KNOWN_RENAME_FLAGS \<noteq> 0 then (Inl EINVAL, fs)
       else if flags AND RENAME_NOREPLACE \<noteq> 0 \<and> flags AND RENAME_EXCHANGE \<noteq> 0 then (Inl EINVAL, fs)
       else if olddir = ROOT_INODE \<and> is_init_name oldname then (Inl EACCES, fs)
       else if newdir = ROOT_INODE \<and> is_init_name newname then (Inl EACCES, fs)
       else if olddir = newdir \<and> oldname = newname then (Inr (), fs)
       else try_res (get_node fs olddir) fs (\<lambda>old_parent.
         try_res (if newdir = olddir then Inr old_parent else get_node fs newdir) fs (\<lambda>new_parent.
           case mn_content (node_at fs old_parent) of
             Directory old_children _ \<Rightarrow>
               try_res (ok_or (map_of old_children oldname) ENOENT) fs (\<lambda>source_ino.
               try_res (get_node fs source_ino) fs (\<lambda>source_node.
                 let source_is_dir = (mn_kind (node_at fs source_node) = MODE_DIR) in
                 case mn_content (node_at fs new_parent) of
                   Directory new_children _ \<Rightarrow>
                     let dest_ino = map_of new_children newname in
                     if flags AND RENAME_EXCHANGE \<noteq> 0
                     then rename_exchange fs olddir oldname newdir newname old_parent new_parent source_ino source_node
                            dest_ino now
                     else if flags AND RENAME_NOREPLACE \<noteq> 0 \<and> dest_ino \<noteq> None then (Inl EEXIST, fs)
                     else rename_replace fs olddir oldname newdir newname old_parent new_parent source_ino source_node
                            source_is_dir dest_ino now
                 | _ \<Rightarrow> (Inl ENOTDIR, fs)))
           | _ \<Rightarrow> (Inl ENOTDIR, fs)))))"

end
