(* ===== verification/Memfs_File.thy ===== *)
theory Memfs_File
  imports Memfs_Remove
begin

text \<open>
  \<^verbatim>\<open>memfs/file_ops.rs\<close>, \<^verbatim>\<open>memfs/special.rs\<close> and \<^verbatim>\<open>memfs/xattr_ops.rs\<close>: open, read, write, release
  and symlink targets, statfs, seeking and preallocation, and extended attributes. Data crosses to
  the guest through a staging file; the system calls on it and the guest's buffers are the
  parameter \<open>io\<close>.
\<close>

section \<open>The transfer interface\<close>

text \<open>\<open>io_pwrite buf\<close> is the return value of writing \<open>buf\<close> at the start of the staging file (an error,
  or the number of bytes written); \<open>io_write_from file count offset\<close> sends bytes of a file to the
  guest; \<open>io_read_to size\<close> is the outcome of filling the staging file from the guest together with
  the bytes it put there; \<open>io_pread file count\<close> reads the staging file back.\<close>

record io_api =
  io_pwrite :: "bytes \<Rightarrow> errno + nat"
  io_write_from :: "bytes \<Rightarrow> nat \<Rightarrow> u64 \<Rightarrow> errno + nat"
  io_read_to :: "nat \<Rightarrow> (errno + nat) \<times> bytes"
  io_pread :: "bytes \<Rightarrow> nat \<Rightarrow> errno + bytes"

text \<open>The contents of a file after \<open>buf\<close> has been written at its start.\<close>

definition overwrite :: "bytes \<Rightarrow> bytes \<Rightarrow> bytes" where
  "overwrite buf file = buf @ drop (length buf) file"

section \<open>Opening and closing\<close>

definition clear_privs :: "InodeMeta \<Rightarrow> InodeMeta" where
  "clear_privs m = m\<lparr>im_mode := im_mode m AND NOT (MODE_SETUID OR MODE_SETGID)\<rparr>"

text \<open>The two steps of opening with truncation, and the registration of a handle.\<close>

definition open_truncate :: "MemFs \<Rightarrow> addr \<Rightarrow> Timespec \<Rightarrow> MemFs" where
  "open_truncate fs node now =
     (case mn_content (node_at fs node) of
        RegularFile data \<Rightarrow>
          let old_len = length data;
              fs = upd_node node (\<lambda>n. n\<lparr>mn_content := RegularFile []\<rparr>) fs;
              fs = (if old_len > 0 then release_bytes fs old_len else fs)
          in upd_meta node (\<lambda>m. m\<lparr>im_size := 0, im_mtime := now, im_ctime := now\<rparr>) fs
      | _ \<Rightarrow> fs)"

definition open_kill_priv :: "Timespec \<Rightarrow> InodeMeta \<Rightarrow> InodeMeta" where
  "open_kill_priv now m =
     (if im_mode m AND (MODE_SETUID OR MODE_SETGID) \<noteq> 0 then (clear_privs m)\<lparr>im_ctime := now\<rparr> else m)"

definition do_open :: "MemFs \<Rightarrow> u64 \<Rightarrow> bool \<Rightarrow> u32 \<Rightarrow> Timespec \<Rightarrow> Timespec \<Rightarrow> (u64 option \<times> OpenOptions) op_result" where
  "do_open fs ino kill_priv flags now1 now2 =
     (if ino = INIT_INODE then (Inr (Some INIT_HANDLE, KEEP_CACHE), fs)
      else try_res (get_node fs ino) fs (\<lambda>node.
        if mn_kind (node_at fs node) = MODE_DIR then (Inl EISDIR, fs)
        else let open_flags = normalize_handle_flags (mf_writeback fs) flags;
                 fs = (if open_flags AND GUEST_O_TRUNC \<noteq> 0 then open_truncate fs node now1 else fs);
                 fs = (if kill_priv \<and> open_flags AND GUEST_O_TRUNC \<noteq> 0
                       then upd_meta node (open_kill_priv now2) fs else fs);
                 (handle, fs) = add_handle \<lparr>fh_node = node, fh_flags = open_flags\<rparr> fs
             in (Inr (Some handle, cache_open_options fs), fs)))"

definition do_release :: "MemFs \<Rightarrow> u64 \<Rightarrow> u64 \<Rightarrow> unit op_result" where
  "do_release fs ino handle =
     (if ino = INIT_INODE then (Inr (), fs)
      else case map_of (mf_file_handles fs) handle of
             None \<Rightarrow> (Inr (), fs)
           | Some fh \<Rightarrow>
               let fs = fs\<lparr>mf_file_handles := bt_remove handle (mf_file_handles fs)\<rparr>; node = fh_node fh in
               if mn_kind (node_at fs node) = MODE_REG \<and> strong_count fs [node] node = 1
               then (case mn_content (node_at fs node) of
                       RegularFile data \<Rightarrow>
                         (Inr (), if length data > 0 then release_bytes fs (length data) else fs)
                     | _ \<Rightarrow> (Inr (), fs))
               else (Inr (), fs))"

definition do_flush :: "u64 \<Rightarrow> u64 \<Rightarrow> errno + unit" where
  "do_flush ino handle = (if ino = INIT_INODE then Inr () else Inr ())"

definition do_readlink :: "MemFs \<Rightarrow> u64 \<Rightarrow> errno + bytes" where
  "do_readlink fs ino =
     (if ino = INIT_INODE then Inl EINVAL
      else case get_node fs ino of
             Inl e \<Rightarrow> Inl e
           | Inr node \<Rightarrow> (case mn_content (node_at fs node) of Symlink target \<Rightarrow> Inr target | _ \<Rightarrow> Inl EINVAL))"

section \<open>Reading and writing\<close>

definition do_read :: "MemFs \<Rightarrow> io_api \<Rightarrow> u64 \<Rightarrow> u64 \<Rightarrow> nat \<Rightarrow> u64 \<Rightarrow> nat op_result" where
  "do_read fs io ino handle sz offset =
     (if ino = INIT_INODE then (read_init (mf_init_file fs) (io_write_from io) (mf_init_file fs) sz offset, fs)
      else try_res (ok_or (map_of (mf_file_handles fs) handle) EBADF) fs (\<lambda>fh.
        case mn_content (node_at fs (fh_node fh)) of
          RegularFile data \<Rightarrow>
            if offset \<ge> length data then (Inr 0, fs)
            else let e = min (offset + sz) (length data);
                     slice = take (e - offset) (drop offset data);
                     count = length slice
                 in if count = 0 then (Inr 0, fs)
                    else (case io_pwrite io slice of
                            Inl err \<Rightarrow> (Inl err, fs)
                          | Inr written \<Rightarrow>
                              let fs = fs\<lparr>mf_staging_file := overwrite (take written slice) (mf_staging_file fs)\<rparr>
                              in (io_write_from io (mf_staging_file fs) count 0, fs))
        | _ \<Rightarrow> (Inl EISDIR, fs)))"

text \<open>The data after it has been extended with zeros as far as needed and \<open>buf\<close> has been copied into
  it at \<open>start\<close>.\<close>

definition splice :: "nat \<Rightarrow> bytes \<Rightarrow> bytes \<Rightarrow> bytes" where
  "splice start buf data =
     (let new_end = start + length buf; data = data @ replicate (new_end - length data) 0
      in take start data @ buf @ drop new_end data)"

text \<open>The part of a write that happens under the lock on the data.\<close>

definition write_data :: "MemFs \<Rightarrow> addr \<Rightarrow> bool \<Rightarrow> u64 \<Rightarrow> bytes \<Rightarrow> bool \<Rightarrow> Timespec \<Rightarrow> bytes \<Rightarrow> nat op_result" where
  "write_data fs node append_mode offset buf kill_priv now data =
     (let start = (if append_mode then length data else offset) in
      try_res (ok_or (checked_add64 start (length buf)) EFBIG) fs (\<lambda>new_end.
        if new_end > i64_max then (Inl EFBIG, fs)
        else case (if new_end > length data then reserve_bytes fs (new_end - length data) else (Inr (), fs)) of
               (Inl e, fs) \<Rightarrow> (Inl e, fs)
             | (Inr _, fs) \<Rightarrow>
                 let data = splice start buf data;
                     fs = upd_node node (\<lambda>n. n\<lparr>mn_content := RegularFile data\<rparr>) fs;
                     fs = upd_meta node (\<lambda>m. m\<lparr>im_size := length data, im_mtime := now, im_ctime := now\<rparr>) fs;
                     fs = (if kill_priv then upd_meta node clear_privs fs else fs)
                 in (Inr (length buf), fs)))"

definition do_write ::
  "MemFs \<Rightarrow> io_api \<Rightarrow> u64 \<Rightarrow> u64 \<Rightarrow> nat \<Rightarrow> u64 \<Rightarrow> bool \<Rightarrow> Timespec \<Rightarrow> nat op_result" where
  "do_write fs io ino handle sz offset kill_priv now =
     (if ino = INIT_INODE then (Inl EACCES, fs)
      else try_res (ok_or (map_of (mf_file_handles fs) handle) EBADF) fs (\<lambda>fh.
        case mn_content (node_at fs (fh_node fh)) of
          RegularFile data \<Rightarrow>
            let append_mode = (fh_flags fh AND GUEST_O_APPEND \<noteq> 0) in
            try_res (if append_mode then Inr ()
                     else case checked_add64 offset sz of
                            None \<Rightarrow> Inl EINVAL
                          | Some requested_end \<Rightarrow> if requested_end > i64_max then Inl EFBIG else Inr ()) fs (\<lambda>_.
              case io_read_to io sz of
                (Inl err, staged) \<Rightarrow> (Inl err, fs\<lparr>mf_staging_file := overwrite staged (mf_staging_file fs)\<rparr>)
              | (Inr count, staged) \<Rightarrow>
                  let fs = fs\<lparr>mf_staging_file := overwrite staged (mf_staging_file fs)\<rparr> in
                  if count = 0 then (Inr 0, fs)
                  else (case io_pread io (mf_staging_file fs) count of
                          Inl err \<Rightarrow> (Inl err, fs)
                        | Inr buf \<Rightarrow> write_data fs (fh_node fh) append_mode offset buf kill_priv now data))
        | _ \<Rightarrow> (Inl EISDIR, fs)))"

section \<open>Special operations\<close>

record statvfs64 =
  f_bsize :: u64
  f_frsize :: u64
  f_blocks :: u64
  f_bfree :: u64
  f_bavail :: u64
  f_files :: u64
  f_ffree :: u64
  f_favail :: u64
  f_namemax :: u64

definition do_statfs :: "MemFs \<Rightarrow> statvfs64" where
  "do_statfs fs =
     (let bsize = 4096;
          total_bytes = (case cfg_capacity (mf_cfg fs) of Some c \<Rightarrow> c | None \<Rightarrow> 2 ^ 50);
          total_inodes = (case cfg_max_inodes (mf_cfg fs) of Some n \<Rightarrow> n | None \<Rightarrow> 2 ^ 30);
          used = mf_used_bytes fs;
          used_ino = mf_inode_count fs
      in \<lparr>f_bsize = bsize, f_frsize = bsize, f_blocks = total_bytes div bsize,
          f_bfree = (total_bytes - used) div bsize, f_bavail = (total_bytes - used) div bsize,
          f_files = total_inodes, f_ffree = total_inodes - used_ino, f_favail = total_inodes - used_ino,
          f_namemax = 255\<rparr>)"

definition SEEK_DATA :: u32 where "SEEK_DATA = 3"
definition SEEK_HOLE :: u32 where "SEEK_HOLE = 4"
definition FALLOC_FL_PUNCH_HOLE :: u32 where "FALLOC_FL_PUNCH_HOLE = 2"
definition FALLOC_FL_KEEP_SIZE :: u32 where "FALLOC_FL_KEEP_SIZE = 1"

text \<open>The seek arithmetic, the same for a file and for the init binary.\<close>

definition seek_in :: "u64 \<Rightarrow> u64 \<Rightarrow> u32 \<Rightarrow> errno + u64" where
  "seek_in file_size offset whence =
     (if whence = 0 then Inr offset
      else if whence = 2
      then (let pos = as_i64 file_size + as_i64 offset in
            if pos < - int i64_max - 1 \<or> pos > int i64_max then Inl EINVAL
            else if pos < 0 then Inl EINVAL
            else Inr (nat pos))
      else if whence = SEEK_DATA then (if offset \<ge> file_size then Inl ENXIO else Inr offset)
      else if whence = SEEK_HOLE then (if offset \<ge> file_size then Inl ENXIO else Inr file_size)
      else Inl EINVAL)"

definition lseek_init :: "bytes \<Rightarrow> u64 \<Rightarrow> u32 \<Rightarrow> errno + u64" where
  "lseek_init agentd_bytes offset whence = seek_in (length agentd_bytes) offset whence"

definition do_lseek :: "MemFs \<Rightarrow> u64 \<Rightarrow> u64 \<Rightarrow> u64 \<Rightarrow> u32 \<Rightarrow> errno + u64" where
  "do_lseek fs ino handle offset whence =
     (if ino = INIT_INODE then lseek_init (mf_init_file fs) offset whence
      else case map_of (mf_file_handles fs) handle of
             None \<Rightarrow> Inl EBADF
           | Some fh \<Rightarrow>
               (case mn_content (node_at fs (fh_node fh)) of
                  RegularFile data \<Rightarrow> seek_in (length data) offset whence
                | _ \<Rightarrow> Inl EINVAL))"

definition do_fallocate :: "MemFs \<Rightarrow> u64 \<Rightarrow> u64 \<Rightarrow> u32 \<Rightarrow> u64 \<Rightarrow> u64 \<Rightarrow> unit op_result" where
  "do_fallocate fs ino handle mode offset len =
     (if ino = INIT_INODE then (Inl EACCES, fs)
      else try_res (ok_or (map_of (mf_file_handles fs) handle) EBADF) fs (\<lambda>fh.
        let node = fh_node fh in
        if mn_kind (node_at fs node) \<noteq> MODE_REG then (Inl ENODEV, fs)
        else if mode = 0
        then try_res (ok_or (checked_add64 offset len) EINVAL) fs (\<lambda>new_end.
               if new_end > i64_max then (Inl EFBIG, fs)
               else case mn_content (node_at fs node) of
                      RegularFile d \<Rightarrow>
                        if new_end > length d
                        then (case reserve_bytes fs (new_end - length d) of
                                (Inl e, fs) \<Rightarrow> (Inl e, fs)
                              | (Inr _, fs) \<Rightarrow>
                                  let fs = upd_node node (\<lambda>n. n\<lparr>mn_content := RegularFile (d @ replicate (new_end - length d) 0)\<rparr>) fs
                                  in (Inr (), upd_meta node (im_size_update (\<lambda>_. new_end)) fs))
                        else (Inr (), fs)
                    | _ \<Rightarrow> (Inr (), fs))
        else if mode AND FALLOC_FL_PUNCH_HOLE \<noteq> 0 \<and> mode AND FALLOC_FL_KEEP_SIZE \<noteq> 0
        then (case mn_content (node_at fs node) of
                RegularFile d \<Rightarrow>
                  let start = min offset (length d);
                      end_offset = saturating_add64 offset len;
                      e = min end_offset (length d)
                  in if start < e
                     then (Inr (), upd_node node
                             (\<lambda>n. n\<lparr>mn_content := RegularFile (take start d @ replicate (e - start) 0 @ drop e d)\<rparr>) fs)
                     else (Inr (), fs)
              | _ \<Rightarrow> (Inr (), fs))
        else (Inl EOPNOTSUPP, fs)))"

definition do_fsync :: "errno + unit" where "do_fsync = Inr ()"
definition do_fsyncdir :: "errno + unit" where "do_fsyncdir = Inr ()"

section \<open>Extended attributes\<close>

definition XATTR_CREATE :: u32 where "XATTR_CREATE = 1"
definition XATTR_REPLACE :: u32 where "XATTR_REPLACE = 2"

datatype XattrReply = Count u32 | Value bytes | Names bytes

definition do_setxattr :: "MemFs \<Rightarrow> u64 \<Rightarrow> bytes \<Rightarrow> bytes \<Rightarrow> u32 \<Rightarrow> unit op_result" where
  "do_setxattr fs ino name val flags =
     (if ino = INIT_INODE then (Inl EACCES, fs)
      else try_res (get_node fs ino) fs (\<lambda>node.
        let xattrs = mn_xattrs (node_at fs node) in
        if flags AND XATTR_CREATE \<noteq> 0 \<and> map_of xattrs name \<noteq> None then (Inl EEXIST, fs)
        else if flags AND XATTR_REPLACE \<noteq> 0 \<and> map_of xattrs name = None then (Inl ENODATA, fs)
        else (Inr (), upd_node node (\<lambda>n. n\<lparr>mn_xattrs := bt_insert name val xattrs\<rparr>) fs)))"

definition do_getxattr :: "MemFs \<Rightarrow> u64 \<Rightarrow> bytes \<Rightarrow> nat \<Rightarrow> errno + XattrReply" where
  "do_getxattr fs ino name sz =
     (if ino = INIT_INODE then Inl ENODATA
      else case get_node fs ino of
             Inl e \<Rightarrow> Inl e
           | Inr node \<Rightarrow>
               (case map_of (mn_xattrs (node_at fs node)) name of
                  Some val \<Rightarrow>
                    if sz = 0 then Inr (Count (of_nat (length val)))
                    else if length val > sz then Inl ERANGE
                    else Inr (Value val)
                | None \<Rightarrow> Inl ENODATA))"

definition do_listxattr :: "MemFs \<Rightarrow> u64 \<Rightarrow> nat \<Rightarrow> errno + XattrReply" where
  "do_listxattr fs ino sz =
     (if ino = INIT_INODE then (if sz = 0 then Inr (Count 0) else Inr (Names []))
      else case get_node fs ino of
             Inl e \<Rightarrow> Inl e
           | Inr node \<Rightarrow>
               let buf = concat (map (\<lambda>(key, _). key @ [0]) (mn_xattrs (node_at fs node))) in
               if sz = 0 then Inr (Count (of_nat (length buf)))
               else if length buf > sz then Inl ERANGE
               else Inr (Names buf))"

definition do_removexattr :: "MemFs \<Rightarrow> u64 \<Rightarrow> bytes \<Rightarrow> unit op_result" where
  "do_removexattr fs ino name =
     (if ino = INIT_INODE then (Inl EACCES, fs)
      else try_res (get_node fs ino) fs (\<lambda>node.
        let xattrs = mn_xattrs (node_at fs node) in
        if map_of xattrs name = None then (Inl ENODATA, fs)
        else (Inr (), upd_node node (\<lambda>n. n\<lparr>mn_xattrs := bt_remove name xattrs\<rparr>) fs)))"

end
