(* ===== verification/Memfs_Dir.thy ===== *)
theory Memfs_Dir
  imports Memfs_File
begin

text \<open>
  \<^verbatim>\<open>memfs/dir_ops.rs\<close> and \<^verbatim>\<open>shared/dir_snapshot.rs\<close>: directory handles with their snapshots, and the
  four ways of reading them. The callbacks that fill the guest's buffer are parameters that thread
  a state of their own: a call returns an error, or how many bytes it used (zero when the entry
  did not fit).
\<close>

section \<open>Serving a snapshot\<close>

record DirEntry =
  dd_ino :: u64
  dd_offset :: u64
  dd_type :: u32
  dd_name :: bytes

definition entry_of :: "MemDirEntry \<Rightarrow> DirEntry" where
  "entry_of e = \<lparr>dd_ino = de_inode e, dd_offset = de_offset e, dd_type = de_file_type e, dd_name = de_name e\<rparr>"

text \<open>Rust's \<^verbatim>\<open>position\<close> with the length as default.\<close>

fun position_after :: "MemDirEntry list \<Rightarrow> u64 \<Rightarrow> nat" where
  "position_after [] offset = 0"
| "position_after (e # es) offset = (if de_offset e > offset then 0 else Suc (position_after es offset))"

definition snapshot_entries_after :: "MemDirEntry list \<Rightarrow> u64 \<Rightarrow> MemDirEntry list" where
  "snapshot_entries_after entries offset = drop (position_after entries offset) entries"

text \<open>The names of all entries served are packed into one buffer, and each entry refers to its part
  of it.\<close>

fun pack_names ::
  "MemDirEntry list \<Rightarrow> bytes \<Rightarrow> (u64 \<times> u64 \<times> u32 \<times> nat \<times> nat) list \<Rightarrow> bytes \<times> (u64 \<times> u64 \<times> u32 \<times> nat \<times> nat) list" where
  "pack_names [] names_buf raw_entries = (names_buf, raw_entries)"
| "pack_names (e # es) names_buf raw_entries =
     pack_names es (names_buf @ de_name e)
       (raw_entries @ [(de_inode e, de_offset e, de_file_type e, length names_buf, length (de_name e))])"

definition serve_entries :: "MemDirEntry list \<Rightarrow> u64 \<Rightarrow> DirEntry list" where
  "serve_entries entries offset =
     (let start = position_after entries offset; slice = drop start entries in
      if slice = [] then []
      else let (leaked, raw_entries) = pack_names slice [] [] in
        map (\<lambda>(ino, off, typ, s, len). \<lparr>dd_ino = ino, dd_offset = off, dd_type = typ, dd_name = take len (drop s leaked)\<rparr>)
          raw_entries)"

fun stream_entries ::
  "('b \<Rightarrow> DirEntry \<Rightarrow> (errno + nat) \<times> 'b) \<Rightarrow> 'b \<Rightarrow> MemDirEntry list \<Rightarrow> (errno + unit) \<times> 'b" where
  "stream_entries add b [] = (Inr (), b)"
| "stream_entries add b (e # es) =
     (case add b (entry_of e) of
        (Inl err, b) \<Rightarrow> (Inl err, b)
      | (Inr n, b) \<Rightarrow> if n = 0 then (Inr (), b) else stream_entries add b es)"

definition serve_entries_for_each ::
  "('b \<Rightarrow> DirEntry \<Rightarrow> (errno + nat) \<times> 'b) \<Rightarrow> 'b \<Rightarrow> MemDirEntry list \<Rightarrow> u64 \<Rightarrow> (errno + unit) \<times> 'b" where
  "serve_entries_for_each add b entries offset = stream_entries add b (snapshot_entries_after entries offset)"

section \<open>Snapshots\<close>

definition raw_entry :: "bytes \<Rightarrow> u64 \<Rightarrow> u32 \<Rightarrow> MemDirEntry" where
  "raw_entry name ino file_type = \<lparr>de_name = name, de_inode = ino, de_offset = 0, de_file_type = file_type\<rparr>"

definition child_type :: "MemFs \<Rightarrow> u64 \<Rightarrow> u32" where
  "child_type fs child_ino =
     (case map_of (mf_nodes fs) child_ino of
        Some child \<Rightarrow> mode_to_dtype (mn_kind (node_at fs child))
      | None \<Rightarrow> DT_UNKNOWN)"

definition assign_offsets :: "MemDirEntry list \<Rightarrow> MemDirEntry list" where
  "assign_offsets entries = map (\<lambda>(i, e). e\<lparr>de_offset := i + 1\<rparr>) (List.enumerate 0 entries)"

definition build_snapshot :: "MemFs \<Rightarrow> u64 \<Rightarrow> addr \<Rightarrow> errno + DirSnapshot" where
  "build_snapshot fs ino node =
     (case mn_content (node_at fs node) of
        Directory children parent \<Rightarrow>
          let entries = [raw_entry [46] ino DIRENT_DIR, raw_entry [46, 46] parent DIRENT_DIR]
                @ (if ino = ROOT_INODE then [raw_entry INIT_FILENAME INIT_INODE DIRENT_REG] else [])
                @ map (\<lambda>(name, child_ino). raw_entry name child_ino (child_type fs child_ino)) children
          in Inr \<lparr>ds_entries = assign_offsets entries\<rparr>
      | _ \<Rightarrow> Inl ENOTDIR)"

section \<open>Operations\<close>

definition do_opendir :: "MemFs \<Rightarrow> u64 \<Rightarrow> (u64 option \<times> OpenOptions) op_result" where
  "do_opendir fs ino =
     try_res (get_node fs ino) fs (\<lambda>node.
       if mn_kind (node_at fs node) \<noteq> MODE_DIR then (Inl ENOTDIR, fs)
       else let handle = mf_next_handle fs;
                fs = fs\<lparr>mf_next_handle := fetch_add64 handle 1\<rparr>;
                fs = fs\<lparr>mf_dir_handles := bt_insert handle \<lparr>dh_node = node, dh_snapshot = None\<rparr> (mf_dir_handles fs)\<rparr>
            in (Inr (Some handle, cache_dir_options fs), fs))"

definition dir_handle :: "MemFs \<Rightarrow> u64 \<Rightarrow> errno + DirHandle" where
  "dir_handle fs handle = ok_or (map_of (mf_dir_handles fs) handle) EBADF"

text \<open>The snapshot of a handle, built on first use and kept.\<close>

definition ensure_snapshot :: "MemFs \<Rightarrow> u64 \<Rightarrow> u64 \<Rightarrow> MemDirEntry list op_result" where
  "ensure_snapshot fs ino handle =
     try_res (dir_handle fs handle) fs (\<lambda>dh.
       case dh_snapshot dh of
         Some s \<Rightarrow> (Inr (ds_entries s), fs)
       | None \<Rightarrow>
           try_res (build_snapshot fs ino (dh_node dh)) fs (\<lambda>s.
             (Inr (ds_entries s),
              fs\<lparr>mf_dir_handles := bt_insert handle (dh\<lparr>dh_snapshot := Some s\<rparr>) (mf_dir_handles fs)\<rparr>)))"

definition serve_snapshot_entries :: "MemFs \<Rightarrow> u64 \<Rightarrow> u64 \<Rightarrow> u64 \<Rightarrow> DirEntry list op_result" where
  "serve_snapshot_entries fs ino handle offset =
     (case ensure_snapshot fs ino handle of
        (Inl e, fs) \<Rightarrow> (Inl e, fs)
      | (Inr entries, fs) \<Rightarrow> (Inr (serve_entries entries offset), fs))"

definition stream_snapshot_entries ::
  "MemFs \<Rightarrow> ('b \<Rightarrow> DirEntry \<Rightarrow> (errno + nat) \<times> 'b) \<Rightarrow> 'b \<Rightarrow> u64 \<Rightarrow> u64 \<Rightarrow> u64 \<Rightarrow> unit op_result \<times> 'b" where
  "stream_snapshot_entries fs add b ino handle offset =
     (case ensure_snapshot fs ino handle of
        (Inl e, fs) \<Rightarrow> ((Inl e, fs), b)
      | (Inr entries, fs) \<Rightarrow> (case serve_entries_for_each add b entries offset of (r, b) \<Rightarrow> ((r, fs), b)))"

definition do_readdir :: "MemFs \<Rightarrow> u64 \<Rightarrow> u64 \<Rightarrow> u64 \<Rightarrow> DirEntry list op_result" where
  "do_readdir fs ino handle offset = serve_snapshot_entries fs ino handle offset"

definition do_readdir_for_each ::
  "MemFs \<Rightarrow> ('b \<Rightarrow> DirEntry \<Rightarrow> (errno + nat) \<times> 'b) \<Rightarrow> 'b \<Rightarrow> u64 \<Rightarrow> u64 \<Rightarrow> u64 \<Rightarrow> unit op_result \<times> 'b" where
  "do_readdir_for_each fs add b ino handle offset = stream_snapshot_entries fs add b ino handle offset"

definition init_dir_entry :: "MemFs \<Rightarrow> Entry" where
  "init_dir_entry fs = init_entry (mf_init_file fs) (cfg_entry_timeout (mf_cfg fs)) (cfg_attr_timeout (mf_cfg fs))"

fun readdirplus_loop :: "MemFs \<Rightarrow> DirEntry list \<Rightarrow> (DirEntry \<times> Entry) list \<Rightarrow> (DirEntry \<times> Entry) list \<times> MemFs" where
  "readdirplus_loop fs [] result = (result, fs)"
| "readdirplus_loop fs (de # des) result =
     (if dd_name de = [46] \<or> dd_name de = [46, 46] then readdirplus_loop fs des result
      else if dd_name de = INIT_FILENAME then readdirplus_loop fs des (result @ [(de, init_dir_entry fs)])
      else case get_node fs (dd_ino de) of
             Inl _ \<Rightarrow> readdirplus_loop fs des result
           | Inr node \<Rightarrow>
               let fs = inc_lookup node fs in
               readdirplus_loop fs des (result @ [(de, build_entry fs (node_at fs node))]))"

definition do_readdirplus :: "MemFs \<Rightarrow> u64 \<Rightarrow> u64 \<Rightarrow> u64 \<Rightarrow> (DirEntry \<times> Entry) list op_result" where
  "do_readdirplus fs ino handle offset =
     (case serve_snapshot_entries fs ino handle offset of
        (Inl e, fs) \<Rightarrow> (Inl e, fs)
      | (Inr dir_entries, fs) \<Rightarrow> (case readdirplus_loop fs dir_entries [] of (result, fs) \<Rightarrow> (Inr result, fs)))"

text \<open>The undoing of lookups after the guest's buffer reported an error; the node of the failing entry
  is still held by a local variable.\<close>

fun forget_all :: "MemFs \<Rightarrow> addr list \<Rightarrow> u64 list \<Rightarrow> MemFs" where
  "forget_all fs locals [] = fs"
| "forget_all fs locals (ino # inos) = forget_all (forget_one fs locals ino 1) locals inos"

fun readdirplus_stream ::
  "MemFs \<Rightarrow> ('b \<Rightarrow> DirEntry \<Rightarrow> Entry \<Rightarrow> (errno + nat) \<times> 'b) \<Rightarrow> 'b \<Rightarrow> MemDirEntry list \<Rightarrow> u64 list \<Rightarrow>
     unit op_result \<times> 'b" where
  "readdirplus_stream fs add b [] emitted = ((Inr (), fs), b)"
| "readdirplus_stream fs add b (e # es) emitted =
     (let name = de_name e; de = entry_of e in
      if name = [46] \<or> name = [46, 46] then readdirplus_stream fs add b es emitted
      else if name = INIT_FILENAME
      then (case add b de (init_dir_entry fs) of
              (Inl err, b) \<Rightarrow> ((Inl err, fs), b)
            | (Inr n, b) \<Rightarrow> if n = 0 then ((Inr (), fs), b) else readdirplus_stream fs add b es emitted)
      else case get_node fs (dd_ino de) of
             Inl _ \<Rightarrow> readdirplus_stream fs add b es emitted
           | Inr node \<Rightarrow>
               let fs = inc_lookup node fs;
                   entry = build_entry fs (node_at fs node);
                   looked_up_inode = en_inode entry
               in case add b de entry of
                    (Inl err, b) \<Rightarrow> ((Inl err, forget_all (forget_one fs [node] looked_up_inode 1) [node] emitted), b)
                  | (Inr n, b) \<Rightarrow>
                      if n = 0 then ((Inr (), forget_one fs [node] looked_up_inode 1), b)
                      else readdirplus_stream fs add b es (emitted @ [looked_up_inode]))"

definition do_readdirplus_for_each ::
  "MemFs \<Rightarrow> ('b \<Rightarrow> DirEntry \<Rightarrow> Entry \<Rightarrow> (errno + nat) \<times> 'b) \<Rightarrow> 'b \<Rightarrow> u64 \<Rightarrow> u64 \<Rightarrow> u64 \<Rightarrow> unit op_result \<times> 'b" where
  "do_readdirplus_for_each fs add b ino handle offset =
     (case ensure_snapshot fs ino handle of
        (Inl e, fs) \<Rightarrow> ((Inl e, fs), b)
      | (Inr entries, fs) \<Rightarrow> readdirplus_stream fs add b (snapshot_entries_after entries offset) [])"

definition do_releasedir :: "MemFs \<Rightarrow> u64 \<Rightarrow> unit op_result" where
  "do_releasedir fs handle = (Inr (), fs\<lparr>mf_dir_handles := bt_remove handle (mf_dir_handles fs)\<rparr>)"

end
