(* ===== verification/Memfs_Inv.thy ===== *)
theory Memfs_Inv
  imports Memfs_Dir
begin

text \<open>
  What every state of the in-memory filesystem satisfies: nodes are well formed, inode numbers are
  never shared, the tables point into the heap, the inode counter is exact, and the bytes of all
  files that can still be reached are covered by the bytes accounted for. Each primitive update
  has one lemma here; the operations follow from them.
\<close>

section \<open>Well-formed nodes\<close>

definition name_ok :: "bytes \<Rightarrow> bool" where
  "name_ok name \<longleftrightarrow> validate_memfs_name name = Inr ()"

definition kind_ok :: "MemNode \<Rightarrow> bool" where
  "kind_ok n \<longleftrightarrow>
     (case mn_content n of
        RegularFile _ \<Rightarrow> mn_kind n = MODE_REG
      | Directory _ _ \<Rightarrow> mn_kind n = MODE_DIR
      | Symlink _ \<Rightarrow> mn_kind n = MODE_LNK
      | Special \<Rightarrow> mn_kind n \<in> {MODE_BLK, MODE_CHR, MODE_FIFO, MODE_SOCK})"

definition node_ok :: "MemNode \<Rightarrow> bool" where
  "node_ok n \<longleftrightarrow> kind_ok n \<and> im_mode (mn_meta n) AND MODE_TYPE_MASK = mn_kind n \<and> mn_inode n \<noteq> INIT_INODE \<and>
     (case mn_content n of
        RegularFile data \<Rightarrow> im_size (mn_meta n) = length data
      | Directory ch _ \<Rightarrow> bt_wf ch \<and> (\<forall>name. map_of ch name \<noteq> None \<longrightarrow> name_ok name)
      | _ \<Rightarrow> True)"

definition data_len :: "MemNode \<Rightarrow> nat" where
  "data_len n = (case mn_content n of RegularFile data \<Rightarrow> length data | _ \<Rightarrow> 0)"

definition referenced :: "MemFs \<Rightarrow> addr \<Rightarrow> bool" where
  "referenced fs a \<longleftrightarrow> (\<exists>ino. map_of (mf_nodes fs) ino = Some a) \<or>
     (\<exists>h fh. map_of (mf_file_handles fs) h = Some fh \<and> fh_node fh = a)"

definition live_bytes :: "MemFs \<Rightarrow> nat" where
  "live_bytes fs = (\<Sum>a < length (mf_heap fs). if referenced fs a then data_len (node_at fs a) else 0)"

section \<open>The invariant\<close>

definition heap_inv :: "MemFs \<Rightarrow> bool" where
  "heap_inv fs \<longleftrightarrow> (\<forall>a < length (mf_heap fs). node_ok (node_at fs a) \<and> mn_inode (node_at fs a) < mf_next_inode fs) \<and>
     distinct (map mn_inode (mf_heap fs)) \<and> 3 \<le> mf_next_inode fs \<and> mf_next_inode fs < two64"

definition table_inv :: "MemFs \<Rightarrow> bool" where
  "table_inv fs \<longleftrightarrow>
     bt_wf (mf_nodes fs) \<and>
     (\<forall>ino a. map_of (mf_nodes fs) ino = Some a \<longrightarrow> a < length (mf_heap fs) \<and> mn_inode (node_at fs a) = ino) \<and>
     bt_wf (mf_file_handles fs) \<and>
     (\<forall>h fh. map_of (mf_file_handles fs) h = Some fh \<longrightarrow>
        fh_node fh < length (mf_heap fs) \<and> mn_kind (node_at fs (fh_node fh)) \<noteq> MODE_DIR) \<and>
     bt_wf (mf_dir_handles fs) \<and>
     (\<forall>h dh. map_of (mf_dir_handles fs) h = Some dh \<longrightarrow>
        dh_node dh < length (mf_heap fs) \<and> mn_kind (node_at fs (dh_node dh)) = MODE_DIR)"

definition bytes_inv :: "MemFs \<Rightarrow> bool" where
  "bytes_inv fs \<longleftrightarrow>
     (\<forall>cap. cfg_capacity (mf_cfg fs) = Some cap \<longrightarrow>
        live_bytes fs \<le> mf_used_bytes fs \<and> mf_used_bytes fs \<le> cap \<and> cap < two64)"

text \<open>While an operation runs, the inode counter may be ahead of the table by the inode it has
  allocated and not yet registered.\<close>

definition limit_inv :: "MemFs \<Rightarrow> bool" where
  "limit_inv fs \<longleftrightarrow> (\<forall>mx. cfg_max_inodes (mf_cfg fs) = Some mx \<longrightarrow> mf_inode_count fs \<le> max 1 mx)"

definition mid_inv :: "nat \<Rightarrow> MemFs \<Rightarrow> bool" where
  "mid_inv d fs \<longleftrightarrow> heap_inv fs \<and> table_inv fs \<and> bytes_inv fs \<and>
     mf_inode_count fs = length (mf_nodes fs) + d \<and> limit_inv fs"

abbreviation fs_inv :: "MemFs \<Rightarrow> bool" where "fs_inv \<equiv> mid_inv 0"

section \<open>Primitive updates\<close>

lemma node_at_fields [simp]:
  "node_at (fs\<lparr>mf_nodes := x1\<rparr>) a = node_at fs a"
  "node_at (fs\<lparr>mf_file_handles := x2\<rparr>) a = node_at fs a"
  "node_at (fs\<lparr>mf_next_inode := x3\<rparr>) a = node_at fs a"
  "node_at (fs\<lparr>mf_next_handle := x4\<rparr>) a = node_at fs a"
  "node_at (fs\<lparr>mf_used_bytes := x5\<rparr>) a = node_at fs a"
  "node_at (fs\<lparr>mf_inode_count := x6\<rparr>) a = node_at fs a"
  "node_at (fs\<lparr>mf_writeback := x7\<rparr>) a = node_at fs a"
  "node_at (fs\<lparr>mf_staging_file := x8\<rparr>) a = node_at fs a"
  by (simp_all add: node_at_def)

lemma node_at_dir_handles [simp]: "node_at (fs\<lparr>mf_dir_handles := y\<rparr>) a = node_at fs a"
  by (simp add: node_at_def)

lemma referenced_fields [simp]:
  "referenced (fs\<lparr>mf_next_inode := x9\<rparr>) a = referenced fs a"
  "referenced (fs\<lparr>mf_next_handle := x10\<rparr>) a = referenced fs a"
  "referenced (fs\<lparr>mf_used_bytes := x11\<rparr>) a = referenced fs a"
  "referenced (fs\<lparr>mf_inode_count := x12\<rparr>) a = referenced fs a"
  "referenced (fs\<lparr>mf_writeback := x13\<rparr>) a = referenced fs a"
  "referenced (fs\<lparr>mf_staging_file := x14\<rparr>) a = referenced fs a"
  by (simp_all add: referenced_def)

lemma referenced_dir_handles [simp]: "referenced (fs\<lparr>mf_dir_handles := y\<rparr>) a = referenced fs a"
  by (simp add: referenced_def)

lemma live_bytes_fields [simp]:
  "live_bytes (fs\<lparr>mf_next_inode := x15\<rparr>) = live_bytes fs"
  "live_bytes (fs\<lparr>mf_next_handle := x16\<rparr>) = live_bytes fs"
  "live_bytes (fs\<lparr>mf_used_bytes := x17\<rparr>) = live_bytes fs"
  "live_bytes (fs\<lparr>mf_inode_count := x18\<rparr>) = live_bytes fs"
  "live_bytes (fs\<lparr>mf_writeback := x19\<rparr>) = live_bytes fs"
  "live_bytes (fs\<lparr>mf_staging_file := x20\<rparr>) = live_bytes fs"
  by (simp_all add: live_bytes_def cong: if_cong)

lemma live_bytes_dir_handles [simp]: "live_bytes (fs\<lparr>mf_dir_handles := y\<rparr>) = live_bytes fs"
  by (simp add: live_bytes_def cong: if_cong)

lemma node_at_upd [simp]:
  "a < length (mf_heap fs) \<Longrightarrow> node_at (upd_node a f fs) b = (if b = a then f (node_at fs a) else node_at fs b)"
  by (simp add: node_at_def upd_node_def nth_list_update)

lemma upd_node_fields [simp]:
  "length (mf_heap (upd_node a f fs)) = length (mf_heap fs)"
  "mf_nodes (upd_node a f fs) = mf_nodes fs" "mf_file_handles (upd_node a f fs) = mf_file_handles fs"
  "mf_dir_handles (upd_node a f fs) = mf_dir_handles fs" "mf_next_inode (upd_node a f fs) = mf_next_inode fs"
  "mf_next_handle (upd_node a f fs) = mf_next_handle fs" "mf_used_bytes (upd_node a f fs) = mf_used_bytes fs"
  "mf_inode_count (upd_node a f fs) = mf_inode_count fs" "mf_cfg (upd_node a f fs) = mf_cfg fs"
  "mf_writeback (upd_node a f fs) = mf_writeback fs" "mf_init_file (upd_node a f fs) = mf_init_file fs"
  by (simp_all add: upd_node_def)

lemma referenced_upd [simp]: "referenced (upd_node a f fs) b = referenced fs b"
  by (simp add: referenced_def)

lemma map_inode_upd:
  assumes "a < length (mf_heap fs)" and "mn_inode (f (node_at fs a)) = mn_inode (node_at fs a)"
  shows "map mn_inode (mf_heap (upd_node a f fs)) = map mn_inode (mf_heap fs)"
  using assms list_update_id [of "map mn_inode (mf_heap fs)" a] by (simp add: upd_node_def node_at_def map_update)

text \<open>A node is replaced by another one of the same identity, kind and amount of data.\<close>

lemma upd_node_inv:
  assumes "mid_inv d fs" and a: "a < length (mf_heap fs)"
    and n: "node_ok (f (node_at fs a))" "mn_inode (f (node_at fs a)) = mn_inode (node_at fs a)"
      "mn_kind (f (node_at fs a)) = mn_kind (node_at fs a)" "data_len (f (node_at fs a)) = data_len (node_at fs a)"
  shows "mid_inv d (upd_node a f fs)"
proof -
  have h: "heap_inv fs" and t: "table_inv fs" and b: "bytes_inv fs"
    and c: "mf_inode_count fs = length (mf_nodes fs) + d" "limit_inv fs"
    using assms(1) by (simp_all add: mid_inv_def)
  have "heap_inv (upd_node a f fs)"
    using h a n map_inode_upd [OF a, of f] by (simp add: heap_inv_def)
  moreover have "table_inv (upd_node a f fs)"
    using t a n by (auto simp: table_inv_def)
  moreover have "live_bytes (upd_node a f fs) = live_bytes fs"
    unfolding live_bytes_def using a n(4) by (auto intro!: sum.cong)
  then have "bytes_inv (upd_node a f fs)" using b by (simp add: bytes_inv_def)
  moreover have "limit_inv (upd_node a f fs)" using c(2) by (simp add: limit_inv_def)
  ultimately show ?thesis using c(1) by (simp add: mid_inv_def)
qed

lemma node_okD: "mid_inv d fs \<Longrightarrow> a < length (mf_heap fs) \<Longrightarrow> node_ok (node_at fs a)"
  by (simp add: mid_inv_def heap_inv_def)

lemma get_node_ok:
  assumes "mid_inv d fs" and "get_node fs ino = Inr a"
  shows "a < length (mf_heap fs)" and "mn_inode (node_at fs a) = ino" and "map_of (mf_nodes fs) ino = Some a"
    and "referenced fs a" and "node_ok (node_at fs a)"
proof -
  show m: "map_of (mf_nodes fs) ino = Some a" using assms(2) by (simp add: get_node_def)
  then show l: "a < length (mf_heap fs)" and "mn_inode (node_at fs a) = ino"
    using assms(1) by (auto simp: mid_inv_def table_inv_def)
  show "referenced fs a" using m by (auto simp: referenced_def)
  show "node_ok (node_at fs a)" using assms(1) l by (rule node_okD)
qed

text \<open>Changes that leave identity, kind and content alone.\<close>

definition meta_safe :: "(InodeMeta \<Rightarrow> InodeMeta) \<Rightarrow> bool" where
  "meta_safe f \<longleftrightarrow> (\<forall>m. im_size (f m) = im_size m \<and> im_mode (f m) AND MODE_TYPE_MASK = im_mode m AND MODE_TYPE_MASK)"

lemma upd_meta_inv:
  assumes "mid_inv d fs" and "a < length (mf_heap fs)" and "meta_safe f"
  shows "mid_inv d (upd_meta a f fs)"
  unfolding upd_meta_def
proof (rule upd_node_inv [OF assms(1,2)])
  show "node_ok ((node_at fs a)\<lparr>mn_meta := f (mn_meta (node_at fs a))\<rparr>)"
    using node_okD [OF assms(1,2)] assms(3)
    by (auto simp: node_ok_def kind_ok_def meta_safe_def split: InodeContent.splits)
qed (simp_all add: data_len_def)

lemma upd_refs_inv:
  assumes "mid_inv d fs" and "a < length (mf_heap fs)"
  shows "mid_inv d (upd_node a (\<lambda>n. n\<lparr>mn_lookup_refs := g n\<rparr>) fs)"
    and "mid_inv d (upd_node a (\<lambda>n. n\<lparr>mn_xattrs := x n\<rparr>) fs)"
  using node_okD [OF assms]
  by (auto intro!: upd_node_inv [OF assms] simp: node_ok_def kind_ok_def data_len_def split: InodeContent.splits)

lemma inc_lookup_inv: "mid_inv d fs \<Longrightarrow> a < length (mf_heap fs) \<Longrightarrow> mid_inv d (inc_lookup a fs)"
  unfolding inc_lookup_def by (rule upd_refs_inv)

lemma ch_insert_inv:
  assumes "mid_inv d fs" and "a < length (mf_heap fs)" and "name_ok name"
  shows "mid_inv d (ch_insert a name ino fs)"
  unfolding ch_insert_def
  using node_okD [OF assms(1,2)] assms(3)
  by (intro upd_node_inv [OF assms(1,2)])
    (auto simp: node_ok_def kind_ok_def data_len_def bt_wf_insert split: InodeContent.splits)

lemma ch_remove_inv:
  assumes "mid_inv d fs" and "a < length (mf_heap fs)"
  shows "mid_inv d (ch_remove a name fs)"
  unfolding ch_remove_def
  using node_okD [OF assms(1,2)]
  by (intro upd_node_inv [OF assms(1,2)])
    (auto simp: node_ok_def kind_ok_def data_len_def bt_wf_remove split: InodeContent.splits)

lemma set_parent_inv:
  assumes "mid_inv d fs" and "a < length (mf_heap fs)"
  shows "mid_inv d (set_parent a p fs)"
  unfolding set_parent_def
  using node_okD [OF assms(1,2)]
  by (intro upd_node_inv [OF assms(1,2)])
    (auto simp: node_ok_def kind_ok_def data_len_def split: InodeContent.splits)

section \<open>Allocation\<close>

lemma limit_of: "mid_inv d fs \<Longrightarrow> limit_inv fs"
  by (simp add: mid_inv_def)

lemma nodes_bound: "mid_inv d fs \<Longrightarrow> length (mf_nodes fs) < mf_next_inode fs"
proof -
  assume inv: "mid_inv d fs"
  then have wf: "bt_wf (mf_nodes fs)"
    and t: "map_of (mf_nodes fs) ino = Some a \<Longrightarrow> a < length (mf_heap fs) \<and> mn_inode (node_at fs a) = ino" for ino a
    by (auto simp: mid_inv_def table_inv_def)
  have "dom (map_of (mf_nodes fs)) \<subseteq> {..<mf_next_inode fs} - {INIT_INODE}"
  proof
    fix ino
    assume "ino \<in> dom (map_of (mf_nodes fs))"
    then obtain a where "map_of (mf_nodes fs) ino = Some a" by blast
    then show "ino \<in> {..<mf_next_inode fs} - {INIT_INODE}"
      using t inv by (fastforce simp: mid_inv_def heap_inv_def node_ok_def)
  qed
  then have "card (dom (map_of (mf_nodes fs))) \<le> card ({..<mf_next_inode fs} - {INIT_INODE})" by (intro card_mono) auto
  moreover have "card ({..<mf_next_inode fs} - {INIT_INODE}) < mf_next_inode fs"
    using inv by (simp add: mid_inv_def heap_inv_def INIT_INODE_def)
  ultimately show ?thesis using bt_length [OF wf] by simp
qed

lemma referenced_bound: "table_inv fs \<Longrightarrow> referenced fs a \<Longrightarrow> a < length (mf_heap fs)"
  unfolding table_inv_def referenced_def by blast

lemma live_bytes_cong:
  assumes "mf_heap fs' = mf_heap fs" and "mf_nodes fs' = mf_nodes fs" and "mf_file_handles fs' = mf_file_handles fs"
  shows "live_bytes fs' = live_bytes fs"
  unfolding live_bytes_def referenced_def node_at_def assms ..

definition fresh_inode :: "u64 \<Rightarrow> MemFs \<Rightarrow> bool" where
  "fresh_inode ino fs \<longleftrightarrow> 3 \<le> ino \<and> ino < mf_next_inode fs \<and> ino \<notin> mn_inode ` set (mf_heap fs)"

lemma alloc_inode_eq:
  "alloc_inode fs = (r, fs') \<Longrightarrow>
     (case r of Inl e \<Rightarrow> fs' = fs
      | Inr ino \<Rightarrow> ino = mf_next_inode fs \<and> fs' = fs\<lparr>mf_next_inode := fetch_add64 (mf_next_inode fs) 1,
            mf_inode_count := fetch_add64 (mf_inode_count fs) 1\<rparr> \<and>
          (\<forall>mx. cfg_max_inodes (mf_cfg fs) = Some mx \<longrightarrow> mf_inode_count fs < mx))"
  by (auto simp: alloc_inode_def split: option.splits if_splits)

lemma alloc_inode_inv:
  assumes "fs_inv fs" and "mf_next_inode fs + 1 < two64" and "alloc_inode fs = (Inr ino, fs')"
  shows "mid_inv 1 fs'" and "fresh_inode ino fs'" and "mf_heap fs' = mf_heap fs" and "mf_nodes fs' = mf_nodes fs"
    and "ino = mf_next_inode fs" and "mf_next_inode fs' = mf_next_inode fs + 1"
    and "mf_next_handle fs' = mf_next_handle fs" and "mf_file_handles fs' = mf_file_handles fs"
    and "mf_writeback fs' = mf_writeback fs" and "mf_cfg fs' = mf_cfg fs" and "mf_dir_handles fs' = mf_dir_handles fs"
proof -
  have i: "ino = mf_next_inode fs" and f: "fs' = fs\<lparr>mf_next_inode := fetch_add64 (mf_next_inode fs) 1,
            mf_inode_count := fetch_add64 (mf_inode_count fs) 1\<rparr>"
    and mx: "\<forall>mx. cfg_max_inodes (mf_cfg fs) = Some mx \<longrightarrow> mf_inode_count fs < mx"
    using alloc_inode_eq [OF assms(3)] by simp_all
  have n: "fetch_add64 (mf_next_inode fs) 1 = mf_next_inode fs + 1" using assms(2) by (simp add: fetch_add64_lt)
  have "mf_inode_count fs = length (mf_nodes fs)" using assms(1) by (simp add: mid_inv_def)
  then have c: "fetch_add64 (mf_inode_count fs) 1 = mf_inode_count fs + 1"
    using nodes_bound [OF assms(1)] assms(2) by (simp add: fetch_add64_lt)
  have f': "fs' = fs\<lparr>mf_next_inode := mf_next_inode fs + 1, mf_inode_count := mf_inode_count fs + 1\<rparr>"
    unfolding f n c ..
  show "mf_heap fs' = mf_heap fs" "mf_nodes fs' = mf_nodes fs" "ino = mf_next_inode fs"
    "mf_next_inode fs' = mf_next_inode fs + 1" "mf_next_handle fs' = mf_next_handle fs"
    "mf_file_handles fs' = mf_file_handles fs" "mf_writeback fs' = mf_writeback fs" "mf_cfg fs' = mf_cfg fs"
    "mf_dir_handles fs' = mf_dir_handles fs"
    by (simp_all add: f' i)
  have "heap_inv fs'" using assms(1,2) by (auto simp: mid_inv_def heap_inv_def f' less_Suc_eq)
  moreover have "table_inv fs'" using assms(1) by (simp add: mid_inv_def table_inv_def f')
  moreover have "bytes_inv fs'"
    using assms(1) by (simp add: mid_inv_def bytes_inv_def f')
  moreover have "limit_inv fs'" using mx by (fastforce simp: limit_inv_def f')
  ultimately show "mid_inv 1 fs'" using assms(1) by (simp add: mid_inv_def f')
  show "fresh_inode ino fs'"
    using assms(1) by (fastforce simp: fresh_inode_def f' i mid_inv_def heap_inv_def node_at_def in_set_conv_nth)
qed

lemma dec_inode_count_inv:
  assumes "mid_inv 1 fs"
  shows "fs_inv (dec_inode_count fs)"
proof -
  have c: "mf_inode_count fs = length (mf_nodes fs) + 1" using assms by (simp add: mid_inv_def)
  have "fetch_sub64 (mf_inode_count fs) 1 = mf_inode_count fs - 1"
  proof (rule fetch_sub64_le)
    show "mf_inode_count fs < two64"
      using nodes_bound [OF assms] assms c by (simp add: mid_inv_def heap_inv_def)
  qed (simp add: c)
  then have f: "dec_inode_count fs = fs\<lparr>mf_inode_count := length (mf_nodes fs)\<rparr>" by (simp add: dec_inode_count_def c)
  have "heap_inv (dec_inode_count fs)" using assms by (simp add: mid_inv_def heap_inv_def f)
  moreover have "table_inv (dec_inode_count fs)" using assms by (simp add: mid_inv_def table_inv_def f)
  moreover have "bytes_inv (dec_inode_count fs)" using assms by (simp add: mid_inv_def bytes_inv_def f)
  moreover have "limit_inv (dec_inode_count fs)" using assms c by (fastforce simp: mid_inv_def limit_inv_def f)
  ultimately show ?thesis using c by (simp add: mid_inv_def f)
qed

lemma new_node_inv:
  assumes "mid_inv d fs" and "fresh_inode (mn_inode n) fs" and "node_ok n" and "new_node n fs = (a, fs')"
  shows "mid_inv d fs'" and "a < length (mf_heap fs')" and "node_at fs' a = n"
    and "\<And>b. b < length (mf_heap fs) \<Longrightarrow> node_at fs' b = node_at fs b \<and> b < length (mf_heap fs') \<and> b \<noteq> a"
    and "mf_nodes fs' = mf_nodes fs" and "mf_next_inode fs' = mf_next_inode fs" and "mf_next_handle fs' = mf_next_handle fs"
    and "mf_file_handles fs' = mf_file_handles fs" and "mf_cfg fs' = mf_cfg fs" and "mf_dir_handles fs' = mf_dir_handles fs"
proof -
  have a: "a = length (mf_heap fs)" and f: "fs' = fs\<lparr>mf_heap := mf_heap fs @ [n]\<rparr>"
    using assms(4) by (auto simp: new_node_def)
  show "a < length (mf_heap fs')" "node_at fs' a = n" "mf_nodes fs' = mf_nodes fs" "mf_next_inode fs' = mf_next_inode fs"
    "mf_next_handle fs' = mf_next_handle fs" "mf_file_handles fs' = mf_file_handles fs" "mf_cfg fs' = mf_cfg fs"
    "mf_dir_handles fs' = mf_dir_handles fs"
    by (simp_all add: a f node_at_def)
  show old: "node_at fs' b = node_at fs b \<and> b < length (mf_heap fs') \<and> b \<noteq> a" if "b < length (mf_heap fs)" for b
    using that by (simp add: a f node_at_def nth_append)
  have new: "node_at fs' (length (mf_heap fs)) = n" and len: "length (mf_heap fs') = Suc (length (mf_heap fs))"
    by (simp_all add: f node_at_def)
  have t: "table_inv fs" using assms(1) by (simp add: mid_inv_def)
  have rf: "referenced fs' b = referenced fs b" for b by (simp add: referenced_def f)
  then have nr: "\<not> referenced fs' (length (mf_heap fs))"
    using referenced_bound [OF t] by blast
  have "live_bytes fs' = (\<Sum>b < length (mf_heap fs). if referenced fs' b then data_len (node_at fs' b) else 0)"
    unfolding live_bytes_def using nr by (simp add: lessThan_Suc len)
  also have "\<dots> = live_bytes fs"
    unfolding live_bytes_def using old by (auto intro!: sum.cong simp: rf)
  finally have live: "live_bytes fs' = live_bytes fs" .
  have "heap_inv fs'"
    using assms(1-3) old new by (auto simp: mid_inv_def heap_inv_def f less_Suc_eq fresh_inode_def)
  moreover have "table_inv fs'"
    using t old unfolding table_inv_def by (simp add: f) (metis less_SucI)
  moreover have "bytes_inv fs'" using assms(1) live by (simp add: mid_inv_def bytes_inv_def f)
  moreover have "limit_inv fs'" using limit_of [OF assms(1)] by (simp add: limit_inv_def f)
  ultimately show "mid_inv d fs'" using assms(1) by (simp add: mid_inv_def f)
qed

section \<open>Registration and handles\<close>

lemma sum_gain:
  assumes "finite A" and "a \<in> A" and "\<And>b. b \<in> A \<Longrightarrow> b \<noteq> a \<Longrightarrow> f b = g b"
  shows "sum f A + g a = sum g A + (f a :: nat)"
  using assms by (simp add: sum.remove [of A a f] sum.remove [of A a g])

lemma ex_upd_None:
  assumes "m k = None"
  shows "(\<exists>x y. (m(k \<mapsto> v)) x = Some y \<and> P y) \<longleftrightarrow> (\<exists>x y. m x = Some y \<and> P y) \<or> P v"
proof
  assume "\<exists>x y. (m(k \<mapsto> v)) x = Some y \<and> P y"
  then show "(\<exists>x y. m x = Some y \<and> P y) \<or> P v" by (auto split: if_splits)
next
  assume r: "(\<exists>x y. m x = Some y \<and> P y) \<or> P v"
  show "\<exists>x y. (m(k \<mapsto> v)) x = Some y \<and> P y"
  proof (cases "P v")
    case True
    then show ?thesis by (intro exI [of _ k] exI [of _ v]) simp
  next
    case False
    then obtain x y where "m x = Some y" "P y" using r by blast
    moreover from this have "x \<noteq> k" using assms by auto
    ultimately show ?thesis by (intro exI [of _ x] exI [of _ y]) simp
  qed
qed

lemma register_node_inv:
  assumes "mid_inv 1 fs" and "a < length (mf_heap fs)" and "mn_inode (node_at fs a) = ino"
    and "data_len (node_at fs a) = 0" and "map_of (mf_nodes fs) ino = None"
  shows "fs_inv (register_node ino a fs)"
proof -
  let ?fs = "register_node ino a fs"
  have t: "table_inv fs" and wf: "bt_wf (mf_nodes fs)" using assms(1) by (simp_all add: mid_inv_def table_inv_def)
  have f: "node_at ?fs b = node_at fs b" "mf_heap ?fs = mf_heap fs" "mf_nodes ?fs = bt_insert ino a (mf_nodes fs)" for b
    by (simp_all add: register_node_def node_at_def)
  have ref: "referenced ?fs b \<longleftrightarrow> referenced fs b \<or> b = a" for b
    using ex_upd_None [of "map_of (mf_nodes fs)" ino a "\<lambda>y. y = b"] assms(5) by (auto simp: referenced_def register_node_def simp del: fun_upd_apply)
  have "live_bytes ?fs = live_bytes fs"
    unfolding live_bytes_def f using assms(4) by (auto intro!: sum.cong simp: ref)
  then have "bytes_inv ?fs" using assms(1) by (simp add: mid_inv_def bytes_inv_def register_node_def)
  moreover have "heap_inv ?fs" using assms(1) by (simp add: mid_inv_def heap_inv_def register_node_def)
  moreover have "table_inv ?fs"
    using t assms(2,3) unfolding table_inv_def register_node_def by (simp add: bt_wf_insert)
  moreover have "limit_inv ?fs" using limit_of [OF assms(1)] by (simp add: limit_inv_def register_node_def)
  moreover have "length (mf_nodes ?fs) = Suc (length (mf_nodes fs))"
    using bt.len_put [OF wf, of ino a] assms(5) by (simp add: f)
  ultimately show ?thesis using assms(1) by (simp add: mid_inv_def register_node_def)
qed

text \<open>Opening a file: a handle to a node that is already reachable.\<close>

definition put_handle :: "u64 \<Rightarrow> FileHandle \<Rightarrow> MemFs \<Rightarrow> MemFs" where
  "put_handle h fh fs = fs\<lparr>mf_file_handles := bt_insert h fh (mf_file_handles fs)\<rparr>"

lemma put_handle_inv:
  assumes "mid_inv d fs" and "referenced fs (fh_node fh)" and "mn_kind (node_at fs (fh_node fh)) \<noteq> MODE_DIR"
    and "map_of (mf_file_handles fs) h = None"
  shows "mid_inv d (put_handle h fh fs)"
proof -
  let ?fs = "put_handle h fh fs"
  have t: "table_inv fs" using assms(1) by (simp add: mid_inv_def)
  have f: "node_at ?fs b = node_at fs b" "mf_heap ?fs = mf_heap fs" for b
    by (simp_all add: put_handle_def node_at_def)
  have ref: "referenced ?fs b \<longleftrightarrow> referenced fs b" for b
    using assms(2) ex_upd_None [of "map_of (mf_file_handles fs)" h fh "\<lambda>y. fh_node y = b"] assms(4)
    by (auto simp: referenced_def put_handle_def simp del: fun_upd_apply)
  have "live_bytes ?fs = live_bytes fs" unfolding live_bytes_def f ref ..
  then have "bytes_inv ?fs" using assms(1) by (simp add: mid_inv_def bytes_inv_def put_handle_def)
  moreover have "heap_inv ?fs" using assms(1) by (simp add: mid_inv_def heap_inv_def put_handle_def)
  moreover have "table_inv ?fs"
    using t referenced_bound [OF t assms(2)] assms(3) unfolding table_inv_def put_handle_def by (simp add: bt_wf_insert)
  moreover have "limit_inv ?fs" using limit_of [OF assms(1)] by (simp add: limit_inv_def put_handle_def)
  ultimately show ?thesis using assms(1) by (simp add: mid_inv_def put_handle_def)
qed

text \<open>Fields that no part of the invariant mentions.\<close>

lemma heap_inv_fields [simp]:
  "heap_inv (fs\<lparr>mf_next_handle := h\<rparr>) = heap_inv fs" "heap_inv (fs\<lparr>mf_staging_file := s\<rparr>) = heap_inv fs"
  "heap_inv (fs\<lparr>mf_writeback := w\<rparr>) = heap_inv fs" "heap_inv (fs\<lparr>mf_dir_handles := ds\<rparr>) = heap_inv fs"
  "heap_inv (fs\<lparr>mf_used_bytes := u\<rparr>) = heap_inv fs"
  by (simp_all add: heap_inv_def)

lemma table_inv_fields [simp]:
  "table_inv (fs\<lparr>mf_next_handle := h\<rparr>) = table_inv fs" "table_inv (fs\<lparr>mf_staging_file := s\<rparr>) = table_inv fs"
  "table_inv (fs\<lparr>mf_writeback := w\<rparr>) = table_inv fs" "table_inv (fs\<lparr>mf_used_bytes := u\<rparr>) = table_inv fs"
  by (simp_all add: table_inv_def)

lemma bytes_inv_fields [simp]:
  "bytes_inv (fs\<lparr>mf_next_handle := h\<rparr>) = bytes_inv fs" "bytes_inv (fs\<lparr>mf_staging_file := s\<rparr>) = bytes_inv fs"
  "bytes_inv (fs\<lparr>mf_writeback := w\<rparr>) = bytes_inv fs" "bytes_inv (fs\<lparr>mf_dir_handles := ds\<rparr>) = bytes_inv fs"
  by (simp_all add: bytes_inv_def)

lemma limit_inv_fields [simp]:
  "limit_inv (fs\<lparr>mf_next_handle := h\<rparr>) = limit_inv fs" "limit_inv (fs\<lparr>mf_staging_file := s\<rparr>) = limit_inv fs"
  "limit_inv (fs\<lparr>mf_writeback := w\<rparr>) = limit_inv fs" "limit_inv (fs\<lparr>mf_dir_handles := ds\<rparr>) = limit_inv fs"
  "limit_inv (fs\<lparr>mf_used_bytes := u\<rparr>) = limit_inv fs"
  by (simp_all add: limit_inv_def)

lemma other_fields_inv [simp]:
  "mid_inv d (fs\<lparr>mf_next_handle := h\<rparr>) = mid_inv d fs" "mid_inv d (fs\<lparr>mf_staging_file := s\<rparr>) = mid_inv d fs"
  "mid_inv d (fs\<lparr>mf_writeback := w\<rparr>) = mid_inv d fs"
  by (simp_all add: mid_inv_def)

lemma dir_handles_inv:
  assumes "mid_inv d fs" and "bt_wf dhs"
    and "\<And>h dh. map_of dhs h = Some dh \<Longrightarrow> dh_node dh < length (mf_heap fs) \<and> mn_kind (node_at fs (dh_node dh)) = MODE_DIR"
  shows "mid_inv d (fs\<lparr>mf_dir_handles := dhs\<rparr>)"
proof -
  have "table_inv (fs\<lparr>mf_dir_handles := dhs\<rparr>)" using assms by (simp add: mid_inv_def table_inv_def)
  then show ?thesis using assms(1) by (simp add: mid_inv_def)
qed

section \<open>Accounting\<close>

lemma release_bytes_eq:
  "release_bytes fs n = (if n > 0 then fs\<lparr>mf_used_bytes := fetch_sub64 (mf_used_bytes fs) n\<rparr> else fs)"
  by (simp add: release_bytes_def)

lemma reserve_bytes_cases:
  assumes "reserve_bytes fs n = (r, fs')"
  shows "(r = Inl ENOSPC \<and> fs' = fs) \<or> (r = Inr () \<and> cfg_capacity (mf_cfg fs) = None \<and> fs' = fs) \<or>
    (r = Inr () \<and> n = 0 \<and> fs' = fs) \<or>
    (\<exists>cap. r = Inr () \<and> cfg_capacity (mf_cfg fs) = Some cap \<and> mf_used_bytes fs + n \<le> cap \<and>
       fs' = fs\<lparr>mf_used_bytes := mf_used_bytes fs + n\<rparr>)"
  using assms by (auto simp: reserve_bytes_def try_res_def ok_or_def checked_add64_def split: if_splits option.splits)

text \<open>A reachable regular file gets new contents, and the account moves with it.\<close>

lemma live_bytes_content:
  assumes "a < length (mf_heap fs)" and "mn_content (node_at fs a) = RegularFile old"
    and "\<And>n. mn_content (f n) = RegularFile new"
  shows "live_bytes (upd_node a f fs) + (if referenced fs a then length old else 0) =
    live_bytes fs + (if referenced fs a then length new else 0)"
proof -
  let ?g = "\<lambda>fs b. if referenced fs b then data_len (node_at fs b) else 0"
  have "sum (?g (upd_node a f fs)) {..<length (mf_heap fs)} + ?g fs a =
      sum (?g fs) {..<length (mf_heap fs)} + ?g (upd_node a f fs) a"
    by (rule sum_gain) (use assms(1) in auto)
  moreover have "data_len (node_at fs a) = length old" "data_len (node_at (upd_node a f fs) a) = length new"
    using assms by (simp_all add: data_len_def)
  ultimately show ?thesis unfolding live_bytes_def by (cases "referenced fs a") simp_all
qed

definition set_data :: "addr \<Rightarrow> bytes \<Rightarrow> InodeMeta \<Rightarrow> MemFs \<Rightarrow> MemFs" where
  "set_data a new m = upd_node a (\<lambda>n. n\<lparr>mn_content := RegularFile new, mn_meta := m\<rparr>)"

lemma set_data_inv:
  assumes inv: "mid_inv d fs" and a: "a < length (mf_heap fs)" and c: "mn_content (node_at fs a) = RegularFile old"
    and m: "im_size m = length new" "im_mode m AND MODE_TYPE_MASK = mn_kind (node_at fs a)"
    and used: "\<And>cap. cfg_capacity (mf_cfg fs) = Some cap \<Longrightarrow>
      live_bytes (set_data a new m fs) \<le> u \<and> u \<le> cap"
  shows "mid_inv d ((set_data a new m fs)\<lparr>mf_used_bytes := u\<rparr>)"
proof -
  have n: "node_ok (node_at fs a)" using inv a by (rule node_okD)
  have h: "heap_inv (set_data a new m fs)"
    using inv a n c m map_inode_upd [OF a, of "\<lambda>n. n\<lparr>mn_content := RegularFile new, mn_meta := m\<rparr>"]
    by (simp add: mid_inv_def heap_inv_def set_data_def node_ok_def kind_ok_def)
  have t: "table_inv (set_data a new m fs)"
    using inv a by (auto simp: mid_inv_def table_inv_def set_data_def)
  have "bytes_inv ((set_data a new m fs)\<lparr>mf_used_bytes := u\<rparr>)"
    using inv used by (auto simp: mid_inv_def bytes_inv_def) (auto simp: set_data_def)
  moreover have "limit_inv (set_data a new m fs)" using limit_of [OF inv] by (simp add: limit_inv_def set_data_def)
  ultimately show ?thesis using h t inv by (simp add: mid_inv_def set_data_def)
qed

subsection \<open>Growing and shrinking a file\<close>

lemma upd_node_used [simp]:
  "upd_node a f (fs\<lparr>mf_used_bytes := u\<rparr>) = (upd_node a f fs)\<lparr>mf_used_bytes := u\<rparr>"
  by (simp add: upd_node_def)

lemma upd_node_staging [simp]:
  "upd_node a f (fs\<lparr>mf_staging_file := s\<rparr>) = (upd_node a f fs)\<lparr>mf_staging_file := s\<rparr>"
  by (simp add: upd_node_def)

lemma upd_node_upd_node:
  "a < length (mf_heap fs) \<Longrightarrow> upd_node a g (upd_node a f fs) = upd_node a (\<lambda>n. g (f n)) fs"
  by (simp add: upd_node_def node_at_def)

lemma upd_node_cong: "f (node_at fs a) = g (node_at fs a) \<Longrightarrow> upd_node a f fs = upd_node a g fs"
  by (simp add: upd_node_def)

lemma content_then_meta:
  assumes "a < length (mf_heap fs)"
  shows "upd_meta a f (upd_node a (\<lambda>n. n\<lparr>mn_content := RegularFile new\<rparr>) fs) =
    set_data a new (f (mn_meta (node_at fs a))) fs"
  unfolding upd_meta_def set_data_def upd_node_upd_node [OF assms] by (rule upd_node_cong) simp

lemma release_upd: "upd_node a f (release_bytes fs n) = release_bytes (upd_node a f fs) n"
  by (simp add: release_bytes_def)

lemma release_upd_meta: "upd_meta a f (release_bytes fs n) = release_bytes (upd_meta a f fs) n"
  by (simp add: upd_meta_def release_upd)

lemma grow_inv:
  assumes inv: "mid_inv d fs" and a: "a < length (mf_heap fs)" and c: "mn_content (node_at fs a) = RegularFile old"
    and m: "im_size m = length new" "im_mode m AND MODE_TYPE_MASK = mn_kind (node_at fs a)"
    and r: "reserve_bytes fs g = (Inr u, fs1)" and len: "length new \<le> length old + g"
  shows "mid_inv d (set_data a new m fs1)"
proof -
  have live: "live_bytes (set_data a new m fs) \<le> live_bytes fs + g"
    using live_bytes_content [OF a c, of "\<lambda>n. n\<lparr>mn_content := RegularFile new, mn_meta := m\<rparr>" new] len
    by (auto simp: set_data_def split: if_splits)
  have b: "live_bytes fs \<le> mf_used_bytes fs \<and> mf_used_bytes fs \<le> cap" if "cfg_capacity (mf_cfg fs) = Some cap" for cap
    using inv that by (simp add: mid_inv_def bytes_inv_def)
  consider (none) "cfg_capacity (mf_cfg fs) = None" "fs1 = fs" | (zero) "g = 0" "fs1 = fs"
    | (some) cap where "cfg_capacity (mf_cfg fs) = Some cap" "mf_used_bytes fs + g \<le> cap"
        "fs1 = fs\<lparr>mf_used_bytes := mf_used_bytes fs + g\<rparr>"
    using reserve_bytes_cases [OF r] by auto
  then show ?thesis
  proof cases
    case none
    then show ?thesis using set_data_inv [OF inv a c m, of "mf_used_bytes fs"] by (simp add: set_data_def upd_node_def)
  next
    case zero
    have "mid_inv d ((set_data a new m fs)\<lparr>mf_used_bytes := mf_used_bytes fs\<rparr>)"
      by (rule set_data_inv [OF inv a c m]) (use b live zero(1) in fastforce)
    then show ?thesis by (simp add: zero(2) set_data_def upd_node_def)
  next
    case some
    have "mid_inv d ((set_data a new m fs)\<lparr>mf_used_bytes := mf_used_bytes fs + g\<rparr>)"
      by (rule set_data_inv [OF inv a c m]) (use b [OF some(1)] live some(1,2) in auto)
    then show ?thesis by (simp add: some(3) set_data_def)
  qed
qed

lemma shrink_inv:
  assumes inv: "mid_inv d fs" and a: "a < length (mf_heap fs)" and c: "mn_content (node_at fs a) = RegularFile old"
    and m: "im_size m = length new" "im_mode m AND MODE_TYPE_MASK = mn_kind (node_at fs a)"
    and ref: "referenced fs a" and len: "length new + g = length old"
  shows "mid_inv d (release_bytes (set_data a new m fs) g)"
proof -
  have live: "live_bytes (set_data a new m fs) + g = live_bytes fs"
    using live_bytes_content [OF a c, of "\<lambda>n. n\<lparr>mn_content := RegularFile new, mn_meta := m\<rparr>" new] len ref
    by (simp add: set_data_def)
  have "mid_inv d ((set_data a new m fs)\<lparr>mf_used_bytes := if g > 0 then fetch_sub64 (mf_used_bytes fs) g else mf_used_bytes fs\<rparr>)"
  proof (rule set_data_inv [OF inv a c m])
    fix cap
    assume "cfg_capacity (mf_cfg fs) = Some cap"
    then have "live_bytes fs \<le> mf_used_bytes fs" "mf_used_bytes fs \<le> cap" "cap < two64"
      using inv by (simp_all add: mid_inv_def bytes_inv_def)
    moreover from this have "fetch_sub64 (mf_used_bytes fs) g = mf_used_bytes fs - g"
      using live by (intro fetch_sub64_le) linarith+
    ultimately show "live_bytes (set_data a new m fs) \<le> (if g > 0 then fetch_sub64 (mf_used_bytes fs) g else mf_used_bytes fs)
        \<and> (if g > 0 then fetch_sub64 (mf_used_bytes fs) g else mf_used_bytes fs) \<le> cap"
      using live by auto
  qed
  then show ?thesis by (cases "g > 0") (simp_all add: release_bytes_def set_data_def upd_node_def)
qed

section \<open>Eviction and release\<close>

lemma strong_count_1: "strong_count fs (a # locals) a = 1 \<Longrightarrow> \<not> referenced fs a"
proof
  assume one: "strong_count fs (a # locals) a = 1" and "referenced fs a"
  then consider (node) ino where "map_of (mf_nodes fs) ino = Some a"
    | (handle) h fh where "map_of (mf_file_handles fs) h = Some fh" "fh_node fh = a"
    unfolding referenced_def by blast
  then show False
  proof cases
    case node
    then have "(ino, a) \<in> set (filter (\<lambda>(ino, a'). a' = a) (mf_nodes fs))" by (simp add: map_of_SomeD)
    then have "filter (\<lambda>(ino, a'). a' = a) (mf_nodes fs) \<noteq> []" by (metis empty_iff list.set(1))
    then show False using one by (simp add: strong_count_def)
  next
    case handle
    then have "(h, fh) \<in> set (filter (\<lambda>(h, fh). fh_node fh = a) (mf_file_handles fs))" by (simp add: map_of_SomeD)
    then have "filter (\<lambda>(h, fh). fh_node fh = a) (mf_file_handles fs) \<noteq> []" by (metis empty_iff list.set(1))
    then show False using one by (simp add: strong_count_def)
  qed
qed

lemma live_bytes_unref:
  assumes "mf_heap fs' = mf_heap fs" and "a < length (mf_heap fs)" and "\<And>b. b \<noteq> a \<Longrightarrow> referenced fs' b = referenced fs b"
    and "referenced fs a"
  shows "live_bytes fs' + (if referenced fs' a then 0 else data_len (node_at fs a)) = live_bytes fs"
proof -
  let ?g = "\<lambda>fs b. if referenced fs b then data_len (node_at fs b) else 0"
  have n: "node_at fs' b = node_at fs b" for b by (simp add: node_at_def assms(1))
  have "sum (?g fs') {..<length (mf_heap fs)} + ?g fs a = sum (?g fs) {..<length (mf_heap fs)} + ?g fs' a"
    by (rule sum_gain) (use assms n in auto)
  then show ?thesis unfolding live_bytes_def assms(1) using assms(4) n by (cases "referenced fs' a") simp_all
qed

text \<open>A reference goes away, and the bytes are released when it was the last one.\<close>

lemma bytes_inv_unref:
  assumes "bytes_inv fs" and "mf_heap fs' = mf_heap fs" and "mf_cfg fs' = mf_cfg fs" and "mf_used_bytes fs' = mf_used_bytes fs"
    and "a < length (mf_heap fs)" and "\<And>b. b \<noteq> a \<Longrightarrow> referenced fs' b = referenced fs b" and "referenced fs a"
  shows "bytes_inv fs'" and "\<not> referenced fs' a \<Longrightarrow> bytes_inv (release_bytes fs' (data_len (node_at fs a)))"
proof -
  note live = live_bytes_unref [OF assms(2,5,6,7)]
  show "bytes_inv fs'" using assms(1) live by (auto simp: bytes_inv_def assms(3,4))
  assume nr: "\<not> referenced fs' a"
  have "live_bytes fs' \<le> fetch_sub64 (mf_used_bytes fs) (data_len (node_at fs a)) \<and>
      fetch_sub64 (mf_used_bytes fs) (data_len (node_at fs a)) \<le> cap"
    if "cfg_capacity (mf_cfg fs) = Some cap" for cap
  proof -
    have b: "live_bytes fs \<le> mf_used_bytes fs" "mf_used_bytes fs \<le> cap" "cap < two64"
      using assms(1) that by (simp_all add: bytes_inv_def)
    then have "fetch_sub64 (mf_used_bytes fs) (data_len (node_at fs a)) = mf_used_bytes fs - data_len (node_at fs a)"
      using live nr by (intro fetch_sub64_le) auto
    then show ?thesis using b live nr by auto
  qed
  then show "bytes_inv (release_bytes fs' (data_len (node_at fs a)))"
    using \<open>bytes_inv fs'\<close> assms(1) by (auto simp: bytes_inv_def release_bytes_def assms(3,4))
qed

lemma release_bytes_fields [simp]:
  "mf_heap (release_bytes fs n) = mf_heap fs" "mf_nodes (release_bytes fs n) = mf_nodes fs"
  "mf_file_handles (release_bytes fs n) = mf_file_handles fs" "mf_dir_handles (release_bytes fs n) = mf_dir_handles fs"
  "mf_next_inode (release_bytes fs n) = mf_next_inode fs" "mf_next_handle (release_bytes fs n) = mf_next_handle fs"
  "mf_inode_count (release_bytes fs n) = mf_inode_count fs" "mf_cfg (release_bytes fs n) = mf_cfg fs"
  "mf_writeback (release_bytes fs n) = mf_writeback fs"
  "heap_inv (release_bytes fs n) = heap_inv fs" "table_inv (release_bytes fs n) = table_inv fs"
  "limit_inv (release_bytes fs n) = limit_inv fs" "node_at (release_bytes fs n) a = node_at fs a"
  by (simp_all add: release_bytes_def)

lemma ex_del:
  assumes "\<And>y. m k = Some y \<Longrightarrow> \<not> P y"
  shows "(\<exists>x y. (m(k := None)) x = Some y \<and> P y) \<longleftrightarrow> (\<exists>x y. m x = Some y \<and> P y)"
proof
  assume "\<exists>x y. m x = Some y \<and> P y"
  then obtain x y where "m x = Some y" "P y" by blast
  moreover from this have "x \<noteq> k" using assms by auto
  ultimately show "\<exists>x y. (m(k := None)) x = Some y \<and> P y" by (intro exI [of _ x] exI [of _ y]) simp
qed (auto split: if_splits)

lemma nodes_addr_unique:
  assumes "table_inv fs" and "map_of (mf_nodes fs) i = Some a" and "map_of (mf_nodes fs) j = Some a"
  shows "i = j"
proof -
  have "mn_inode (node_at fs a) = i" "mn_inode (node_at fs a) = j" using assms unfolding table_inv_def by blast+
  then show ?thesis by simp
qed

lemma evict_inode_inv:
  assumes "fs_inv fs"
  shows "fs_inv (evict_inode fs locals ino)"
proof (cases "map_of (mf_nodes fs) ino")
  case None
  have "bt_remove ino (mf_nodes fs) = mf_nodes fs"
    using None by (auto simp: bt_remove_def map_of_eq_None_iff image_iff intro!: filter_True)
  then show ?thesis using assms None by (simp add: evict_inode_def Let_def)
next
  case (Some a)
  let ?fs = "fs\<lparr>mf_nodes := bt_remove ino (mf_nodes fs)\<rparr>"
  have t: "table_inv fs" and b: "bytes_inv fs" and wf: "bt_wf (mf_nodes fs)"
    using assms by (simp_all add: mid_inv_def table_inv_def)
  have a: "a < length (mf_heap fs)" using t Some by (simp add: table_inv_def)
  have ra: "referenced fs a" using Some by (auto simp: referenced_def)
  have rb: "referenced ?fs b = referenced fs b" if "b \<noteq> a" for b
    using ex_del [of "map_of (mf_nodes fs)" ino "\<lambda>y. y = b"] that Some
    by (simp add: referenced_def del: fun_upd_apply)
  have h: "heap_inv ?fs" using assms by (simp add: mid_inv_def heap_inv_def)
  have t': "table_inv ?fs" using t by (simp add: table_inv_def bt_wf_remove)
  have l: "limit_inv ?fs" using limit_of [OF assms] by (simp add: limit_inv_def)
  have c: "mf_inode_count ?fs = length (mf_nodes ?fs) + 1"
    using bt.len_del [OF wf, of ino] Some assms by (cases "mf_nodes fs") (auto simp: mid_inv_def)
  note bu = bytes_inv_unref [OF b, of ?fs a]
  have b0: "bytes_inv ?fs" by (rule bu(1)) (use a ra rb in simp_all)
  define fs2 where "fs2 = (if strong_count ?fs (a # locals) a = 1
      then (case mn_content (node_at ?fs a) of
          RegularFile data \<Rightarrow> if length data > 0 then release_bytes ?fs (length data) else ?fs | _ \<Rightarrow> ?fs) else ?fs)"
  have "mid_inv 1 fs2"
  proof (cases "strong_count ?fs (a # locals) a = 1")
    case True
    have "bytes_inv (release_bytes ?fs (data_len (node_at fs a)))"
      by (rule bu(2)) (use a ra rb strong_count_1 [OF True] in simp_all)
    moreover have "fs2 = release_bytes ?fs (data_len (node_at fs a))"
      using True by (auto simp: fs2_def data_len_def release_bytes_def split: InodeContent.splits)
    ultimately show ?thesis using h t' l c by (simp add: mid_inv_def)
  next
    case False
    then show ?thesis using h t' l c b0 by (simp add: fs2_def mid_inv_def)
  qed
  then have "fs_inv (dec_inode_count fs2)" by (rule dec_inode_count_inv)
  then show ?thesis by (simp add: evict_inode_def Let_def Some fs2_def)
qed

lemma evict_frame [simp]:
  "mf_next_inode (evict_inode fs ls ino) = mf_next_inode fs" "mf_next_handle (evict_inode fs ls ino) = mf_next_handle fs"
  "mf_file_handles (evict_inode fs ls ino) = mf_file_handles fs" "mf_dir_handles (evict_inode fs ls ino) = mf_dir_handles fs"
  "mf_heap (evict_inode fs ls ino) = mf_heap fs" "mf_cfg (evict_inode fs ls ino) = mf_cfg fs"
  "mf_nodes (evict_inode fs ls ino) = bt_remove ino (mf_nodes fs)"
  by (auto simp: evict_inode_def dec_inode_count_def Let_def split: option.split InodeContent.split)

lemma map_of_node:
  assumes "mid_inv d fs" and "map_of (mf_nodes fs) ino = Some a"
  shows "a < length (mf_heap fs)" and "mn_inode (node_at fs a) = ino"
  using assms by (auto simp: mid_inv_def table_inv_def)

lemma forget_one_inv:
  assumes "fs_inv fs"
  shows "fs_inv (forget_one fs locals ino count)"
proof (cases "map_of (mf_nodes fs) ino")
  case (Some a)
  have a: "a < length (mf_heap fs)" using assms Some by (rule map_of_node)
  let ?p = "mn_lookup_refs (node_at fs a)"
  let ?fs1 = "upd_node a (\<lambda>n. n\<lparr>mn_lookup_refs := fetch_sub64 ?p count\<rparr>) fs"
  let ?fs2 = "if ?p < count then upd_node a (\<lambda>n. n\<lparr>mn_lookup_refs := 0\<rparr>) ?fs1 else ?fs1"
  have "fs_inv ?fs1" using upd_refs_inv(1) [OF assms a] .
  then have "fs_inv ?fs2" using upd_refs_inv(1) [of 0 ?fs1 a "\<lambda>_. 0"] a by simp
  then show ?thesis by (simp add: forget_one_def Some Let_def evict_inode_inv)
qed (simp add: forget_one_def assms)

lemma try_evict_inv: "fs_inv fs \<Longrightarrow> fs_inv (try_evict fs locals ino)"
  by (simp add: try_evict_def Let_def evict_inode_inv split: option.split)

lemma do_release_inv:
  assumes "fs_inv fs"
  shows "fs_inv (snd (do_release fs ino handle))"
proof (cases "ino = INIT_INODE \<or> map_of (mf_file_handles fs) handle = None")
  case True
  then show ?thesis using assms by (auto simp: do_release_def)
next
  case False
  then obtain fh where fh: "map_of (mf_file_handles fs) handle = Some fh" by blast
  let ?a = "fh_node fh" and ?fs = "fs\<lparr>mf_file_handles := bt_remove handle (mf_file_handles fs)\<rparr>"
  have t: "table_inv fs" and b: "bytes_inv fs" using assms by (simp_all add: mid_inv_def)
  have a: "?a < length (mf_heap fs)" using t fh unfolding table_inv_def by blast
  have ra: "referenced fs ?a" using fh by (auto simp: referenced_def)
  have rb: "referenced ?fs b = referenced fs b" if "b \<noteq> ?a" for b
    using ex_del [of "map_of (mf_file_handles fs)" handle "\<lambda>y. fh_node y = b"] that fh
    by (simp add: referenced_def del: fun_upd_apply)
  have inv': "heap_inv ?fs" "table_inv ?fs" "limit_inv ?fs" "mf_inode_count ?fs = length (mf_nodes ?fs)"
    using assms t by (auto simp: mid_inv_def heap_inv_def table_inv_def limit_inv_def bt_wf_remove)
  note bu = bytes_inv_unref [OF b, of ?fs ?a]
  have b0: "bytes_inv ?fs" by (rule bu(1)) (use a ra rb in simp_all)
  have b1: "bytes_inv (release_bytes ?fs (data_len (node_at fs ?a)))" if "strong_count ?fs [?a] ?a = 1"
    by (rule bu(2)) (use a ra rb strong_count_1 [OF that] in simp_all)
  have "snd (do_release fs ino handle) = ?fs \<or>
      strong_count ?fs [?a] ?a = 1 \<and> snd (do_release fs ino handle) = release_bytes ?fs (data_len (node_at fs ?a))"
    using False fh by (auto simp: do_release_def Let_def data_len_def release_bytes_def split: InodeContent.split)
  then show ?thesis using inv' b0 b1 by (auto simp: mid_inv_def)
qed

end
