(* ===== verification/Memfs_Ops.thy ===== *)
theory Memfs_Ops
  imports Memfs_Inv
begin

text \<open>
  Every request of the in-memory filesystem keeps the invariant of \<open>Memfs_Inv\<close>, in every branch,
  errors included.
\<close>

section \<open>Frames\<close>

lemmas frame_defs = upd_meta_def ch_insert_def ch_remove_def set_parent_def inc_lookup_def

text \<open>A request that leaves the handle tables and the allocation counters alone.\<close>

definition steady :: "MemFs \<Rightarrow> MemFs \<Rightarrow> bool" where
  "steady fs fs' \<longleftrightarrow> fs_inv fs' \<and> mf_file_handles fs' = mf_file_handles fs \<and> mf_dir_handles fs' = mf_dir_handles fs \<and>
     mf_next_inode fs' = mf_next_inode fs \<and> mf_next_handle fs' = mf_next_handle fs \<and> mf_cfg fs' = mf_cfg fs"

lemma steady_refl: "fs_inv fs \<Longrightarrow> steady fs fs"
  by (simp add: steady_def)

lemma steady_trans: "steady fs fs' \<Longrightarrow> steady fs' fs'' \<Longrightarrow> steady fs fs''"
  by (simp add: steady_def)

lemma steady_inv: "steady fs fs' \<Longrightarrow> fs_inv fs'"
  by (simp add: steady_def)

named_theorems safe_meta \<open>changes of metadata that keep size and file type\<close>

lemma touch_dir_safe [safe_meta]: "meta_safe (touch_dir now)"
  by (simp add: meta_safe_def touch_dir_def)

lemma nlink_safe [safe_meta]:
  "meta_safe saturating_dec" "meta_safe (set_ctime now)"
  "meta_safe (\<lambda>m. m\<lparr>im_nlink := g m\<rparr>)" "meta_safe (\<lambda>m. m\<lparr>im_nlink := g m, im_ctime := now\<rparr>)"
  "meta_safe (\<lambda>m. (saturating_dec m)\<lparr>im_ctime := now\<rparr>)" "meta_safe (\<lambda>m. touch_dir now (saturating_dec m))"
  "meta_safe (\<lambda>m. touch_dir now (m\<lparr>im_nlink := g m\<rparr>))"
  "meta_safe (\<lambda>m. set_ctime now (m\<lparr>im_nlink := g m\<rparr>))" "meta_safe (\<lambda>m. set_ctime now (saturating_dec m))"
  by (simp_all add: meta_safe_def saturating_dec_def set_ctime_def touch_dir_def)

lemma mask_clear: "(x AND NOT (MODE_SETUID OR MODE_SETGID)) AND MODE_TYPE_MASK = x AND MODE_TYPE_MASK"
  by (simp add: mode_consts and.assoc)

lemma clear_privs_safe [safe_meta]: "meta_safe clear_privs"
  by (simp add: meta_safe_def clear_privs_def mask_clear [simplified])

lemma steady_meta: "steady fs fs' \<Longrightarrow> a < length (mf_heap fs') \<Longrightarrow> meta_safe f \<Longrightarrow> steady fs (upd_meta a f fs')"
  by (simp add: steady_def upd_meta_inv) (simp add: upd_meta_def)

lemma steady_ch_insert: "steady fs fs' \<Longrightarrow> a < length (mf_heap fs') \<Longrightarrow> name_ok name \<Longrightarrow> steady fs (ch_insert a name ino fs')"
  by (simp add: steady_def ch_insert_inv) (simp add: ch_insert_def)

lemma steady_ch_remove: "steady fs fs' \<Longrightarrow> a < length (mf_heap fs') \<Longrightarrow> steady fs (ch_remove a name fs')"
  by (simp add: steady_def ch_remove_inv) (simp add: ch_remove_def)

lemma steady_set_parent: "steady fs fs' \<Longrightarrow> a < length (mf_heap fs') \<Longrightarrow> steady fs (set_parent a p fs')"
  by (simp add: steady_def set_parent_inv) (simp add: set_parent_def)

lemma steady_inc_lookup: "steady fs fs' \<Longrightarrow> a < length (mf_heap fs') \<Longrightarrow> steady fs (inc_lookup a fs')"
  by (simp add: steady_def inc_lookup_inv) (simp add: inc_lookup_def)

lemma steady_xattrs:
  "steady fs fs' \<Longrightarrow> a < length (mf_heap fs') \<Longrightarrow> steady fs (upd_node a (\<lambda>n. n\<lparr>mn_xattrs := x n\<rparr>) fs')"
  by (simp add: steady_def upd_refs_inv(2))

lemma steady_forget: "steady fs fs' \<Longrightarrow> steady fs (forget_one fs' locals ino count)"
  by (simp add: steady_def forget_one_inv) (auto simp: forget_one_def Let_def split: option.split)

lemma steady_try_evict: "steady fs fs' \<Longrightarrow> steady fs (try_evict fs' locals ino)"
  by (simp add: steady_def try_evict_inv) (auto simp: try_evict_def Let_def split: option.split)

lemma heap_len [simp]:
  "length (mf_heap (upd_meta a f fs)) = length (mf_heap fs)" "length (mf_heap (ch_insert a n i fs)) = length (mf_heap fs)"
  "length (mf_heap (ch_remove a n fs)) = length (mf_heap fs)" "length (mf_heap (set_parent a p fs)) = length (mf_heap fs)"
  "length (mf_heap (inc_lookup a fs)) = length (mf_heap fs)"
  by (simp_all add: frame_defs)

lemmas steady_intros = steady_meta steady_ch_insert steady_ch_remove steady_set_parent steady_inc_lookup steady_xattrs
  steady_forget steady_try_evict steady_refl

section \<open>Requests without allocation\<close>

lemma memfs_lookup_steady: "fs_inv fs \<Longrightarrow> steady fs (snd (memfs_lookup fs parent name))"
  by (auto simp: memfs_lookup_def try_res_def Let_def intro!: steady_intros dest: get_node_ok(1)
      split: sum.split InodeContent.split)

lemma memfs_forget_steady: "fs_inv fs \<Longrightarrow> steady fs (memfs_forget fs ino count)"
  by (simp add: memfs_forget_def steady_intros)

lemma batch_forget_steady: "steady fs fs' \<Longrightarrow> steady fs (batch_forget fs' reqs)"
  by (induction fs' reqs rule: batch_forget.induct) (simp_all add: steady_forget)

lemma name_ok_iff: "name_ok name \<longleftrightarrow> (\<exists>u. validate_memfs_name name = Inr u)"
  by (simp add: name_ok_def)

lemma do_link_steady: "fs_inv fs \<Longrightarrow> steady fs (snd (do_link fs ino newparent newname now))"
  by (auto simp: do_link_def try_res_def Let_def name_ok_def intro!: steady_intros safe_meta dest: get_node_ok(1)
      split: sum.split InodeContent.split)

lemma get_node_len: "fs_inv fs \<Longrightarrow> get_node fs ino = Inr a \<Longrightarrow> a < length (mf_heap fs)"
  by (rule get_node_ok)

lemma get_node_ch_remove: "get_node (ch_remove a n fs) ino = get_node fs ino"
  by (simp add: get_node_def ch_remove_def)

lemma do_unlink_steady: "fs_inv fs \<Longrightarrow> steady fs (snd (do_unlink fs parent name now))"
  by (auto simp: do_unlink_def try_res_def Let_def name_ok_def get_node_ch_remove intro!: steady_intros safe_meta
      dest: get_node_len split: sum.split InodeContent.split)

lemma do_rmdir_steady: "fs_inv fs \<Longrightarrow> steady fs (snd (do_rmdir fs parent name now))"
  by (auto simp: do_rmdir_def try_res_def Let_def intro!: steady_intros safe_meta
      dest: get_node_len split: sum.split InodeContent.split)

lemma rename_exchange_steady:
  assumes "fs_inv fs" and "old_parent < length (mf_heap fs)" and "new_parent < length (mf_heap fs)"
    and "source_node < length (mf_heap fs)" and "name_ok oldname" and "name_ok newname"
  shows "steady fs (snd (rename_exchange fs olddir oldname newdir newname old_parent new_parent source_ino source_node
    dest_ino now))"
  using assms
  by (auto simp: rename_exchange_def try_res_def Let_def intro!: steady_intros safe_meta dest: get_node_len
      split: sum.split)

lemma rename_dest_steady:
  assumes "fs_inv fs" and "new_parent < length (mf_heap fs)"
  shows "steady fs (snd (rename_dest fs new_parent sd dest_ino now))"
    and "length (mf_heap (snd (rename_dest fs new_parent sd dest_ino now))) = length (mf_heap fs)"
  using assms
  by (auto simp: rename_dest_def try_res_def Let_def intro!: steady_intros safe_meta dest: get_node_len
      split: sum.split option.split)

lemma rename_move_steady:
  assumes "steady fs0 fs" and "old_parent < length (mf_heap fs)" and "new_parent < length (mf_heap fs)"
    and "source_node < length (mf_heap fs)" and "name_ok newname"
  shows "steady fs0 (rename_move fs olddir oldname newdir newname old_parent new_parent source_ino source_node now)"
  using assms by (auto simp: rename_move_def Let_def intro!: steady_intros safe_meta)

lemma rename_replace_steady:
  assumes "fs_inv fs" and "op < length (mf_heap fs)" and "np < length (mf_heap fs)" and "sn < length (mf_heap fs)"
    and "name_ok newname"
  shows "steady fs (snd (rename_replace fs olddir oldname newdir newname op np si sn sd dest now))"
proof -
  obtain r fs' where d: "rename_dest fs np sd dest now = (r, fs')" by (cases "rename_dest fs np sd dest now")
  have s: "steady fs fs'" "length (mf_heap fs') = length (mf_heap fs)"
    using rename_dest_steady [OF assms(1,3), of sd dest now] by (simp_all add: d)
  have "steady fs (rename_move fs' olddir oldname newdir newname op np si sn now)"
    by (rule rename_move_steady) (use s assms in simp_all)
  then show ?thesis
    using s(1) by (auto simp: rename_replace_def d Let_def intro!: steady_try_evict split: sum.split option.split)
qed

lemma steady_try:
  "fs_inv fs \<Longrightarrow> (\<And>a. r = Inr a \<Longrightarrow> steady fs (snd (k a))) \<Longrightarrow> steady fs (snd (try_res r fs k))"
  by (cases r) (simp_all add: steady_refl)

lemma steady_if:
  "(c \<Longrightarrow> steady fs (snd x)) \<Longrightarrow> (\<not> c \<Longrightarrow> steady fs (snd y)) \<Longrightarrow> steady fs (snd (if c then x else y))"
  by simp

lemma steady_dir:
  "fs_inv fs \<Longrightarrow> (\<And>ch p. c = Directory ch p \<Longrightarrow> steady fs (snd (k ch p))) \<Longrightarrow>
     steady fs (snd (case c of RegularFile d \<Rightarrow> (Inl ENOTDIR, fs) | Directory ch p \<Rightarrow> k ch p | Symlink t \<Rightarrow> (Inl ENOTDIR, fs)
       | Special \<Rightarrow> (Inl ENOTDIR, fs)))"
  by (cases c) (simp_all add: steady_refl)

lemma steady_err: "fs_inv fs \<Longrightarrow> steady fs (snd (r, fs))"
  by (simp add: steady_refl)

lemma do_rename_steady:
  assumes "fs_inv fs"
  shows "steady fs (snd (do_rename fs olddir oldname newdir newname flags now))"
  unfolding do_rename_def Let_def
  by (intro steady_try steady_if steady_dir steady_err rename_exchange_steady rename_replace_steady assms)
    (auto simp: name_ok_def dest: get_node_len [OF assms] split: if_splits)

section \<open>Requests on data\<close>

lemma setattr_meta_safe: "meta_safe (setattr_meta valid attr now1 now2 now3)"
proof -
  have m: "((x AND MODE_TYPE_MASK) OR (y AND NOT MODE_TYPE_MASK)) AND MODE_TYPE_MASK = x AND MODE_TYPE_MASK" for x y :: u32
    by (simp add: mode_consts word_ao_dist and.assoc)
  show ?thesis
    by (simp add: meta_safe_def setattr_meta_def Let_def m mask_clear [simplified])
qed

lemma node_okE:
  assumes "node_ok n"
  shows "mn_content n = RegularFile d \<Longrightarrow> im_size (mn_meta n) = length d"
    and "im_mode (mn_meta n) AND MODE_TYPE_MASK = mn_kind n"
  using assms by (auto simp: node_ok_def)

lemma upd_node_same: "f (node_at fs a) = node_at fs a \<Longrightarrow> upd_node a f fs = fs"
  by (simp add: upd_node_def node_at_def)

lemma reserve_frame:
  assumes "reserve_bytes fs n = (r, fs')"
  shows "mf_heap fs' = mf_heap fs" and "mf_file_handles fs' = mf_file_handles fs" and "mf_dir_handles fs' = mf_dir_handles fs"
    and "mf_next_inode fs' = mf_next_inode fs" and "mf_next_handle fs' = mf_next_handle fs" and "node_at fs' a = node_at fs a"
    and "mf_cfg fs' = mf_cfg fs"
  using reserve_bytes_cases [OF assms] by auto

lemma reserve_err: "reserve_bytes fs n = (Inl e, fs') \<Longrightarrow> fs' = fs"
  by (drule reserve_bytes_cases) auto

lemma setattr_size_meta:
  assumes inv: "fs_inv fs" and g: "get_node fs ino = Inr a" and s: "setattr_size fs a sz = (Inr new_len, fs')"
  shows "steady fs (upd_meta a (im_size_update (\<lambda>_. new_len)) fs')" and "length (mf_heap fs') = length (mf_heap fs)"
proof -
  note ga = get_node_ok [OF inv g]
  obtain data where c: "mn_content (node_at fs a) = RegularFile data"
    using s by (auto simp: setattr_size_def split: InodeContent.splits)
  let ?m = "(mn_meta (node_at fs a))\<lparr>im_size := new_len\<rparr>"
  have m: "im_mode ?m AND MODE_TYPE_MASK = mn_kind (node_at fs a)" using ga(5) by (simp add: node_ok_def)
  have "new_len = nat sz" using s by (auto simp: setattr_size_def c Let_def split: if_splits prod.splits sum.splits)
  then consider
      (shrink) "new_len < length data" "fs' = release_bytes (upd_node a (\<lambda>n. n\<lparr>mn_content := RegularFile (take new_len data)\<rparr>) fs)
          (length data - new_len)"
    | (grow) fs1 u where "length data < new_len" "reserve_bytes fs (new_len - length data) = (Inr u, fs1)"
        "fs' = upd_node a (\<lambda>n. n\<lparr>mn_content := RegularFile (data @ replicate (new_len - length data) 0)\<rparr>) fs1"
    | (same) "new_len = length data" "fs' = fs"
    using s by (auto simp: setattr_size_def c Let_def split: if_splits prod.splits sum.splits)
  then have "steady fs (upd_meta a (im_size_update (\<lambda>_. new_len)) fs') \<and> length (mf_heap fs') = length (mf_heap fs)"
  proof cases
    case shrink
    have "fs_inv (release_bytes (set_data a (take new_len data) ?m fs) (length data - new_len))"
      by (rule shrink_inv [OF inv ga(1) c _ m ga(4)]) (use shrink(1) in simp_all)
    moreover have "upd_meta a (im_size_update (\<lambda>_. new_len)) fs' =
        release_bytes (set_data a (take new_len data) ?m fs) (length data - new_len)"
      using ga(1) by (simp add: shrink(2) release_upd_meta content_then_meta)
    ultimately show ?thesis by (simp add: steady_def set_data_def shrink(2))
  next
    case grow
    note fr = reserve_frame [OF grow(2)]
    have "fs_inv (set_data a (data @ replicate (new_len - length data) 0) ?m fs1)"
      by (rule grow_inv [OF inv ga(1) c _ m grow(2)]) (use grow(1) in simp_all)
    then show ?thesis using ga(1) by (simp add: grow(3) content_then_meta steady_def fr) (simp add: set_data_def fr)
  next
    case same
    have "im_size (mn_meta (node_at fs a)) = new_len" using node_okE(1) [OF ga(5) c] same(1) by simp
    then have "upd_meta a (im_size_update (\<lambda>_. new_len)) fs = fs"
      unfolding upd_meta_def by (intro upd_node_same) (cases "node_at fs a"; cases "mn_meta (node_at fs a)"; simp)
    then show ?thesis using steady_refl [OF inv] same by simp
  qed
  then show "steady fs (upd_meta a (im_size_update (\<lambda>_. new_len)) fs')" "length (mf_heap fs') = length (mf_heap fs)" by simp_all
qed

lemma setattr_size_err: "setattr_size fs a sz = (Inl e, fs') \<Longrightarrow> fs' = fs"
  by (auto simp: setattr_size_def Let_def dest: reserve_bytes_cases split: InodeContent.splits if_splits prod.splits sum.splits)

lemma do_setattr_steady:
  assumes inv: "fs_inv fs"
  shows "steady fs (snd (do_setattr fs ino attr valid now1 now2 now3))"
proof -
  have meta: "steady fs (upd_meta a (setattr_meta valid attr now1 now2 now3) fs')"
    if "steady fs fs'" "a < length (mf_heap fs')" for a fs'
    using that by (intro steady_meta setattr_meta_safe)
  have "steady fs (snd (do_setattr fs ino attr valid now1 now2 now3))" if g: "get_node fs ino = Inr a" "ino \<noteq> INIT_INODE" for a
  proof (cases "SA_SIZE \<in> valid")
    case True
    obtain r fs' where s: "setattr_size fs a (st_size attr) = (r, fs')" by (cases "setattr_size fs a (st_size attr)")
    show ?thesis
    proof (cases r)
      case (Inl e)
      then show ?thesis using steady_refl [OF inv] setattr_size_err [of fs a "st_size attr" e fs'] s g True by (simp add: do_setattr_def)
    next
      case (Inr len)
      note sm = setattr_size_meta [OF inv g(1) s [unfolded Inr]]
      have "a < length (mf_heap (upd_meta a (im_size_update (\<lambda>_. len)) fs'))" using get_node_len [OF inv g(1)] sm(2) by simp
      then show ?thesis using meta [OF sm(1)] s g True Inr by (simp add: do_setattr_def Let_def)
    qed
  next
    case False
    then show ?thesis using meta [OF steady_refl [OF inv] get_node_len [OF inv g(1)]] g by (simp add: do_setattr_def Let_def)
  qed
  then show ?thesis using steady_refl [OF inv] by (cases "get_node fs ino") (auto simp: do_setattr_def)
qed

lemma handle_node:
  assumes "fs_inv fs" and "map_of (mf_file_handles fs) h = Some fh"
  shows "fh_node fh < length (mf_heap fs)" and "node_ok (node_at fs (fh_node fh))" and "referenced fs (fh_node fh)"
proof -
  show l: "fh_node fh < length (mf_heap fs)" using assms by (auto simp: mid_inv_def table_inv_def)
  show "node_ok (node_at fs (fh_node fh))" using assms(1) l by (rule node_okD)
  show "referenced fs (fh_node fh)" using assms(2) by (auto simp: referenced_def)
qed

lemma write_data_steady:
  assumes inv: "fs_inv fs" and a: "a < length (mf_heap fs)" and c: "mn_content (node_at fs a) = RegularFile data"
  shows "steady fs (snd (write_data fs a app offset buf kill_priv now data))"
proof -
  let ?start = "if app then length data else offset"
  let ?e = "?start + length buf"
  define new where "new = splice ?start buf data"
  have len: "length new = max (length data) ?e" by (auto simp: new_def splice_def Let_def)
  define m where "m = (mn_meta (node_at fs a))\<lparr>im_size := length new, im_mtime := now, im_ctime := now\<rparr>"
  have ok: "node_ok (node_at fs a)" using inv a by (rule node_okD)
  have wr: "steady fs (set_data a new (if kill_priv then clear_privs m else m) fs1)"
    if r: "reserve_bytes fs (?e - length data) = (Inr u, fs1)" for u fs1
  proof -
    have "fs_inv (set_data a new (if kill_priv then clear_privs m else m) fs1)"
      by (rule grow_inv [OF inv a c _ _ r])
        (use len node_okE(2) [OF ok] in \<open>auto simp: m_def clear_privs_def mask_clear [simplified]\<close>)
    then show ?thesis using reserve_frame [OF r] by (simp add: steady_def set_data_def)
  qed
  have step: "(let fs = upd_node a (\<lambda>n. n\<lparr>mn_content := RegularFile new\<rparr>) fs1;
        fs = upd_meta a (\<lambda>m. m\<lparr>im_size := length new, im_mtime := now, im_ctime := now\<rparr>) fs
      in if kill_priv then upd_meta a clear_privs fs else fs) = set_data a new (if kill_priv then clear_privs m else m) fs1"
    if "mf_heap fs1 = mf_heap fs" for fs1
  proof -
    have n: "node_at fs1 a = node_at fs a" "a < length (mf_heap fs1)" using that a by (simp_all add: node_at_def)
    show ?thesis
      using n by (simp add: Let_def content_then_meta m_def [symmetric])
        (simp add: upd_meta_def set_data_def upd_node_upd_node)
  qed
  have res: "(if ?e > length data then reserve_bytes fs (?e - length data) else (Inr (), fs)) = reserve_bytes fs (?e - length data)"
    by (simp add: reserve_bytes_def)
  obtain r fs1 where r: "reserve_bytes fs (?e - length data) = (r, fs1)" by (cases "reserve_bytes fs (?e - length data)")
  show ?thesis
  proof (cases "?e < two64 \<and> ?e \<le> i64_max")
    case True
    then have c: "ok_or (checked_add64 ?start (length buf)) EFBIG = Inr ?e" and le: "\<not> ?e > i64_max"
      by (simp_all add: checked_add64_def)
    have w: "write_data fs a app offset buf kill_priv now data =
        (case reserve_bytes fs (?e - length data) of
           (Inl e, fs) \<Rightarrow> (Inl e, fs)
         | (Inr _, fs) \<Rightarrow> (Inr (length buf),
             let fs = upd_node a (\<lambda>n. n\<lparr>mn_content := RegularFile new\<rparr>) fs;
                 fs = upd_meta a (\<lambda>m. m\<lparr>im_size := length new, im_mtime := now, im_ctime := now\<rparr>) fs
             in if kill_priv then upd_meta a clear_privs fs else fs))"
      unfolding write_data_def Let_def c try_res_simps new_def [symmetric] res if_not_P [OF le] by (rule refl)
    show ?thesis
    proof (cases r)
      case (Inl e)
      then have "fs1 = fs" using r reserve_err by blast
      then show ?thesis unfolding w r using Inl steady_refl [OF inv] by simp
    next
      case (Inr u)
      have "snd (write_data fs a app offset buf kill_priv now data) =
          set_data a new (if kill_priv then clear_privs m else m) fs1"
        unfolding w r Inr prod.case sum.case snd_conv by (rule step [OF reserve_frame(1) [OF r]])
      then show ?thesis using wr [OF r [unfolded Inr]] by simp
    qed
  next
    case False
    then have "snd (write_data fs a app offset buf kill_priv now data) = fs"
      by (auto simp: write_data_def Let_def checked_add64_def not_less)
    then show ?thesis using inv by (simp add: steady_refl)
  qed
qed

lemma steady_staging: "steady fs fs' \<Longrightarrow> steady fs (fs'\<lparr>mf_staging_file := x\<rparr>)"
  by (simp add: steady_def)

lemma do_read_steady: "fs_inv fs \<Longrightarrow> steady fs (snd (do_read fs io ino handle sz offset))"
  by (auto simp: do_read_def try_res_def Let_def intro!: steady_refl steady_staging split: sum.split InodeContent.split)

lemma do_write_steady:
  assumes "fs_inv fs"
  shows "steady fs (snd (do_write fs io ino handle sz offset kill_priv now))"
proof -
  have w: "steady fs (snd (write_data (fs\<lparr>mf_staging_file := x\<rparr>) (fh_node fh) app offset buf kill_priv now data))"
    if "map_of (mf_file_handles fs) handle = Some fh" "mn_content (node_at fs (fh_node fh)) = RegularFile data"
    for fh app buf data x
  proof -
    have s: "steady fs (fs\<lparr>mf_staging_file := x\<rparr>)" using steady_staging [OF steady_refl [OF assms]] .
    show ?thesis
      by (rule steady_trans [OF s write_data_steady])
        (use assms that handle_node(1) [OF assms that(1)] in simp_all)
  qed
  show ?thesis
    using assms
    by (auto simp: do_write_def try_res_def Let_def intro!: w steady_refl steady_staging
        split: sum.split InodeContent.split prod.split if_splits)
qed

lemma do_fallocate_steady:
  assumes inv: "fs_inv fs"
  shows "steady fs (snd (do_fallocate fs ino handle mode offset len))"
proof -
  have grow: "steady fs (upd_meta a (im_size_update (\<lambda>_. n)) (upd_node a (\<lambda>nd. nd\<lparr>mn_content :=
        RegularFile (d @ replicate (n - length d) 0)\<rparr>) fs1))"
    if h: "map_of (mf_file_handles fs) handle = Some fh" "fh_node fh = a" "mn_content (node_at fs a) = RegularFile d"
      "reserve_bytes fs (n - length d) = (Inr u, fs1)" "length d < n" for fh a d n u fs1
  proof -
    note hn = handle_node [OF inv h(1), unfolded h(2)]
    note fr = reserve_frame [OF h(4)]
    let ?m = "(mn_meta (node_at fs a))\<lparr>im_size := n\<rparr>"
    have "fs_inv (set_data a (d @ replicate (n - length d) 0) ?m fs1)"
      by (rule grow_inv [OF inv hn(1) h(3) _ _ h(4)]) (use h(5) node_okE(2) [OF hn(2)] in simp_all)
    then show ?thesis
      using hn(1) fr by (simp add: content_then_meta steady_def) (simp add: set_data_def fr)
  qed
  have punch: "steady fs (upd_node a (\<lambda>n. n\<lparr>mn_content := RegularFile d'\<rparr>) fs)"
    if h: "map_of (mf_file_handles fs) handle = Some fh" "fh_node fh = a" "mn_content (node_at fs a) = RegularFile d"
      "length d' = length d" for fh a d d'
  proof -
    note hn = handle_node [OF inv h(1), unfolded h(2)]
    have "fs_inv (upd_node a (\<lambda>n. n\<lparr>mn_content := RegularFile d'\<rparr>) fs)"
      by (rule upd_node_inv [OF inv hn(1)]) (use hn(2) h(3,4) in \<open>auto simp: node_ok_def kind_ok_def data_len_def\<close>)
    then show ?thesis by (simp add: steady_def)
  qed
  show ?thesis
    unfolding do_fallocate_def Let_def
    by (intro steady_if steady_err steady_try inv)
      (use inv grow punch in
        \<open>auto intro: steady_refl dest: reserve_err split: InodeContent.split prod.split sum.split\<close>)
qed

lemma do_setxattr_steady: "fs_inv fs \<Longrightarrow> steady fs (snd (do_setxattr fs ino name val flags))"
  by (auto simp: do_setxattr_def try_res_def Let_def intro!: steady_intros dest: get_node_ok(1) split: sum.split)

lemma do_removexattr_steady: "fs_inv fs \<Longrightarrow> steady fs (snd (do_removexattr fs ino name))"
  by (auto simp: do_removexattr_def try_res_def Let_def intro!: steady_intros dest: get_node_ok(1) split: sum.split)

section \<open>Requests that allocate\<close>

text \<open>Handles in use are below the next one to be given out.\<close>

definition handles_inv :: "MemFs \<Rightarrow> bool" where
  "handles_inv fs \<longleftrightarrow> (\<forall>h. mf_next_handle fs \<le> h \<longrightarrow>
     map_of (mf_file_handles fs) h = None \<and> map_of (mf_dir_handles fs) h = None)"

definition sound :: "MemFs \<Rightarrow> bool" where
  "sound fs \<longleftrightarrow> fs_inv fs \<and> handles_inv fs"

text \<open>The two counters are at least \<open>n\<close> steps away from wrapping around.\<close>

definition roomy :: "nat \<Rightarrow> MemFs \<Rightarrow> bool" where
  "roomy n fs \<longleftrightarrow> mf_next_inode fs + n < two64 \<and> mf_next_handle fs + n < two64"

definition advance :: "MemFs \<Rightarrow> MemFs \<Rightarrow> bool" where
  "advance fs fs' \<longleftrightarrow> sound fs' \<and> mf_next_inode fs' \<le> mf_next_inode fs + 1 \<and>
     mf_next_handle fs' \<le> mf_next_handle fs + 1 \<and> mf_cfg fs' = mf_cfg fs"

lemma advance_refl: "sound fs \<Longrightarrow> advance fs fs"
  by (simp add: advance_def)

lemma steady_advance: "sound fs \<Longrightarrow> steady fs fs' \<Longrightarrow> advance fs fs'"
  by (simp add: advance_def sound_def steady_def handles_inv_def)

lemma advance_try: "sound fs \<Longrightarrow> (\<And>x. r = Inr x \<Longrightarrow> advance fs (snd (k x))) \<Longrightarrow> advance fs (snd (try_res r fs k))"
  by (cases r) (simp_all add: try_res_def advance_refl)

lemma advance_if: "(c \<Longrightarrow> advance fs (snd x)) \<Longrightarrow> (\<not> c \<Longrightarrow> advance fs (snd y)) \<Longrightarrow> advance fs (snd (if c then x else y))"
  by simp

lemma advance_err: "sound fs \<Longrightarrow> advance fs (snd (Inl e, fs))"
  by (simp add: advance_refl)

text \<open>A new file handle on a reachable node that is no directory.\<close>

lemma add_handle_advance:
  assumes inv: "fs_inv fs" and h: "handles_inv fs" and room: "mf_next_handle fs + 1 < two64"
    and a: "referenced fs (fh_node fh)" "mn_kind (node_at fs (fh_node fh)) \<noteq> MODE_DIR"
    and e: "add_handle fh fs = (x, fs')"
  shows "sound fs' \<and> mf_next_inode fs' = mf_next_inode fs \<and> mf_next_handle fs' = mf_next_handle fs + 1 \<and>
    mf_cfg fs' = mf_cfg fs"
proof -
  let ?g = "fs\<lparr>mf_next_handle := mf_next_handle fs + 1\<rparr>"
  have f: "fs' = put_handle (mf_next_handle fs) fh ?g"
    using e room by (auto simp: add_handle_def put_handle_def Let_def fetch_add64_def)
  have "fs_inv (put_handle (mf_next_handle fs) fh ?g)"
    using inv h a by (intro put_handle_inv) (simp_all add: handles_inv_def)
  then show ?thesis
    using h by (simp add: f sound_def) (simp add: put_handle_def handles_inv_def)
qed

lemma open_truncate_steady:
  assumes inv: "fs_inv fs" and n: "get_node fs ino = Inr a"
  shows "steady fs (open_truncate fs a now)" and "referenced (open_truncate fs a now) a"
    and "mn_kind (node_at (open_truncate fs a now) a) = mn_kind (node_at fs a)"
    and "length (mf_heap (open_truncate fs a now)) = length (mf_heap fs)"
proof -
  note g = get_node_ok [OF inv n]
  have "steady fs (open_truncate fs a now) \<and> referenced (open_truncate fs a now) a \<and>
      mn_kind (node_at (open_truncate fs a now) a) = mn_kind (node_at fs a) \<and>
      length (mf_heap (open_truncate fs a now)) = length (mf_heap fs)"
  proof (cases "mn_content (node_at fs a)")
    case (RegularFile data)
    let ?m = "(mn_meta (node_at fs a))\<lparr>im_size := 0, im_mtime := now, im_ctime := now\<rparr>"
    have e: "open_truncate fs a now = release_bytes (set_data a [] ?m fs) (length data)"
      using g(1) RegularFile release_bytes_eq [of _ 0]
      by (simp add: open_truncate_def Let_def release_upd_meta content_then_meta)
    have "fs_inv (release_bytes (set_data a [] ?m fs) (length data))"
      by (rule shrink_inv [OF inv g(1) RegularFile]) (use g(4,5) in \<open>simp_all add: node_ok_def\<close>)
    then show ?thesis
      unfolding e using g(1,4) by (simp add: steady_def release_bytes_eq set_data_def)
  qed (use g inv in \<open>simp_all add: open_truncate_def steady_refl\<close>)
  then show "steady fs (open_truncate fs a now)" and "referenced (open_truncate fs a now) a"
    and "mn_kind (node_at (open_truncate fs a now) a) = mn_kind (node_at fs a)"
    and "length (mf_heap (open_truncate fs a now)) = length (mf_heap fs)" by simp_all
qed

lemma open_kill_priv_safe [safe_meta]: "meta_safe (open_kill_priv now)"
  using clear_privs_safe by (simp add: meta_safe_def open_kill_priv_def)

lemma upd_meta_fields [simp]:
  "referenced (upd_meta a f fs) b = referenced fs b"
  "a < length (mf_heap fs) \<Longrightarrow> mn_kind (node_at (upd_meta a f fs) b) = mn_kind (node_at fs b)"
  by (simp_all add: upd_meta_def)

lemma do_open_advance:
  assumes "sound fs" and "roomy 1 fs"
  shows "advance fs (snd (do_open fs ino kill_priv flags now1 now2))"
proof -
  have inv: "fs_inv fs" using assms by (simp add: sound_def)
  define mid where "mid a fl = (let fs = (if fl AND GUEST_O_TRUNC \<noteq> 0 then open_truncate fs a now1 else fs)
    in if kill_priv \<and> fl AND GUEST_O_TRUNC \<noteq> 0 then upd_meta a (open_kill_priv now2) fs else fs)" for a and fl :: u32
  have e: "do_open fs ino kill_priv flags now1 now2 =
     (if ino = INIT_INODE then (Inr (Some INIT_HANDLE, KEEP_CACHE), fs)
      else try_res (get_node fs ino) fs (\<lambda>node.
        if mn_kind (node_at fs node) = MODE_DIR then (Inl EISDIR, fs)
        else let fl = normalize_handle_flags (mf_writeback fs) flags;
                 (handle, fs) = add_handle \<lparr>fh_node = node, fh_flags = fl\<rparr> (mid node fl)
             in (Inr (Some handle, cache_open_options fs), fs)))"
    unfolding do_open_def mid_def Let_def ..
  have mid: "steady fs (mid a fl) \<and> referenced (mid a fl) a \<and> mn_kind (node_at (mid a fl) a) = mn_kind (node_at fs a)"
    if "get_node fs ino = Inr a" for a fl
    using open_truncate_steady [OF inv that] get_node_ok [OF inv that] inv
    by (auto simp: mid_def Let_def intro: steady_refl steady_meta safe_meta)
  have fin: "advance fs (snd (let (handle, fs) = add_handle \<lparr>fh_node = a, fh_flags = fl\<rparr> (mid a fl)
      in (Inr (Some handle, cache_open_options fs), fs)))"
    if "get_node fs ino = Inr a" and "mn_kind (node_at fs a) \<noteq> MODE_DIR" for a fl
  proof -
    obtain x fs' where h: "add_handle \<lparr>fh_node = a, fh_flags = fl\<rparr> (mid a fl) = (x, fs')" by (cases "add_handle \<lparr>fh_node = a, fh_flags = fl\<rparr> (mid a fl)")
    have "sound fs' \<and> mf_next_inode fs' = mf_next_inode (mid a fl) \<and> mf_next_handle fs' = mf_next_handle (mid a fl) + 1 \<and>
        mf_cfg fs' = mf_cfg (mid a fl)"
      by (rule add_handle_advance [OF _ _ _ _ _ h])
        (use mid [OF that(1), of fl] that(2) assms in \<open>simp_all add: steady_def sound_def handles_inv_def roomy_def\<close>)
    then show ?thesis using mid [OF that(1), of fl] by (simp add: h advance_def steady_def)
  qed
  show ?thesis
    unfolding e Let_def using assms(1)
    by (intro advance_if advance_try advance_err fin [unfolded Let_def]) (simp_all add: advance_refl)
qed

lemma mode_bits:
  "(MODE_REG OR (m AND NOT u AND 0xFFF)) AND MODE_TYPE_MASK = MODE_REG"
  "(MODE_DIR OR (m AND NOT u AND 0xFFF)) AND MODE_TYPE_MASK = MODE_DIR"
  "((m AND MODE_TYPE_MASK) OR (m AND NOT u AND 0xFFF)) AND MODE_TYPE_MASK = m AND MODE_TYPE_MASK"
  "(MODE_LNK OR 0x1FF) AND MODE_TYPE_MASK = MODE_LNK"
  by (simp_all add: mode_consts bit.conj_disj_distrib2 and.assoc)

text \<open>The course common to the four creating requests: an inode is allocated for a new node without
  data, its name is entered, and the node is registered.\<close>

lemma creation:
  assumes sound: "sound fs" and room: "roomy 1 fs" and p: "get_node fs parent = Inr p" and name: "name_ok name"
    and alloc: "alloc_inode fs = (Inr ino, fs1)" and n: "mn_inode n = ino" "node_ok n" "data_len n = 0"
    and new: "new_node n fs1 = (a, fs2)" and ins: "insert_child fs2 p name ino = (r, fs3)"
  shows "r = Inl e \<Longrightarrow> advance fs fs3"
    and "r = Inr u \<Longrightarrow> meta_safe f \<Longrightarrow> sound (register_node ino a (upd_meta p f fs3)) \<and>
      mf_next_inode fs3 = mf_next_inode fs + 1 \<and> mf_next_handle fs3 = mf_next_handle fs \<and> mf_cfg fs3 = mf_cfg fs \<and>
      referenced (register_node ino a (upd_meta p f fs3)) a \<and>
      mn_kind (node_at (register_node ino a (upd_meta p f fs3)) a) = mn_kind n"
proof -
  have inv: "fs_inv fs" and h: "handles_inv fs" using sound by (simp_all add: sound_def)
  have "mf_next_inode fs + 1 < two64" using room by (simp add: roomy_def)
  note al = alloc_inode_inv [OF inv this alloc]
  note nn = new_node_inv [OF al(1) _ n(2) new, unfolded n(1), OF al(2)]
  have p2: "p < length (mf_heap fs2)" "p \<noteq> a" using nn(4) [of p] get_node_ok(1) [OF inv p] al(3) by auto
  have free: "map_of (mf_nodes fs) ino = None"
  proof (cases "map_of (mf_nodes fs) ino")
    case (Some b)
    then have "ino \<in> mn_inode ` set (mf_heap fs)"
      using map_of_node [OF inv Some] by (metis image_eqI node_at_def nth_mem)
    then show ?thesis using al(2,3) by (simp add: fresh_inode_def)
  qed
  show "advance fs fs3" if "r = Inl e"
  proof -
    have "fs3 = dec_inode_count fs2"
      using ins that by (auto simp: insert_child_def split: InodeContent.splits if_splits)
    then show ?thesis
      using dec_inode_count_inv [OF nn(1)] al nn h
      by (simp add: advance_def sound_def) (simp add: dec_inode_count_def handles_inv_def)
  qed
  assume "r = Inr u" and f: "meta_safe f"
  then have e: "fs3 = ch_insert p name ino fs2"
    using ins by (auto simp: insert_child_def split: InodeContent.splits if_splits)
  let ?g = "upd_meta p f fs3"
  have "mid_inv 1 ?g" unfolding e using p2 f by (intro upd_meta_inv ch_insert_inv nn name) simp_all
  moreover have at: "node_at ?g a = n" "map_of (mf_nodes ?g) ino = None" "a < length (mf_heap ?g)"
    using p2 nn al free by (simp_all add: e upd_meta_def ch_insert_def)
  ultimately have "fs_inv (register_node ino a ?g)" using n by (intro register_node_inv) simp_all
  moreover have "handles_inv (register_node ino a ?g)"
    using h nn al by (simp add: handles_inv_def register_node_def e frame_defs)
  moreover have "referenced (register_node ino a ?g) a" by (auto simp: referenced_def register_node_def)
  ultimately show "sound (register_node ino a ?g) \<and> mf_next_inode fs3 = mf_next_inode fs + 1 \<and>
      mf_next_handle fs3 = mf_next_handle fs \<and> mf_cfg fs3 = mf_cfg fs \<and> referenced (register_node ino a ?g) a \<and>
      mn_kind (node_at (register_node ino a ?g) a) = mn_kind n"
    using nn al at by (simp add: sound_def) (simp add: register_node_def e frame_defs)
qed

lemma advance_alloc:
  assumes "sound fs" and "\<And>ino fs1. alloc_inode fs = (Inr ino, fs1) \<Longrightarrow> advance fs (snd (k ino fs1))"
  shows "advance fs (snd (case alloc_inode fs of (Inl e, fs) \<Rightarrow> (Inl e, fs) | (Inr ino, fs) \<Rightarrow> k ino fs))"
  using assms alloc_inode_eq [of fs] by (auto split: prod.split sum.split intro: advance_refl)

lemma make_node:
  assumes c: "sound fs" "roomy 1 fs" "get_node fs parent = Inr p" "name_ok name"
      "alloc_inode fs = (Inr ino, fs1)" "mn_inode n = ino" "node_ok n" "data_len n = 0"
    and f: "meta_safe f"
    and k: "\<And>a fs'. sound fs' \<Longrightarrow> mf_next_inode fs' = mf_next_inode fs + 1 \<Longrightarrow> mf_next_handle fs' = mf_next_handle fs \<Longrightarrow>
      mf_cfg fs' = mf_cfg fs \<Longrightarrow> referenced fs' a \<Longrightarrow> mn_kind (node_at fs' a) = mn_kind n \<Longrightarrow> advance fs (snd (k a fs'))"
  shows "advance fs (snd (let (node, fs) = new_node n fs1
    in case insert_child fs p name ino of
         (Inl e, fs) \<Rightarrow> (Inl e, fs)
       | (Inr _, fs) \<Rightarrow> let fs = upd_meta p f fs; fs = register_node ino node fs in k node fs))"
proof -
  obtain a fs2 where new: "new_node n fs1 = (a, fs2)" by (cases "new_node n fs1")
  obtain r fs3 where ins: "insert_child fs2 p name ino = (r, fs3)" by (cases "insert_child fs2 p name ino")
  note cr = creation [OF c new ins]
  show ?thesis
  proof (cases r)
    case (Inl e)
    then show ?thesis using cr(1) by (simp add: new ins)
  next
    case (Inr u)
    let ?g = "register_node ino a (upd_meta p f fs3)"
    have "mf_next_inode ?g = mf_next_inode fs3" "mf_next_handle ?g = mf_next_handle fs3" "mf_cfg ?g = mf_cfg fs3"
      by (simp_all add: register_node_def upd_meta_def)
    then show ?thesis using k [of ?g a] cr(2) [OF Inr f] Inr by (simp add: new ins)
  qed
qed

lemma advance_done:
  "sound fs' \<Longrightarrow> mf_next_inode fs' = mf_next_inode fs + 1 \<Longrightarrow> mf_next_handle fs' = mf_next_handle fs \<Longrightarrow>
    mf_cfg fs' = mf_cfg fs \<Longrightarrow> advance fs (snd (r, fs'))"
  by (simp add: advance_def)

lemmas advance_create = advance_try advance_if advance_err advance_alloc make_node advance_done safe_meta

lemma fresh_node_ok:
  assumes "3 \<le> ino" and "im_mode m AND MODE_TYPE_MASK = kind" and "kind_ok (fresh_node ino kind m c)"
    and "case c of RegularFile d \<Rightarrow> d = [] \<and> im_size m = 0 | Directory ch _ \<Rightarrow> ch = [] | _ \<Rightarrow> True"
  shows "node_ok (fresh_node ino kind m c)" "data_len (fresh_node ino kind m c) = 0" "mn_inode (fresh_node ino kind m c) = ino"
  using assms by (auto simp: node_ok_def data_len_def fresh_node_def INIT_INODE_def bt_wf_def split: InodeContent.splits)

lemma alloc_inode_ge: "fs_inv fs \<Longrightarrow> alloc_inode fs = (Inr ino, fs1) \<Longrightarrow> 3 \<le> ino"
  using alloc_inode_eq [of fs "Inr ino" fs1] by (simp add: mid_inv_def heap_inv_def)

lemma name_okI: "validate_memfs_name name = Inr u \<Longrightarrow> name_ok name"
  by (simp add: name_ok_def)

lemma soundD: "sound fs \<Longrightarrow> fs_inv fs"
  by (simp add: sound_def)

lemma do_mkdir_advance:
  assumes "sound fs" and "roomy 1 fs"
  shows "advance fs (snd (do_mkdir fs cx parent name mode umask now))"
  unfolding do_mkdir_def
  by (subst Let_def) (intro advance_create assms fresh_node_ok alloc_inode_ge [OF soundD [OF assms(1)]] name_okI; assumption?;
    (simp add: new_meta_def mode_bits kind_ok_def fresh_node_def; fail)?)

lemma do_symlink_advance:
  assumes "sound fs" and "roomy 1 fs"
  shows "advance fs (snd (do_symlink fs cx linkname parent name now))"
  unfolding do_symlink_def
  by (intro advance_create assms fresh_node_ok alloc_inode_ge [OF soundD [OF assms(1)]] name_okI; assumption?;
    (simp add: new_meta_def mode_bits kind_ok_def fresh_node_def; fail)?)

lemma mknod_content_ok:
  assumes "mknod_content (m AND MODE_TYPE_MASK) = Some (kind, c)"
  shows "kind = m AND MODE_TYPE_MASK" and "kind_ok (fresh_node ino kind mt c)" and "c = RegularFile [] \<or> c = Special"
  using assms by (auto simp: mknod_content_def kind_ok_def fresh_node_def split: if_splits)

lemma advance_dec:
  assumes "sound fs" and "roomy 1 fs" and "alloc_inode fs = (Inr ino, fs1)"
  shows "advance fs (snd (Inl e, dec_inode_count fs1))"
proof -
  have "mf_next_inode fs + 1 < two64" using assms(2) by (simp add: roomy_def)
  note al = alloc_inode_inv [OF soundD [OF assms(1)] this assms(3)]
  from dec_inode_count_inv [OF al(1)] al assms(1) show ?thesis
    by (simp add: advance_def sound_def) (simp add: dec_inode_count_def handles_inv_def)
qed

lemma advance_opt:
  "(x = None \<Longrightarrow> advance fs (snd u)) \<Longrightarrow> (\<And>kind c. x = Some (kind, c) \<Longrightarrow> advance fs (snd (k kind c))) \<Longrightarrow>
    advance fs (snd (case x of None \<Rightarrow> u | Some (kind, c) \<Rightarrow> k kind c))"
  by (auto split: option.split)

lemma do_mknod_advance:
  assumes "sound fs" and "roomy 1 fs"
  shows "advance fs (snd (do_mknod fs cx parent name mode rdev umask now))"
proof -
  have ok: "node_ok (fresh_node ino kind (new_meta cx ((mode AND MODE_TYPE_MASK) OR (mode AND NOT umask AND 0xFFF)) rdev 1 0 now) c)"
    "data_len (fresh_node ino kind (new_meta cx ((mode AND MODE_TYPE_MASK) OR (mode AND NOT umask AND 0xFFF)) rdev 1 0 now) c) = 0"
    if "mknod_content (mode AND MODE_TYPE_MASK) = Some (kind, c)" "alloc_inode fs = (Inr ino, fs1)" for ino fs1 kind c
    using mknod_content_ok [OF that(1)] alloc_inode_ge [OF soundD [OF assms(1)] that(2)]
    by (auto intro!: fresh_node_ok simp: new_meta_def mode_bits)
  show ?thesis
    unfolding do_mknod_def
    by (subst Let_def, subst Let_def)
      (intro advance_create advance_opt advance_dec [OF assms] assms ok name_okI; assumption?; (simp add: fresh_node_def; fail)?)
qed

lemma advance_handle:
  assumes "sound fs'" and "roomy 1 fs" and "mf_next_inode fs' = mf_next_inode fs + 1"
    and "mf_next_handle fs' = mf_next_handle fs" and "mf_cfg fs' = mf_cfg fs" and "referenced fs' (fh_node fh)" and "mn_kind (node_at fs' (fh_node fh)) \<noteq> MODE_DIR"
  shows "advance fs (snd (let (handle, fs) = add_handle fh fs' in (r handle fs, fs)))"
proof -
  obtain x fs'' where h: "add_handle fh fs' = (x, fs'')" by (cases "add_handle fh fs'")
  have "sound fs'' \<and> mf_next_inode fs'' = mf_next_inode fs' \<and> mf_next_handle fs'' = mf_next_handle fs' + 1 \<and>
      mf_cfg fs'' = mf_cfg fs'"
    by (rule add_handle_advance [OF _ _ _ assms(6,7) h]) (use assms in \<open>simp_all add: sound_def roomy_def\<close>)
  then show ?thesis using assms by (simp add: h advance_def)
qed

lemma reg_not_dir: "MODE_REG \<noteq> MODE_DIR"
  by (simp add: mode_consts)

lemma do_create_advance:
  assumes "sound fs" and "roomy 1 fs"
  shows "advance fs (snd (do_create fs cx parent name mode flags umask now))"
  unfolding do_create_def
  by (subst Let_def, subst (4) Let_def)
    (intro advance_create advance_handle assms fresh_node_ok alloc_inode_ge [OF soundD [OF assms(1)]] name_okI; assumption?;
    (simp add: new_meta_def mode_bits kind_ok_def fresh_node_def reg_not_dir; fail)?)

section \<open>Directory handles\<close>

definition quiet :: "MemFs \<Rightarrow> MemFs \<Rightarrow> bool" where
  "quiet fs fs' \<longleftrightarrow> sound fs' \<and> mf_next_inode fs' = mf_next_inode fs \<and> mf_next_handle fs' = mf_next_handle fs \<and>
     mf_cfg fs' = mf_cfg fs"

lemma quiet_refl: "sound fs \<Longrightarrow> quiet fs fs"
  by (simp add: quiet_def)

lemma quiet_advance: "quiet fs fs' \<Longrightarrow> advance fs fs'"
  by (simp add: quiet_def advance_def)

lemma quiet_sound: "quiet fs fs' \<Longrightarrow> sound fs'"
  by (simp add: quiet_def)

lemma quiet_steady: "quiet fs fs' \<Longrightarrow> (fs_inv fs' \<Longrightarrow> steady fs' fs'') \<Longrightarrow> quiet fs fs''"
  by (simp add: quiet_def sound_def steady_def handles_inv_def)

lemma dir_node:
  assumes "sound fs" and "dir_handle fs h = Inr dh"
  shows "dh_node dh < length (mf_heap fs)" and "mn_kind (node_at fs (dh_node dh)) = MODE_DIR"
    and "map_of (mf_dir_handles fs) h = Some dh"
  using assms by (auto simp: dir_handle_def ok_or_def sound_def mid_inv_def table_inv_def split: option.splits)

lemma ensure_snapshot_quiet:
  assumes "sound fs"
  shows "quiet fs (snd (ensure_snapshot fs ino handle))"
proof -
  have put: "quiet fs (fs\<lparr>mf_dir_handles := bt_insert handle (dh\<lparr>dh_snapshot := s\<rparr>) (mf_dir_handles fs)\<rparr>)" (is "quiet fs ?f")
    if "dir_handle fs handle = Inr dh" for dh s
  proof -
    note d = dir_node [OF assms that]
    have "fs_inv ?f"
      by (rule dir_handles_inv) (use assms d in \<open>auto simp: sound_def mid_inv_def table_inv_def bt_wf_insert split: if_splits\<close>)
    moreover have "handles_inv ?f"
      using assms d(3) by (auto simp: sound_def handles_inv_def)
    ultimately show ?thesis by (simp add: quiet_def sound_def)
  qed
  show ?thesis
    using put assms by (auto simp: ensure_snapshot_def try_res_def intro: quiet_refl split: sum.split option.split)
qed

lemma serve_snapshot_quiet: "sound fs \<Longrightarrow> quiet fs (snd (serve_snapshot_entries fs ino handle offset))"
  using ensure_snapshot_quiet [of fs ino handle] by (auto simp: serve_snapshot_entries_def split: prod.split sum.split)

lemma do_readdir_quiet: "sound fs \<Longrightarrow> quiet fs (snd (do_readdir fs ino handle offset))"
  by (simp add: do_readdir_def serve_snapshot_quiet)

lemma do_readdir_for_each_quiet: "sound fs \<Longrightarrow> quiet fs (snd (fst (do_readdir_for_each fs add b ino handle offset)))"
  using ensure_snapshot_quiet [of fs ino handle]
  by (auto simp: do_readdir_for_each_def stream_snapshot_entries_def split: prod.split sum.split)

lemma readdirplus_loop_steady: "fs_inv fs \<Longrightarrow> steady fs (snd (readdirplus_loop fs des result))"
proof (induction des arbitrary: fs result)
  case (Cons de des)
  have s: "steady fs (inc_lookup a fs)" if "get_node fs (dd_ino de) = Inr a" for a
    by (rule steady_intros) (use Cons that get_node_ok(1) in \<open>auto intro: steady_refl\<close>)
  note i = steady_inv [OF s]
  show ?case
    using Cons s by (auto simp: Let_def split: sum.split intro: steady_trans [OF s Cons.IH [OF i]])
qed (simp add: steady_refl)

lemma do_readdirplus_quiet:
  assumes "sound fs"
  shows "quiet fs (snd (do_readdirplus fs ino handle offset))"
  using serve_snapshot_quiet [OF assms, of ino handle offset]
  by (auto simp: do_readdirplus_def case_prod_beta split: sum.split elim!: quiet_steady intro: readdirplus_loop_steady)

lemma forget_all_steady: "steady fs fs' \<Longrightarrow> steady fs (forget_all fs' locals inos)"
  by (induction fs' locals inos rule: forget_all.induct) (simp_all add: steady_forget)

lemma readdirplus_stream_steady: "fs_inv fs \<Longrightarrow> steady fs (snd (fst (readdirplus_stream fs add b es emitted)))"
proof (induction es arbitrary: fs b emitted)
  case (Cons e es)
  have s: "steady fs (inc_lookup a fs)" if "get_node fs (dd_ino (entry_of e)) = Inr a" for a
    by (rule steady_intros) (use Cons that get_node_ok(1) in \<open>auto intro: steady_refl\<close>)
  note i = steady_inv [OF s]
  show ?case
    using Cons s
    by (auto simp: Let_def intro: steady_refl steady_trans [OF s Cons.IH [OF i]] intro!: forget_all_steady steady_forget
        split: sum.split prod.split)
qed (simp add: steady_refl)

lemma do_readdirplus_for_each_quiet:
  assumes "sound fs"
  shows "quiet fs (snd (fst (do_readdirplus_for_each fs add b ino handle offset)))"
  using ensure_snapshot_quiet [OF assms, of ino handle]
  by (auto simp: do_readdirplus_for_each_def split: prod.split sum.split
      elim!: quiet_steady intro: readdirplus_stream_steady steady_refl)

lemma do_opendir_advance:
  assumes "sound fs" and "roomy 1 fs"
  shows "advance fs (snd (do_opendir fs ino))"
proof -
  let ?f = "\<lambda>a. fs\<lparr>mf_next_handle := mf_next_handle fs + 1,
    mf_dir_handles := bt_insert (mf_next_handle fs) \<lparr>dh_node = a, dh_snapshot = None\<rparr> (mf_dir_handles fs)\<rparr>"
  have "advance fs (?f a)" if "get_node fs ino = Inr a" "mn_kind (node_at fs a) = MODE_DIR" for a
  proof -
    have "fs_inv (?f a)"
      by (rule dir_handles_inv) (use assms get_node_ok(1) [OF soundD [OF assms(1)] that(1)] that(2) in
        \<open>auto simp: sound_def mid_inv_def table_inv_def bt_wf_insert split: if_splits\<close>)
    moreover have "handles_inv (?f a)"
      using assms by (simp add: sound_def handles_inv_def)
    ultimately show ?thesis by (simp add: advance_def sound_def)
  qed
  moreover have "fetch_add64 (mf_next_handle fs) 1 = mf_next_handle fs + 1"
    using assms(2) by (simp add: roomy_def fetch_add64_def)
  ultimately show ?thesis
    using assms(1) by (auto simp: do_opendir_def try_res_def Let_def advance_refl split: sum.split)
qed

lemma handles_inv_less:
  assumes "handles_inv fs" and "mf_next_handle fs' = mf_next_handle fs"
    and "\<And>h. map_of (mf_file_handles fs) h = None \<Longrightarrow> map_of (mf_file_handles fs') h = None"
    and "\<And>h. map_of (mf_dir_handles fs) h = None \<Longrightarrow> map_of (mf_dir_handles fs') h = None"
  shows "handles_inv fs'"
  using assms by (simp add: handles_inv_def)

lemma do_releasedir_quiet:
  assumes "sound fs"
  shows "quiet fs (snd (do_releasedir fs handle))"
proof -
  let ?f = "fs\<lparr>mf_dir_handles := bt_remove handle (mf_dir_handles fs)\<rparr>"
  have "fs_inv ?f"
    by (rule dir_handles_inv) (use assms in \<open>auto simp: sound_def mid_inv_def table_inv_def bt_wf_remove split: if_splits\<close>)
  moreover have "handles_inv ?f"
    by (rule handles_inv_less [of fs]) (use assms in \<open>auto simp: sound_def mid_inv_def table_inv_def\<close>)
  ultimately show ?thesis by (simp add: quiet_def sound_def do_releasedir_def)
qed

lemma do_release_quiet:
  assumes "sound fs"
  shows "quiet fs (snd (do_release fs ino handle))"
proof -
  let ?f = "snd (do_release fs ino handle)"
  have t: "bt_wf (mf_file_handles fs)" using assms by (simp add: sound_def mid_inv_def table_inv_def)
  have f: "mf_next_handle ?f = mf_next_handle fs" "mf_next_inode ?f = mf_next_inode fs" "mf_cfg ?f = mf_cfg fs" "mf_dir_handles ?f = mf_dir_handles fs"
    "mf_file_handles ?f = mf_file_handles fs \<or> mf_file_handles ?f = bt_remove handle (mf_file_handles fs)"
    by (auto simp: do_release_def Let_def split: option.split InodeContent.split)
  have "handles_inv ?f"
    by (rule handles_inv_less [of fs]) (use assms f t in \<open>auto simp: sound_def\<close>)
  then show ?thesis using do_release_inv [OF soundD [OF assms], of ino handle] f by (simp add: quiet_def sound_def)
qed

end
