(* ===== verification/Memfs_Run.thy ===== *)
theory Memfs_Run
  imports Memfs_Ops
begin

text \<open>
  \<^verbatim>\<open>impl DynFileSystem for MemFs\<close> of \<^verbatim>\<open>memfs/mod.rs\<close>: the requests the guest sends, the handler each
  one is passed to, and sequences of requests. The theorems that hold for every history of the
  filesystem are here. Each request carries the clock readings its handler takes, and the requests
  that stream entries carry the callback with its state.
\<close>

section \<open>Requests\<close>

datatype 'b Request =
    Init "FsOption set"
  | Destroy
  | Lookup u64 bytes
  | Forget u64 u64
  | BatchForget "(u64 \<times> u64) list"
  | Getattr u64
  | Setattr u64 stat64 "SetattrFlag set" Timespec Timespec Timespec
  | Readlink u64
  | ReqSymlink ctx bytes u64 bytes Timespec
  | Mknod ctx u64 bytes u32 u32 u32 Timespec
  | Mkdir ctx u64 bytes u32 u32 Timespec
  | Unlink u64 bytes Timespec
  | Rmdir u64 bytes Timespec
  | Rename u64 bytes u64 bytes u32 Timespec
  | Link u64 u64 bytes Timespec
  | Open u64 bool u32 Timespec Timespec
  | Create ctx u64 bytes u32 u32 u32 Timespec
  | Read io_api u64 u64 nat u64
  | Write io_api u64 u64 nat u64 bool Timespec
  | Flush u64 u64
  | Fsync
  | Fallocate u64 u64 u32 u64 u64
  | Release u64 u64
  | Statfs
  | Setxattr u64 bytes bytes u32
  | Getxattr u64 bytes nat
  | Listxattr u64 nat
  | Removexattr u64 bytes
  | Opendir u64
  | Readdir u64 u64 u64
  | ReaddirForEach "'b \<Rightarrow> DirEntry \<Rightarrow> (errno + nat) \<times> 'b" 'b u64 u64 u64
  | Readdirplus u64 u64 u64
  | ReaddirplusForEach "'b \<Rightarrow> DirEntry \<Rightarrow> Entry \<Rightarrow> (errno + nat) \<times> 'b" 'b u64 u64 u64
  | Fsyncdir
  | Releasedir u64
  | Access ctx u64 u32
  | Lseek u64 u64 u64 u32

datatype 'b Reply =
    ROptions "FsOption set"
  | RUnit
  | REntry Entry
  | RAttr stat64 nat
  | RTarget bytes
  | ROpened "u64 option" OpenOptions
  | RCreated Entry "u64 option" OpenOptions
  | RCount nat
  | RStatfs statvfs64
  | RXattr XattrReply
  | REntries "DirEntry list"
  | REntriesPlus "(DirEntry \<times> Entry) list"
  | RStreamed 'b

definition reply :: "('a \<Rightarrow> 'b Reply) \<Rightarrow> 'a op_result \<Rightarrow> 'b Reply op_result" where
  "reply f x = (map_sum id f (fst x), snd x)"

definition answer :: "MemFs \<Rightarrow> ('a \<Rightarrow> 'b Reply) \<Rightarrow> errno + 'a \<Rightarrow> 'b Reply op_result" where
  "answer fs f r = (map_sum id f r, fs)"

fun memfs_request :: "MemFs \<Rightarrow> 'b Request \<Rightarrow> 'b Reply op_result" where
  "memfs_request fs (Init capable) = reply ROptions (memfs_init fs capable)"
| "memfs_request fs Destroy = (Inr RUnit, memfs_destroy fs)"
| "memfs_request fs (Lookup parent name) = reply REntry (memfs_lookup fs parent name)"
| "memfs_request fs (Forget ino count) = (Inr RUnit, memfs_forget fs ino count)"
| "memfs_request fs (BatchForget requests) = (Inr RUnit, batch_forget fs requests)"
| "memfs_request fs (Getattr ino) = reply (\<lambda>(st, t). RAttr st t) (do_getattr fs ino)"
| "memfs_request fs (Setattr ino attr valid n1 n2 n3) =
     reply (\<lambda>(st, t). RAttr st t) (do_setattr fs ino attr valid n1 n2 n3)"
| "memfs_request fs (Readlink ino) = answer fs RTarget (do_readlink fs ino)"
| "memfs_request fs (ReqSymlink cx linkname parent name now) = reply REntry (do_symlink fs cx linkname parent name now)"
| "memfs_request fs (Mknod cx parent name mode rdev umask now) =
     reply REntry (do_mknod fs cx parent name mode rdev umask now)"
| "memfs_request fs (Mkdir cx parent name mode umask now) = reply REntry (do_mkdir fs cx parent name mode umask now)"
| "memfs_request fs (Unlink parent name now) = reply (\<lambda>_. RUnit) (do_unlink fs parent name now)"
| "memfs_request fs (Rmdir parent name now) = reply (\<lambda>_. RUnit) (do_rmdir fs parent name now)"
| "memfs_request fs (Rename olddir oldname newdir newname flags now) =
     reply (\<lambda>_. RUnit) (do_rename fs olddir oldname newdir newname flags now)"
| "memfs_request fs (Link ino newparent newname now) = reply REntry (do_link fs ino newparent newname now)"
| "memfs_request fs (Open ino kill_priv flags n1 n2) =
     reply (\<lambda>(h, opts). ROpened h opts) (do_open fs ino kill_priv flags n1 n2)"
| "memfs_request fs (Create cx parent name mode flags umask now) =
     reply (\<lambda>(e, h, opts). RCreated e h opts) (do_create fs cx parent name mode flags umask now)"
| "memfs_request fs (Read io ino handle sz offset) = reply RCount (do_read fs io ino handle sz offset)"
| "memfs_request fs (Write io ino handle sz offset kill_priv now) =
     reply RCount (do_write fs io ino handle sz offset kill_priv now)"
| "memfs_request fs (Flush ino handle) = answer fs (\<lambda>_. RUnit) (do_flush ino handle)"
| "memfs_request fs Fsync = answer fs (\<lambda>_. RUnit) do_fsync"
| "memfs_request fs (Fallocate ino handle mode offset len) =
     reply (\<lambda>_. RUnit) (do_fallocate fs ino handle mode offset len)"
| "memfs_request fs (Release ino handle) = reply (\<lambda>_. RUnit) (do_release fs ino handle)"
| "memfs_request fs Statfs = (Inr (RStatfs (do_statfs fs)), fs)"
| "memfs_request fs (Setxattr ino name val flags) = reply (\<lambda>_. RUnit) (do_setxattr fs ino name val flags)"
| "memfs_request fs (Getxattr ino name sz) = answer fs RXattr (do_getxattr fs ino name sz)"
| "memfs_request fs (Listxattr ino sz) = answer fs RXattr (do_listxattr fs ino sz)"
| "memfs_request fs (Removexattr ino name) = reply (\<lambda>_. RUnit) (do_removexattr fs ino name)"
| "memfs_request fs (Opendir ino) = reply (\<lambda>(h, opts). ROpened h opts) (do_opendir fs ino)"
| "memfs_request fs (Readdir ino handle offset) = reply REntries (do_readdir fs ino handle offset)"
| "memfs_request fs (ReaddirForEach add b ino handle offset) =
     (case do_readdir_for_each fs add b ino handle offset of (x, b) \<Rightarrow> reply (\<lambda>_. RStreamed b) x)"
| "memfs_request fs (Readdirplus ino handle offset) = reply REntriesPlus (do_readdirplus fs ino handle offset)"
| "memfs_request fs (ReaddirplusForEach add b ino handle offset) =
     (case do_readdirplus_for_each fs add b ino handle offset of (x, b) \<Rightarrow> reply (\<lambda>_. RStreamed b) x)"
| "memfs_request fs Fsyncdir = answer fs (\<lambda>_. RUnit) do_fsyncdir"
| "memfs_request fs (Releasedir handle) = reply (\<lambda>_. RUnit) (do_releasedir fs handle)"
| "memfs_request fs (Access cx ino msk) = answer fs (\<lambda>_. RUnit) (do_access fs cx ino msk)"
| "memfs_request fs (Lseek ino handle offset whence) = answer fs RCount (do_lseek fs ino handle offset whence)"

text \<open>The state after a sequence of requests.\<close>

definition run_requests :: "'b Request list \<Rightarrow> MemFs \<Rightarrow> MemFs" where
  "run_requests reqs fs = fold (\<lambda>req fs. snd (memfs_request fs req)) reqs fs"

section \<open>Every request keeps the filesystem sound\<close>

lemma reply_state [simp]: "snd (reply f x) = snd x" "snd (answer fs f r) = fs"
  by (simp_all add: reply_def answer_def)

lemma do_getattr_state [simp]: "snd (do_getattr fs ino) = fs"
  by (simp add: do_getattr_def try_res_def split: sum.split)

lemma memfs_init_steady: "fs_inv fs \<Longrightarrow> steady fs (snd (memfs_init fs capable))"
  by (simp add: memfs_init_def Let_def steady_def)

lemmas request_steady = memfs_init_steady memfs_lookup_steady memfs_forget_steady batch_forget_steady [OF steady_refl]
  do_setattr_steady do_unlink_steady do_rmdir_steady do_rename_steady do_link_steady do_read_steady do_write_steady
  do_fallocate_steady do_setxattr_steady do_removexattr_steady

lemmas request_quiet = do_release_quiet do_readdir_quiet do_readdir_for_each_quiet do_readdirplus_quiet
  do_readdirplus_for_each_quiet do_releasedir_quiet

lemmas request_advance = do_symlink_advance do_mknod_advance do_mkdir_advance do_open_advance do_create_advance
  do_opendir_advance

lemma request_advances:
  assumes s: "sound fs" and r: "roomy 1 fs" and d: "req \<noteq> Destroy"
  shows "advance fs (snd (memfs_request fs req))"
  using steady_advance [OF s request_steady(1) [OF soundD [OF s]]] steady_advance [OF s] request_steady [OF soundD [OF s]]
    quiet_advance [OF request_quiet(3) [OF s]] quiet_advance [OF request_quiet(5) [OF s]] d
  by (cases req)
    (auto simp: case_prod_beta advance_refl [OF s] request_advance [OF s r] quiet_advance [OF request_quiet(1) [OF s]]
      quiet_advance [OF request_quiet(2) [OF s]] quiet_advance [OF request_quiet(4) [OF s]]
      quiet_advance [OF request_quiet(6) [OF s]])

text \<open>After a destroy the tables are empty, and they stay empty: no request finds an inode or a handle
  any more, the binary \<^verbatim>\<open>init.krun\<close> apart, and what is left to change is the writeback flag and the
  staging file. The counters keep the values they had, so the inode count is no longer that of the
  table.\<close>

definition torn_down :: "MemFs \<Rightarrow> bool" where
  "torn_down fs \<longleftrightarrow> mf_nodes fs = [] \<and> mf_file_handles fs = [] \<and> mf_dir_handles fs = []"

definition idle :: "MemFs \<Rightarrow> MemFs \<Rightarrow> bool" where
  "idle fs fs' \<longleftrightarrow> (\<exists>w file. fs' = fs\<lparr>mf_writeback := w, mf_staging_file := file\<rparr>)"

lemma idle_fields [simp]: "idle fs fs" "idle fs (fs\<lparr>mf_writeback := w\<rparr>)" "idle fs (fs\<lparr>mf_staging_file := f\<rparr>)"
  unfolding idle_def by (cases fs, simp)+

lemma idle_keeps:
  assumes "idle fs fs'"
  shows "torn_down fs' = torn_down fs" "bytes_inv fs' = bytes_inv fs" "limit_inv fs' = limit_inv fs" "mf_cfg fs' = mf_cfg fs"
  using assms by (auto simp: idle_def torn_down_def bytes_inv_def limit_inv_def)

named_theorems torn \<open>a request to a filesystem that was destroyed\<close>

lemma torn_get_node [torn]: "torn_down fs \<Longrightarrow> get_node fs ino = Inl EBADF"
  by (simp add: torn_down_def get_node_def ok_or_def)

lemma torn_handles [torn]:
  "torn_down fs \<Longrightarrow> map_of (mf_file_handles fs) h = None" "torn_down fs \<Longrightarrow> map_of (mf_dir_handles fs) h = None"
  "torn_down fs \<Longrightarrow> map_of (mf_nodes fs) ino = None"
  by (simp_all add: torn_down_def)

lemma idle_try [torn]: "(\<And>x. r = Inr x \<Longrightarrow> idle fs (snd (k x))) \<Longrightarrow> idle fs (snd (try_res r fs k))"
  by (cases r) (simp_all add: try_res_def)

lemma torn_try_node [torn]: "torn_down fs \<Longrightarrow> try_res (get_node fs ino) fs k = (Inl EBADF, fs)"
  by (simp add: torn_get_node try_res_def)

lemma torn_node_requests [torn]:
  assumes "torn_down fs"
  shows "idle fs (snd (memfs_lookup fs p n))" "idle fs (snd (do_setattr fs ino attr valid n1 n2 n3))"
    "idle fs (snd (do_symlink fs cx l p n now))" "idle fs (snd (do_mknod fs cx p n m rd u now))"
    "idle fs (snd (do_mkdir fs cx p n m u now))" "idle fs (snd (do_create fs cx p n m fl u now))"
    "idle fs (snd (do_unlink fs p n now))" "idle fs (snd (do_rmdir fs p n now))"
    "idle fs (snd (do_rename fs p n p' n' fl now))" "idle fs (snd (do_link fs ino p n now))"
    "idle fs (snd (do_setxattr fs ino n v fl))" "idle fs (snd (do_removexattr fs ino n))"
    "idle fs (snd (do_opendir fs ino))" "idle fs (snd (do_open fs ino kp fl n1 n2))"
  unfolding memfs_lookup_def do_setattr_def do_symlink_def do_mknod_def do_mkdir_def do_create_def do_unlink_def do_rmdir_def
    do_rename_def do_link_def do_setxattr_def do_removexattr_def do_opendir_def do_open_def Let_def
  by (auto intro!: idle_try simp: torn_try_node [OF assms])

lemma torn_unchanged: "torn_down fs \<Longrightarrow> fs\<lparr>mf_dir_handles := []\<rparr> = fs" "torn_down fs \<Longrightarrow> memfs_destroy fs = fs"
  by (cases fs; simp add: torn_down_def memfs_destroy_def)+

lemma torn_handle_requests [torn]:
  assumes "torn_down fs"
  shows "idle fs (snd (memfs_init fs c))" "memfs_forget fs ino count = fs" "batch_forget fs reqs = fs"
    "idle fs (snd (do_read fs io ino h sz offset))" "idle fs (snd (do_write fs io ino h sz offset kp now))"
    "idle fs (snd (do_fallocate fs ino h m offset len))" "idle fs (snd (do_release fs ino h))"
    "idle fs (snd (do_releasedir fs h))"
proof -
  have f: "forget_one fs [] ino count = fs" for ino count by (simp add: forget_one_def torn_handles [OF assms])
  then show "memfs_forget fs ino count = fs" by (simp add: memfs_forget_def)
  show "batch_forget fs reqs = fs" by (induction reqs) (auto simp: f)
  have "bt_remove h (mf_dir_handles fs) = []" using assms by (simp add: torn_down_def bt_remove_def)
  then show "idle fs (snd (do_releasedir fs h))" by (simp add: do_releasedir_def torn_unchanged(1) [OF assms])
qed (simp_all add: memfs_init_def do_read_def do_write_def do_fallocate_def do_release_def torn_handles [OF assms]
    try_res_def ok_or_def Let_def)

lemma torn_dir_requests [torn]:
  assumes "torn_down fs"
  shows "idle fs (snd (do_readdir fs ino h offset))" "idle fs (snd (fst (do_readdir_for_each fs add b ino h offset)))"
    "idle fs (snd (do_readdirplus fs ino h offset))" "idle fs (snd (fst (do_readdirplus_for_each fs add' b ino h offset)))"
proof -
  have "ensure_snapshot fs ino h = (Inl EBADF, fs)"
    by (simp add: ensure_snapshot_def dir_handle_def torn_handles [OF assms] try_res_def ok_or_def)
  then show "idle fs (snd (do_readdir fs ino h offset))" "idle fs (snd (fst (do_readdir_for_each fs add b ino h offset)))"
    "idle fs (snd (do_readdirplus fs ino h offset))" "idle fs (snd (fst (do_readdirplus_for_each fs add' b ino h offset)))"
    by (simp_all add: do_readdir_def do_readdir_for_each_def do_readdirplus_def do_readdirplus_for_each_def
        serve_snapshot_entries_def stream_snapshot_entries_def)
qed

lemma torn_request: "torn_down fs \<Longrightarrow> idle fs (snd (memfs_request fs req))"
  by (cases req) (simp_all add: torn torn_unchanged case_prod_beta)

lemma torn_run:
  assumes "torn_down fs"
  shows "torn_down (run_requests reqs fs) \<and> bytes_inv (run_requests reqs fs) = bytes_inv fs \<and>
    limit_inv (run_requests reqs fs) = limit_inv fs \<and> mf_cfg (run_requests reqs fs) = mf_cfg fs"
  using assms
proof (induction reqs arbitrary: fs)
  case (Cons req reqs)
  note k = idle_keeps [OF torn_request [OF Cons.prems], of req]
  then show ?case using Cons.IH [of "snd (memfs_request fs req)"] Cons.prems by (simp add: run_requests_def)
qed (simp add: run_requests_def)

lemma destroy_torn:
  assumes "sound fs"
  shows "torn_down (memfs_destroy fs)" "bytes_inv (memfs_destroy fs)" "limit_inv (memfs_destroy fs)"
    "mf_cfg (memfs_destroy fs) = mf_cfg fs"
proof -
  show "torn_down (memfs_destroy fs)" "mf_cfg (memfs_destroy fs) = mf_cfg fs"
    by (simp_all add: torn_down_def memfs_destroy_def)
  have "live_bytes (memfs_destroy fs) = 0" by (simp add: live_bytes_def referenced_def memfs_destroy_def)
  then show "bytes_inv (memfs_destroy fs)" "limit_inv (memfs_destroy fs)"
    using assms by (auto simp: sound_def mid_inv_def bytes_inv_def limit_inv_def) (auto simp: memfs_destroy_def)
qed

lemma run_sound:
  assumes "sound fs" and "roomy (length reqs) fs"
  shows "(if Destroy \<in> set reqs then torn_down (run_requests reqs fs) else sound (run_requests reqs fs)) \<and>
    bytes_inv (run_requests reqs fs) \<and> limit_inv (run_requests reqs fs) \<and> mf_cfg (run_requests reqs fs) = mf_cfg fs"
  using assms
proof (induction reqs arbitrary: fs)
  case Nil
  then show ?case by (simp add: run_requests_def sound_def mid_inv_def)
next
  case (Cons req reqs)
  show ?case
  proof (cases "req = Destroy")
    case True
    then show ?thesis using torn_run [OF destroy_torn(1), of fs reqs] destroy_torn [OF Cons.prems(1)] Cons.prems(1)
      by (simp add: run_requests_def)
  next
    case False
    then have a: "advance fs (snd (memfs_request fs req))"
      using Cons.prems by (intro request_advances) (simp_all add: roomy_def)
    then have "roomy (length reqs) (snd (memfs_request fs req))" "sound (snd (memfs_request fs req))"
      using Cons.prems(2) by (simp_all add: advance_def roomy_def)
    then show ?thesis using Cons.IH a False by (auto simp: run_requests_def advance_def)
  qed
qed

lemma node_at_root: "mf_heap fs = [n] \<Longrightarrow> node_at fs 0 = n"
  by (simp add: node_at_def)

lemma build_sound:
  assumes b: "build cfg now init_file staging = Inr fs" and cap: "\<forall>cap. cfg_capacity cfg = Some cap \<longrightarrow> cap < two64"
  shows "sound fs" and "mf_cfg fs = cfg" and "mf_next_inode fs = 3" and "mf_next_handle fs = 1"
proof -
  obtain i st where "init_file = Inr i" "staging = Inr st"
    using b by (auto simp: build_def Let_def split: sum.splits)
  note fs = b [unfolded build_def this Let_def, simplified, symmetric]
  have root: "node_ok (node_at fs 0)" "mn_inode (node_at fs 0) = 1" "data_len (node_at fs 0) = 0" "mn_kind (node_at fs 0) = MODE_DIR"
    by (simp_all add: fs node_at_def node_ok_def kind_ok_def mode_consts INIT_INODE_def ROOT_INODE_def data_len_def)
  have f: "mf_nodes fs = [(1, 0)]" "length (mf_heap fs) = 1" "map mn_inode (mf_heap fs) = [1]" "mf_file_handles fs = []"
    "mf_dir_handles fs = []" "mf_next_inode fs = 3" "mf_used_bytes fs = 0" "mf_inode_count fs = 1" "mf_cfg fs = cfg"
    by (simp_all add: fs ROOT_INODE_def)
  have "heap_inv fs" using root f by (simp add: heap_inv_def)
  moreover have "table_inv fs" using root f by (simp add: table_inv_def bt_wf_def)
  moreover have "live_bytes fs = 0" using root f by (simp add: live_bytes_def)
  ultimately have "fs_inv fs" using f cap by (simp add: mid_inv_def bytes_inv_def limit_inv_def)
  then show "sound fs" by (simp add: sound_def handles_inv_def f)
  show "mf_cfg fs = cfg" "mf_next_inode fs = 3" "mf_next_handle fs = 1" by (simp_all add: fs)
qed

text \<open>C3. Whatever requests the guest sends, in whatever order, to a filesystem that was just built:
  as long as none of them is a destroy, the filesystem stays sound: an inode number in the table
  leads to a well-formed node of that number (its file type agrees with its content and its mode
  bits, its size is the length of its data, its names are valid), no two nodes ever share a number,
  and the inode count is the number of inodes. A destroy empties the three tables and leaves the
  counters, so from then on the count is only an upper bound of the number of inodes; the tables
  stay empty whatever is sent afterwards. In both cases the inode count stays within the limit and
  the bytes of all files that a name or a handle can still reach are accounted for and fit the
  configured capacity. The 64-bit counters must not wrap, which bounds the number of requests.\<close>

theorem memfs_requests_sound:
  assumes "build cfg now init_file staging = Inr fs"
    and "\<forall>cap. cfg_capacity cfg = Some cap \<longrightarrow> cap < two64"
    and "length reqs + 3 < two64"
    and "fs' = run_requests reqs fs"
  shows "(if Destroy \<in> set reqs then torn_down fs' else sound fs' \<and> mf_inode_count fs' = length (mf_nodes fs')) \<and>
    (\<forall>cap. cfg_capacity cfg = Some cap \<longrightarrow> live_bytes fs' \<le> mf_used_bytes fs' \<and> mf_used_bytes fs' \<le> cap) \<and>
    (\<forall>mx. cfg_max_inodes cfg = Some mx \<longrightarrow> mf_inode_count fs' \<le> max 1 mx) \<and> length (mf_nodes fs') \<le> mf_inode_count fs'"
proof -
  note b = build_sound [OF assms(1,2)]
  have "roomy (length reqs) fs" using assms(3) b by (simp add: roomy_def)
  note r = run_sound [OF b(1) this, folded assms(4), unfolded b(2)]
  then show ?thesis
    by (auto simp: sound_def mid_inv_def bytes_inv_def limit_inv_def torn_down_def split: if_splits)
qed

text \<open>A small configuration for concrete runs.\<close>

definition small_cfg :: MemFsConfig where
  "small_cfg = \<lparr>cfg_capacity = Some 100, cfg_max_inodes = Some 4, cfg_entry_timeout = 5, cfg_attr_timeout = 5,
     cfg_cache_policy = Auto, cfg_writeback = False\<rparr>"

definition root_ctx :: ctx where "root_ctx = \<lparr>ctx_uid = 0, ctx_gid = 0\<rparr>"

definition small_fs :: MemFs where
  "small_fs = projr (build small_cfg epoch (Inr []) (Inr []))"

lemma small_fs_built: "build small_cfg epoch (Inr []) (Inr []) = Inr small_fs"
  by (simp add: small_fs_def build_def)

theorem memfs_requests_sound_witness:
  "let fs = run_requests [Create root_ctx 1 [97] 0x1A4 0 0 epoch, Mkdir root_ctx 1 [98] 0x1ED 0 epoch, Unlink 1 [97] epoch :: unit Request]
       small_fs;
     fs' = run_requests [Create root_ctx 1 [97] 0x1A4 0 0 epoch, Destroy, Lookup 1 [97] :: unit Request] small_fs
   in sound fs \<and> mf_used_bytes fs \<le> 100 \<and> length (mf_nodes fs) \<le> 4 \<and> torn_down fs' \<and> mf_inode_count fs' \<le> 4"
  using memfs_requests_sound [OF small_fs_built _ _ refl, of "[Create root_ctx 1 [97] 0x1A4 0 0 epoch,
      Mkdir root_ctx 1 [98] 0x1ED 0 epoch, Unlink 1 [97] epoch :: unit Request]"]
    memfs_requests_sound [OF small_fs_built _ _ refl, of "[Create root_ctx 1 [97] 0x1A4 0 0 epoch, Destroy, Lookup 1 [97] :: unit Request]"]
  by (simp add: small_cfg_def Let_def)

section \<open>Failed requests\<close>

text \<open>The state is the same up to the staging file, which only buffers the bytes in transit. When \<open>alloc\<close>
  holds, an inode number may have been used up as well: the counter of inode numbers is one further,
  and the node built for that number is in no table.\<close>

definition untouched :: "bool \<Rightarrow> MemFs \<Rightarrow> MemFs \<Rightarrow> bool" where
  "untouched alloc fs fs' \<longleftrightarrow> (\<exists>f. fs' = fs\<lparr>mf_staging_file := f\<rparr>) \<or>
     alloc \<and> (\<exists>ns. fs' = fs\<lparr>mf_next_inode := fetch_add64 (mf_next_inode fs) 1, mf_heap := mf_heap fs @ ns\<rparr>)"

definition atomic :: "bool \<Rightarrow> MemFs \<Rightarrow> 'a op_result \<Rightarrow> bool" where
  "atomic alloc fs x \<longleftrightarrow> (\<forall>e. fst x = Inl e \<longrightarrow> untouched alloc fs (snd x))"

named_theorems atomic \<open>requests that leave no trace when they fail\<close>

lemma untouched_simps [simp]: "untouched c fs fs" "untouched c fs (fs\<lparr>mf_staging_file := f\<rparr>)"
proof -
  have "fs = fs\<lparr>mf_staging_file := mf_staging_file fs\<rparr>" by simp
  then show "untouched c fs fs" unfolding untouched_def by blast
qed (auto simp: untouched_def)

lemma atomic_simps [simp]: "atomic c fs (Inr x, fs')" "atomic c fs (Inl e, fs') = untouched c fs fs'" "atomic c fs (r, fs)"
  "atomic c fs (r, fs\<lparr>mf_staging_file := y\<rparr>)"
  by (simp_all add: atomic_def)

lemma atomic_reply [simp]: "atomic c fs (reply f x) = atomic c fs x" "atomic c fs (answer fs f r)"
  by (cases "fst x"; auto simp: atomic_def reply_def) (simp add: atomic_def answer_def)

lemma atomic_try [simp]: "(\<And>x. r = Inr x \<Longrightarrow> atomic c fs (k x)) \<Longrightarrow> atomic c fs (try_res r fs k)"
  by (cases r) (simp_all add: try_res_def)

lemma atomic_if: "(b \<Longrightarrow> atomic c fs x) \<Longrightarrow> (\<not> b \<Longrightarrow> atomic c fs y) \<Longrightarrow> atomic c fs (if b then x else y)"
  by simp

lemma atomic_content:
  "(\<And>d. x = RegularFile d \<Longrightarrow> atomic c fs (f d)) \<Longrightarrow> (\<And>ch p. x = Directory ch p \<Longrightarrow> atomic c fs (g ch p)) \<Longrightarrow>
   (\<And>t. x = Symlink t \<Longrightarrow> atomic c fs (h t)) \<Longrightarrow> (x = Special \<Longrightarrow> atomic c fs k) \<Longrightarrow>
   atomic c fs (case x of RegularFile d \<Rightarrow> f d | Directory ch p \<Rightarrow> g ch p | Symlink t \<Rightarrow> h t | Special \<Rightarrow> k)"
  by (cases x) simp_all

lemma atomic_bind:
  "atomic c fs x \<Longrightarrow> (\<And>v fs'. x = (Inr v, fs') \<Longrightarrow> atomic c fs (k v fs')) \<Longrightarrow>
   atomic c fs (case x of (Inl e, fs) \<Rightarrow> (Inl e, fs) | (Inr v, fs) \<Rightarrow> k v fs)"
  by (cases x; cases "fst x") (auto simp: atomic_def)

lemmas atomic_intros = atomic_try atomic_if atomic_content

lemma read_atomic [atomic]:
  "atomic c fs (memfs_init fs cap)" "atomic c fs (memfs_lookup fs p n)" "atomic c fs (do_getattr fs ino)"
  "atomic c fs (do_read fs io ino handle sz offset)" "atomic c fs (do_release fs ino handle)" "atomic c fs (do_releasedir fs handle)"
  "atomic c fs (do_open fs ino kp fl n1 n2)" "atomic c fs (do_opendir fs ino)"
  "atomic c fs (do_setxattr fs ino name v flags)" "atomic c fs (do_removexattr fs ino name)"
  "atomic c fs (do_link fs ino newparent newname now)" "atomic c fs (do_rmdir fs p n now)"
  unfolding memfs_init_def memfs_lookup_def do_getattr_def do_read_def do_release_def do_releasedir_def do_open_def
    do_opendir_def do_setxattr_def do_removexattr_def do_link_def do_rmdir_def Let_def
  by (auto intro!: atomic_intros split: sum.split option.split prod.split InodeContent.split)

lemma data_atomic [atomic]:
  "atomic c fs (do_setattr fs ino attr valid n1 n2 n3)" "atomic c fs (do_fallocate fs ino handle mode offset len)"
  "atomic c fs (do_write fs io ino handle sz offset kill_priv now)"
proof -
  show "atomic c fs (do_setattr fs ino attr valid n1 n2 n3)"
    unfolding do_setattr_def Let_def
    by (auto intro!: atomic_intros dest!: setattr_size_err split: sum.split prod.split)
  show "atomic c fs (do_fallocate fs ino handle mode offset len)"
    unfolding do_fallocate_def Let_def
    by (auto intro!: atomic_intros dest!: reserve_err split: sum.split prod.split)
  have wd: "atomic c fs (write_data (fs\<lparr>mf_staging_file := x\<rparr>) a app offset buf kill_priv now data)" for x a app buf data
    by (auto simp: write_data_def Let_def try_res_def dest!: reserve_err split: sum.split prod.split)
  show "atomic c fs (do_write fs io ino handle sz offset kill_priv now)"
    unfolding do_write_def Let_def
    by (auto intro!: atomic_intros wd split: sum.split prod.split)
qed

lemma rename_atomic [atomic]: "atomic c fs (do_rename fs olddir oldname newdir newname flags now)"
proof -
  have "atomic c fs (rename_exchange fs olddir oldname newdir newname p q i n d now)" for p q i n d
    by (simp add: rename_exchange_def Let_def)
  moreover have "atomic c fs (rename_dest fs q b d now)" for q b d
    unfolding rename_dest_def Let_def by (auto intro!: atomic_intros split: option.split)
  then have "atomic c fs (rename_replace fs olddir oldname newdir newname p q i n b d now)" for p q i n b d
    unfolding rename_replace_def Let_def by (rule atomic_bind) simp
  ultimately show ?thesis
    unfolding do_rename_def Let_def by (intro atomic_intros) simp_all
qed

lemma dir_atomic [atomic]: "atomic c fs (do_readdir fs ino handle offset)" "atomic c fs (do_readdirplus fs ino handle offset)"
proof -
  have e: "atomic c fs (ensure_snapshot fs ino handle)"
    unfolding ensure_snapshot_def by (auto intro!: atomic_intros split: option.split)
  then have s: "atomic c fs (serve_snapshot_entries fs ino handle offset)"
    unfolding serve_snapshot_entries_def by (rule atomic_bind) simp
  then show "atomic c fs (do_readdir fs ino handle offset)" by (simp add: do_readdir_def)
  from s show "atomic c fs (do_readdirplus fs ino handle offset)"
    unfolding do_readdirplus_def by (rule atomic_bind) (simp add: case_prod_beta)
qed

lemma count_back: "n < two64 \<Longrightarrow> fetch_sub64 (fetch_add64 n 1) 1 = n"
proof (cases "n + 1 < two64")
  case False
  moreover assume "n < two64"
  ultimately have "n = two64 - 1" by simp
  then show ?thesis by (simp add: fetch_sub64_def fetch_add64_def)
qed (simp add: fetch_sub64_def fetch_add64_def)

text \<open>A creation that fails after it has allocated its inode number gives the count back.\<close>

definition reserved :: "MemFs \<Rightarrow> MemFs \<Rightarrow> bool" where
  "reserved fs fs1 \<longleftrightarrow> (\<forall>ns. untouched True fs (dec_inode_count (fs1\<lparr>mf_heap := mf_heap fs @ ns\<rparr>))) \<and> mf_heap fs1 = mf_heap fs"

lemma alloc_reserved:
  assumes "sound fs" and "alloc_inode fs = (Inr ino, fs1)"
  shows "reserved fs fs1"
proof -
  have "length (mf_nodes fs) < two64" using nodes_bound [OF soundD [OF assms(1)]] assms(1)
    by (simp add: sound_def mid_inv_def heap_inv_def)
  then have "mf_inode_count fs < two64" using assms(1) by (simp add: sound_def mid_inv_def)
  then have "dec_inode_count (fs1\<lparr>mf_heap := mf_heap fs @ ns\<rparr>) =
      fs\<lparr>mf_next_inode := fetch_add64 (mf_next_inode fs) 1, mf_heap := mf_heap fs @ ns\<rparr>" for ns
    using alloc_inode_eq [OF assms(2)] by (cases fs) (simp add: dec_inode_count_def count_back [simplified])
  moreover have "mf_heap fs1 = mf_heap fs" using alloc_inode_eq [OF assms(2)] by simp
  ultimately show ?thesis by (auto simp: reserved_def untouched_def)
qed

lemma reservedD:
  assumes "reserved fs fs1"
  shows "untouched True fs (dec_inode_count fs1)"
proof -
  have "fs1\<lparr>mf_heap := mf_heap fs @ []\<rparr> = fs1" using assms by (simp add: reserved_def flip: append_Nil2)
  then show ?thesis using assms unfolding reserved_def by metis
qed

lemma atomic_alloc:
  assumes "sound fs" and "\<And>ino fs1. reserved fs fs1 \<Longrightarrow> atomic True fs (k ino fs1)"
  shows "atomic True fs (case alloc_inode fs of (Inl e, fs) \<Rightarrow> (Inl e, fs) | (Inr ino, fs) \<Rightarrow> k ino fs)"
proof -
  have "atomic True fs (alloc_inode fs)"
    by (simp add: alloc_inode_def atomic_def split: option.split)
  then show ?thesis using assms alloc_reserved by (intro atomic_bind) blast+
qed

lemma atomic_make:
  assumes "reserved fs fs1" and k: "\<And>a fs'. atomic True fs (k a fs')"
  shows "atomic True fs (case new_node n fs1 of (node, fs) \<Rightarrow>
    case insert_child fs p name ino of (Inl e, fs) \<Rightarrow> (Inl e, fs) | (Inr _, fs) \<Rightarrow> k node fs)"
proof -
  have "untouched True fs (dec_inode_count (snd (new_node n fs1)))"
    using assms(1) by (auto simp: reserved_def new_node_def)
  then have "atomic True fs (insert_child (snd (new_node n fs1)) p name ino)"
    by (auto simp: insert_child_def split: InodeContent.split)
  then show ?thesis unfolding case_prod_beta [of _ "new_node n fs1"] by (rule atomic_bind) (rule k)
qed

lemma create_atomic [atomic]:
  assumes "sound fs"
  shows "atomic True fs (do_mkdir fs cx p n m u now)" "atomic True fs (do_symlink fs cx l p n now)"
    "atomic True fs (do_create fs cx p n m fl u now)" "atomic True fs (do_mknod fs cx p n m rd u now)"
proof -
  have opt: "atomic True fs (case x of None \<Rightarrow> z | Some (kind, c) \<Rightarrow> f kind c)"
    if "atomic True fs z" "\<And>kind c. atomic True fs (f kind c)" for x f and z :: "Entry op_result"
    using that by (auto split: option.split)
  show "atomic True fs (do_mkdir fs cx p n m u now)" "atomic True fs (do_symlink fs cx l p n now)"
    "atomic True fs (do_create fs cx p n m fl u now)"
    unfolding do_mkdir_def do_symlink_def do_create_def Let_def
    by (intro atomic_intros atomic_alloc [OF assms] atomic_make; simp add: case_prod_beta reservedD)+
  show "atomic True fs (do_mknod fs cx p n m rd u now)"
    unfolding do_mknod_def Let_def
    by (intro atomic_intros atomic_alloc [OF assms] opt atomic_make; simp add: reservedD)
qed

lemma bt_put_back: "bt_wf m \<Longrightarrow> map_of m k = Some v \<Longrightarrow> bt_insert k v (bt_remove k m) = m"
proof (induction m)
  case (Cons x m)
  obtain a b where x: "x = (a, b)" by (cases x)
  show ?case
  proof (cases "a = k")
    case True
    have rest: "bt_remove k m = m" "\<forall>k' \<in> fst ` set m. k < k'"
      using Cons.prems(1) True by (auto simp: x bt_wf_Cons bt_remove_def filter_id_conv)
    then have "bt_insert k v m = (k, v) # m" by (cases m) auto
    then show ?thesis using Cons.prems(2) rest True by (simp add: x bt_remove_def)
  next
    case False
    then have "k \<in> fst ` set m" using Cons.prems(2) by (force simp: x dest: map_of_SomeD)
    then have "a < k" using Cons.prems(1) by (auto simp: x bt_wf_Cons)
    then show ?thesis using Cons False by (auto simp: x bt_wf_Cons bt_remove_def)
  qed
qed simp

text \<open>An unlink can only fail halfway at a name whose inode is gone from the table.\<close>

definition dangling :: "MemFs \<Rightarrow> u64 \<Rightarrow> bytes \<Rightarrow> bool" where
  "dangling fs parent name \<longleftrightarrow>
     (case map_of (mf_nodes fs) parent of
        Some p \<Rightarrow> (case mn_content (node_at fs p) of
                    Directory children _ \<Rightarrow> (case map_of children name of
                                              Some i \<Rightarrow> map_of (mf_nodes fs) i = None
                                            | None \<Rightarrow> False)
                  | _ \<Rightarrow> False)
      | None \<Rightarrow> False)"

lemma unlink_atomic:
  assumes "sound fs" and "\<not> dangling fs parent name"
  shows "atomic c fs (do_unlink fs parent name now)"
proof -
  have restored: "untouched c fs (ch_insert p name i (ch_remove p name fs))"
    if "get_node fs parent = Inr p" "mn_content (node_at fs p) = Directory ch q" "map_of ch name = Some i" for p ch q i
  proof -
    note g = get_node_ok [OF soundD [OF assms(1)] that(1)]
    have "bt_wf ch" using g(5) that(2) by (simp add: node_ok_def)
    then have "(node_at fs p)\<lparr>mn_content := Directory (bt_insert name i (bt_remove name ch)) q\<rparr> = node_at fs p"
      using that(2,3) by (cases "node_at fs p") (simp add: bt_put_back)
    then have "ch_insert p name i (ch_remove p name fs) = fs"
      using g(1) that(2) by (simp add: ch_insert_def ch_remove_def upd_node_def node_at_def)
    then show ?thesis by simp
  qed
  have "get_node (ch_remove p name fs) i \<noteq> Inl e"
    if "get_node fs parent = Inr p" "mn_content (node_at fs p) = Directory ch q" "map_of ch name = Some i" for p ch q i e
    using assms(2) that
    by (auto simp: dangling_def get_node_def ok_or_def ch_remove_def split: option.splits)
  then show ?thesis
    using restored unfolding do_unlink_def Let_def
    by (auto intro!: atomic_intros simp: ok_or_def split: option.splits) (auto simp: try_res_def atomic_def split: sum.splits)
qed

fun streams :: "'b Request \<Rightarrow> bool" where
  "streams (ReaddirForEach _ _ _ _ _) = True"
| "streams (ReaddirplusForEach _ _ _ _ _) = True"
| "streams _ = False"

fun creates :: "'b Request \<Rightarrow> bool" where
  "creates (ReqSymlink _ _ _ _ _) = True"
| "creates (Mknod _ _ _ _ _ _ _) = True"
| "creates (Mkdir _ _ _ _ _ _) = True"
| "creates (Create _ _ _ _ _ _ _) = True"
| "creates _ = False"

fun unlinks_dangling :: "MemFs \<Rightarrow> 'b Request \<Rightarrow> bool" where
  "unlinks_dangling fs (Unlink parent name _) = dangling fs parent name"
| "unlinks_dangling fs _ = False"

lemma request_atomic:
  "sound fs \<Longrightarrow> \<not> streams req \<Longrightarrow> \<not> unlinks_dangling fs req \<Longrightarrow> atomic (creates req) fs (memfs_request fs req)"
  by (cases req) (simp_all add: atomic unlink_atomic)



end
