(* ===== verification/Memfs_Names.thy ===== *)
theory Memfs_Names
  imports Memfs_Run
begin

text \<open>
  The namespace of the in-memory filesystem as one map from a directory's inode number and a name
  to an inode number, and the refinement lemma: every successful request changes this map exactly
  as its specification says. Below it, what the data requests do to a file's bytes.
\<close>

section \<open>The namespace\<close>

type_synonym namespace = "u64 \<Rightarrow> bytes \<Rightarrow> u64 option"

definition node_names :: "MemNode \<Rightarrow> bytes \<Rightarrow> u64 option" where
  "node_names n = (case mn_content n of Directory ch _ \<Rightarrow> map_of ch | _ \<Rightarrow> (\<lambda>_. None))"

definition names :: "MemFs \<Rightarrow> namespace" where
  "names fs d = (case map_of (mf_nodes fs) d of Some a \<Rightarrow> node_names (node_at fs a) | None \<Rightarrow> (\<lambda>_. None))"

definition live :: "MemFs \<Rightarrow> u64 \<Rightarrow> bool" where
  "live fs d \<longleftrightarrow> map_of (mf_nodes fs) d \<noteq> None"

definition is_dir :: "MemFs \<Rightarrow> addr \<Rightarrow> bool" where
  "is_dir fs a \<longleftrightarrow> (\<exists>ch p. mn_content (node_at fs a) = Directory ch p)"

text \<open>What a successful request does to the namespace.\<close>

definition bind_name :: "u64 \<Rightarrow> bytes \<Rightarrow> u64 option \<Rightarrow> namespace \<Rightarrow> namespace" where
  "bind_name d n i ns = ns(d := (ns d)(n := i))"

fun reply_inode :: "'b Reply \<Rightarrow> u64 option" where
  "reply_inode (REntry e) = Some (en_inode e)"
| "reply_inode (RCreated e h opts) = Some (en_inode e)"
| "reply_inode _ = None"

fun names_after :: "'b Request \<Rightarrow> 'b Reply \<Rightarrow> namespace \<Rightarrow> namespace" where
  "names_after (ReqSymlink cx l parent name now) r ns = bind_name parent name (reply_inode r) ns"
| "names_after (Mknod cx parent name mode rdev umask now) r ns = bind_name parent name (reply_inode r) ns"
| "names_after (Mkdir cx parent name mode umask now) r ns = bind_name parent name (reply_inode r) ns"
| "names_after (Create cx parent name mode flags umask now) r ns = bind_name parent name (reply_inode r) ns"
| "names_after (Link ino newparent newname now) r ns = bind_name newparent newname (Some ino) ns"
| "names_after (Unlink parent name now) r ns = bind_name parent name None ns"
| "names_after (Rmdir parent name now) r ns = bind_name parent name None ns"
| "names_after (Rename olddir oldname newdir newname flags now) r ns =
     (if olddir = newdir \<and> oldname = newname then ns
      else if flags AND RENAME_EXCHANGE \<noteq> 0
      then bind_name newdir newname (ns olddir oldname) (bind_name olddir oldname (ns newdir newname) ns)
      else bind_name newdir newname (ns olddir oldname) (bind_name olddir oldname None ns))"
| "names_after Destroy r ns = (\<lambda>_ _. None)"
| "names_after req r ns = ns"

section \<open>The namespace under primitive updates\<close>

named_theorems names_upd \<open>how the updates of a node act on the namespace\<close>

lemma names_upd_same [names_upd]:
  assumes "a < length (mf_heap fs)" and "\<And>n. node_names (f n) = node_names n"
  shows "names (upd_node a f fs) = names fs"
  using assms by (auto simp: names_def fun_eq_iff split: option.split)

lemma names_meta [names_upd]:
  "a < length (mf_heap fs) \<Longrightarrow> names (upd_meta a f fs) = names fs"
  "a < length (mf_heap fs) \<Longrightarrow> names (inc_lookup a fs) = names fs"
  "a < length (mf_heap fs) \<Longrightarrow> names (set_parent a p fs) = names fs"
  unfolding upd_meta_def inc_lookup_def set_parent_def
  by (auto intro!: names_upd_same simp: node_names_def split: InodeContent.split)

lemma names_insert [names_upd]:
  "a < length (mf_heap fs) \<Longrightarrow> names (ch_insert a n i fs) d =
     (if map_of (mf_nodes fs) d = Some a \<and> is_dir fs a then (names fs d)(n \<mapsto> i) else names fs d)"
  by (auto simp: names_def ch_insert_def node_names_def is_dir_def split: option.split InodeContent.split)

lemma names_remove [names_upd]:
  "a < length (mf_heap fs) \<Longrightarrow> names (ch_remove a n fs) d =
     (if map_of (mf_nodes fs) d = Some a then (names fs d)(n := None) else names fs d)"
  by (auto simp: names_def ch_remove_def node_names_def fun_eq_iff split: option.split InodeContent.split)

lemma names_fields [simp]:
  "names (fs\<lparr>mf_file_handles := x1\<rparr>) = names fs" "names (fs\<lparr>mf_dir_handles := x2\<rparr>) = names fs"
  "names (fs\<lparr>mf_next_inode := x3\<rparr>) = names fs" "names (fs\<lparr>mf_next_handle := x4\<rparr>) = names fs"
  "names (fs\<lparr>mf_used_bytes := x5\<rparr>) = names fs" "names (fs\<lparr>mf_inode_count := x6\<rparr>) = names fs"
  "names (fs\<lparr>mf_writeback := x7\<rparr>) = names fs" "names (fs\<lparr>mf_staging_file := x8\<rparr>) = names fs"
  by (simp_all add: names_def fun_eq_iff split: option.split)

lemma is_dir_upd [names_upd]:
  "a < length (mf_heap fs) \<Longrightarrow> is_dir (upd_meta a f fs) b = is_dir fs b"
  "a < length (mf_heap fs) \<Longrightarrow> is_dir (inc_lookup a fs) b = is_dir fs b"
  "a < length (mf_heap fs) \<Longrightarrow> is_dir (set_parent a p fs) b = is_dir fs b"
  "a < length (mf_heap fs) \<Longrightarrow> is_dir (ch_insert a n i fs) b = is_dir fs b"
  "a < length (mf_heap fs) \<Longrightarrow> is_dir (ch_remove a n fs) b = is_dir fs b"
  by (auto simp: is_dir_def frame_defs split: InodeContent.splits)

lemma nodes_upd [simp]:
  "mf_nodes (upd_meta a f fs) = mf_nodes fs" "mf_nodes (inc_lookup a fs) = mf_nodes fs"
  "mf_nodes (set_parent a p fs) = mf_nodes fs" "mf_nodes (ch_insert a n i fs) = mf_nodes fs"
  "mf_nodes (ch_remove a n fs) = mf_nodes fs" "mf_nodes (release_bytes fs k) = mf_nodes fs"
  by (simp_all add: frame_defs)

lemma names_release [names_upd]: "names (release_bytes fs k) = names fs"
  by (simp add: release_bytes_eq)

text \<open>Eviction takes a whole directory out of the namespace and leaves the others alone.\<close>

lemma evict_names: "live (evict_inode fs ls i) d \<Longrightarrow> names (evict_inode fs ls i) d = names fs d"
  by (auto simp: live_def names_def node_at_def split: if_splits)

lemma try_evict_names: "live (try_evict fs ls i) d \<Longrightarrow> names (try_evict fs ls i) d = names fs d"
  by (auto simp: try_evict_def Let_def evict_names split: option.split)

section \<open>Requests that leave the namespace alone\<close>

text \<open>The directories that are still there have the names of \<open>ns\<close>.\<close>

definition has_names :: "MemFs \<Rightarrow> namespace \<Rightarrow> bool" where
  "has_names fs ns \<longleftrightarrow> (\<forall>d. live fs d \<longrightarrow> names fs d = ns d)"

lemma has_namesI: "names fs = ns \<Longrightarrow> has_names fs ns"
  by (simp add: has_names_def)

lemma has_names_trans: "has_names fs' (names fs) \<Longrightarrow> (\<And>d. live fs' d \<Longrightarrow> live fs d) \<Longrightarrow> has_names fs ns \<Longrightarrow> has_names fs' ns"
  by (simp add: has_names_def)

lemma names_upd_at:
  assumes "a < length (mf_heap fs)" and "node_names (f (node_at fs a)) = node_names (node_at fs a)"
  shows "names (upd_node a f fs) = names fs"
  using assms by (auto simp: names_def fun_eq_iff split: option.split)

lemma names_data:
  "a < length (mf_heap fs) \<Longrightarrow> mn_content (node_at fs a) = RegularFile d \<Longrightarrow>
    names (upd_node a (\<lambda>n. n\<lparr>mn_content := RegularFile d'\<rparr>) fs) = names fs"
  by (rule names_upd_at) (simp_all add: node_names_def)

lemma reserve_names: "reserve_bytes fs n = (r, fs') \<Longrightarrow> names fs' = names fs"
  by (drule reserve_bytes_cases) auto

lemma names_grow:
  assumes "reserve_bytes fs k = (r, fs1)" and "a < length (mf_heap fs)" and "mn_content (node_at fs a) = RegularFile d"
  shows "names (upd_node a (\<lambda>n. n\<lparr>mn_content := RegularFile d'\<rparr>) fs1) = names fs"
  using names_data [of a fs1 d d'] reserve_names [OF assms(1)] reserve_frame [OF assms(1)] assms(2,3) by simp

lemma forget_one_names:
  assumes "fs_inv fs"
  shows "has_names (forget_one fs ls i c) (names fs)" and "live (forget_one fs ls i c) d \<Longrightarrow> live fs d"
proof -
  have u: "names (upd_node a (\<lambda>n. n\<lparr>mn_lookup_refs := r\<rparr>) g) = names g" if "a < length (mf_heap g)" for a g r
    using that by (intro names_upd_same) (simp_all add: node_names_def)
  show "has_names (forget_one fs ls i c) (names fs)"
    using map_of_node(1) [OF assms, of i]
    by (auto simp: forget_one_def Let_def has_names_def evict_names u split: option.split)
  show "live (forget_one fs ls i c) d \<Longrightarrow> live fs d"
    by (auto simp: forget_one_def Let_def live_def split: option.splits if_splits)
qed

lemma batch_forget_names:
  assumes "fs_inv fs"
  shows "has_names (batch_forget fs reqs) (names fs) \<and> (\<forall>d. live (batch_forget fs reqs) d \<longrightarrow> live fs d)"
  using assms
proof (induction fs reqs rule: batch_forget.induct)
  case (2 fs ino count reqs)
  note f = forget_one_names [OF 2(3)] forget_one_inv [OF 2(3)]
  show ?case using 2 f [of "[]" ino count] by (auto intro: has_names_trans)
qed (simp add: has_namesI)

lemma forget_all_names:
  assumes "fs_inv fs"
  shows "has_names (forget_all fs ls inos) (names fs) \<and> (\<forall>d. live (forget_all fs ls inos) d \<longrightarrow> live fs d)"
  using assms
proof (induction fs ls inos rule: forget_all.induct)
  case (2 fs ls ino inos)
  note f = forget_one_names [OF 2(2)] forget_one_inv [OF 2(2)]
  show ?case using 2 f [of ls ino 1] by (auto intro: has_names_trans)
qed (simp add: has_namesI)

lemma memfs_lookup_names: "fs_inv fs \<Longrightarrow> names (snd (memfs_lookup fs p n)) = names fs"
  by (auto simp: memfs_lookup_def try_res_def Let_def names_upd dest: get_node_len split: sum.split InodeContent.split)

lemma xattr_names:
  "fs_inv fs \<Longrightarrow> names (snd (do_setxattr fs ino name v flags)) = names fs"
  "fs_inv fs \<Longrightarrow> names (snd (do_removexattr fs ino name)) = names fs"
  by (auto simp: do_setxattr_def do_removexattr_def try_res_def Let_def node_names_def intro!: names_upd_same
      dest: get_node_len split: sum.split)

lemma do_setattr_names:
  assumes "fs_inv fs"
  shows "names (snd (do_setattr fs ino attr valid n1 n2 n3)) = names fs"
proof -
  have "names fs' = names fs \<and> length (mf_heap fs') = length (mf_heap fs)"
    if "get_node fs ino = Inr a" "setattr_size fs a sz = (r, fs')" for a sz r fs'
    using that get_node_len [OF assms that(1)]
    by (auto simp: setattr_size_def Let_def names_release names_data names_grow reserve_frame(1) reserve_names
        split: InodeContent.splits if_splits prod.splits sum.splits)
  then show ?thesis
    using get_node_len [OF assms]
    by (fastforce simp: do_setattr_def try_res_def Let_def names_meta split: sum.split prod.split)
qed

lemma upd_node_len: "length (mf_heap (upd_node a f fs)) = length (mf_heap fs)"
  by simp

lemma data_names:
  assumes inv: "fs_inv fs"
  shows "names (snd (do_read fs io ino handle sz offset)) = names fs"
    and "names (snd (do_fallocate fs ino handle mode offset len)) = names fs"
    and "names (snd (do_write fs io ino handle sz offset kill_priv now)) = names fs"
proof -
  show "names (snd (do_read fs io ino handle sz offset)) = names fs"
    by (auto simp: do_read_def try_res_def Let_def split: sum.split InodeContent.split)
  show "names (snd (do_fallocate fs ino handle mode offset len)) = names fs"
    using handle_node(1) [OF inv]
    by (auto simp: do_fallocate_def try_res_def Let_def ok_or_def names_meta names_grow names_data reserve_frame(1)
        dest: reserve_err split: sum.split InodeContent.split option.split prod.split)
  have w: "names (snd (write_data (fs\<lparr>mf_staging_file := x\<rparr>) a app offset buf kill_priv now d)) = names fs"
    if "a < length (mf_heap fs)" "mn_content (node_at fs a) = RegularFile d" for x a app buf d
    using that names_grow [of "fs\<lparr>mf_staging_file := x\<rparr>" _ _ _ a d]
    by (auto simp: write_data_def try_res_def Let_def ok_or_def names_meta names_data reserve_frame(1)
        dest: reserve_names split: sum.split option.split prod.split)
  show "names (snd (do_write fs io ino handle sz offset kill_priv now)) = names fs"
    using handle_node(1) [OF inv]
    by (auto simp: do_write_def try_res_def Let_def ok_or_def intro!: w
        split: sum.split InodeContent.split option.split prod.split)
qed

lemma open_names:
  assumes "fs_inv fs"
  shows "names (snd (do_open fs ino kill_priv flags now1 now2)) = names fs"
proof -
  have "names (open_truncate fs a now) = names fs" if "get_node fs ino = Inr a" for a now
    using get_node_len [OF assms that]
    by (auto simp: open_truncate_def Let_def names_meta names_release names_data split: InodeContent.split)
  moreover note open_truncate_steady(4) [OF assms]
  ultimately show ?thesis
    using get_node_len [OF assms]
    by (auto simp: do_open_def try_res_def Let_def add_handle_def names_meta split: sum.split)
qed

lemma handle_names:
  "names (snd (do_release fs ino handle)) = names fs" "names (snd (do_opendir fs ino)) = names fs"
  "names (snd (do_releasedir fs handle)) = names fs" "names (snd (memfs_init fs c)) = names fs"
  "names (snd (ensure_snapshot fs ino handle)) = names fs"
  by (auto simp: do_release_def do_opendir_def do_releasedir_def memfs_init_def ensure_snapshot_def try_res_def Let_def
      names_release split: option.split sum.split InodeContent.split)

lemma readdir_names:
  "names (snd (do_readdir fs ino handle offset)) = names fs"
  "names (snd (serve_snapshot_entries fs ino handle offset)) = names fs"
  "names (snd (fst (do_readdir_for_each fs add b ino handle offset))) = names fs"
  using handle_names(5) [of fs ino handle]
  by (auto simp: do_readdir_def serve_snapshot_entries_def do_readdir_for_each_def stream_snapshot_entries_def
      split: prod.split sum.split)

lemma readdirplus_loop_names: "fs_inv fs \<Longrightarrow> names (snd (readdirplus_loop fs des result)) = names fs"
proof (induction des arbitrary: fs result)
  case (Cons de des)
  have "fs_inv (inc_lookup a fs) \<and> names (inc_lookup a fs) = names fs" if "get_node fs (dd_ino de) = Inr a" for a
    using get_node_len [OF Cons.prems that] by (simp add: names_meta inc_lookup_inv [OF Cons.prems])
  then show ?case using Cons by (auto simp: Let_def split: sum.split)
qed simp

lemma do_readdirplus_names:
  assumes "sound fs"
  shows "names (snd (do_readdirplus fs ino handle offset)) = names fs"
  using readdir_names(2) [of fs ino handle offset] quiet_sound [OF serve_snapshot_quiet [OF assms, of ino handle offset]]
  by (auto simp: do_readdirplus_def case_prod_beta readdirplus_loop_names soundD split: sum.split)

definition narrows :: "MemFs \<Rightarrow> MemFs \<Rightarrow> bool" where
  "narrows fs fs' \<longleftrightarrow> has_names fs' (names fs) \<and> (\<forall>d. live fs' d \<longrightarrow> live fs d)"

lemma narrows_refl: "narrows fs fs"
  by (simp add: narrows_def has_namesI)

lemma narrows_trans: "narrows fs fs' \<Longrightarrow> narrows fs' fs'' \<Longrightarrow> narrows fs fs''"
  unfolding narrows_def by (meson has_names_trans)

lemma narrows_forget: "fs_inv fs \<Longrightarrow> narrows fs (forget_one fs ls i c)" "fs_inv fs \<Longrightarrow> narrows fs (forget_all fs ls inos)"
  using forget_one_names forget_all_names by (auto simp: narrows_def)

lemma readdirplus_stream_names: "fs_inv fs \<Longrightarrow> narrows fs (snd (fst (readdirplus_stream fs add b es emitted)))"
proof (induction es arbitrary: fs b emitted)
  case (Cons e es)
  have inc: "fs_inv (inc_lookup a fs) \<and> narrows fs (inc_lookup a fs)"
    if "get_node fs (dd_ino (entry_of e)) = Inr a" for a
    using get_node_len [OF Cons.prems that]
    by (simp add: names_meta inc_lookup_inv [OF Cons.prems] live_def narrows_def has_namesI)
  have f: "narrows fs (forget_one (inc_lookup a fs) ls i c)"
    "narrows fs (forget_all (forget_one (inc_lookup a fs) ls i c) ls inos)"
    "narrows fs (snd (fst (readdirplus_stream (inc_lookup a fs) add b es em)))"
    if "get_node fs (dd_ino (entry_of e)) = Inr a" for a ls i c inos b em
    using inc [OF that] forget_one_inv Cons.IH by (meson narrows_trans narrows_forget)+
  show ?case
    using Cons by (auto simp: Let_def f narrows_refl split: sum.split prod.split)
qed (simp add: narrows_refl)

lemma do_readdirplus_for_each_names:
  assumes "sound fs"
  shows "has_names (snd (fst (do_readdirplus_for_each fs add b ino handle offset))) (names fs)"
proof (cases "ensure_snapshot fs ino handle")
  case (Pair r fs1)
  have "names fs1 = names fs" "fs_inv fs1"
    using handle_names(5) [of fs ino handle] soundD [OF quiet_sound [OF ensure_snapshot_quiet [OF assms, of ino handle]]]
    by (simp_all add: Pair)
  then show ?thesis
    using readdirplus_stream_names [of fs1 add b _ "[]"]
    by (auto simp: do_readdirplus_for_each_def Pair has_namesI narrows_def split: sum.split)
qed

section \<open>Requests that change one name\<close>

lemma names_of_node: "map_of (mf_nodes fs) d = Some a \<Longrightarrow> names fs d = node_names (node_at fs a)"
  by (simp add: names_def)

lemma dir_addr:
  assumes "fs_inv fs" and "get_node fs d = Inr a"
  shows "map_of (mf_nodes fs) d' = Some a \<longleftrightarrow> d' = d"
  using get_node_ok(3) [OF assms] nodes_addr_unique [of fs d' a d] assms(1) by (auto simp: mid_inv_def)

lemma names_register: "names (register_node ino a fs) d = (if d = ino then node_names (node_at fs a) else names fs d)"
  by (auto simp: names_def register_node_def node_at_def split: option.split)

lemma creation_names:
  assumes c: "sound fs" "roomy 1 fs" "get_node fs parent = Inr p"
      "alloc_inode fs = (Inr ino, fs1)" "mn_inode n = ino" "node_ok n"
    and n: "node_names n = (\<lambda>_. None)"
    and new: "new_node n fs1 = (a, fs2)" and ins: "insert_child fs2 p name ino = (Inr u, fs3)"
  shows "names (register_node ino a (upd_meta p f fs3)) = bind_name parent name (Some ino) (names fs)"
    and "mn_inode (node_at (register_node ino a (upd_meta p f fs3)) a) = ino"
proof -
  have inv: "fs_inv fs" using c(1) by (rule soundD)
  have "mf_next_inode fs + 1 < two64" using c(2) by (simp add: roomy_def)
  note al = alloc_inode_inv [OF inv this c(4)]
  note nn = new_node_inv [OF al(1) _ c(6) new, unfolded c(5), OF al(2)]
  have p: "p < length (mf_heap fs)" "map_of (mf_nodes fs) d = Some p \<longleftrightarrow> d = parent" for d
    using get_node_ok(1) [OF inv c(3)] dir_addr [OF inv c(3)] by simp_all
  then have p2: "p < length (mf_heap fs2)" "p \<noteq> a" using nn(4) [of p] al(3) by auto
  have len: "a < length (mf_heap fs2)" using nn by simp
  have old: "names fs2 d = names fs d" "map_of (mf_nodes fs2) d = map_of (mf_nodes fs) d" for d
    using nn(4) al(3) nn(5) al(4) map_of_node(1) [OF inv, of d]
    by (auto simp: names_def node_at_def split: option.split)
  have free: "map_of (mf_nodes fs) ino = None"
    using al(2,3) map_of_node [OF inv, of ino]
    by (cases "map_of (mf_nodes fs) ino") (auto simp: fresh_inode_def node_at_def)
  have e: "fs3 = ch_insert p name ino fs2" "is_dir fs2 p"
    using ins by (auto simp: insert_child_def is_dir_def split: InodeContent.splits if_splits)
  have at: "node_at (upd_meta p f fs3) a = n" using p2 nn(3) by (simp add: e frame_defs)
  have other: "names (upd_meta p f fs3) d = bind_name parent name (Some ino) (names fs) d" for d
    using p2 e(2) by (simp add: e(1) names_upd old p bind_name_def)
  show "names (register_node ino a (upd_meta p f fs3)) = bind_name parent name (Some ino) (names fs)"
  proof
    fix d
    have "parent \<noteq> ino" using free get_node_ok(3) [OF inv c(3)] by auto
    then show "names (register_node ino a (upd_meta p f fs3)) d = bind_name parent name (Some ino) (names fs) d"
      using other [of d] n at free by (simp add: names_register) (simp add: bind_name_def names_def)
  qed
  show "mn_inode (node_at (register_node ino a (upd_meta p f fs3)) a) = ino"
    using at c(5) by (simp add: register_node_def node_at_def)
qed

definition binds :: "MemFs \<Rightarrow> u64 \<Rightarrow> bytes \<Rightarrow> ('a \<Rightarrow> u64) \<Rightarrow> 'a op_result \<Rightarrow> bool" where
  "binds fs d n f x \<longleftrightarrow> (\<forall>v fs'. x = (Inr v, fs') \<longrightarrow> names fs' = bind_name d n (Some (f v)) (names fs))"

lemma binds_err [simp]: "binds fs d n f (Inl e, fs')"
  by (simp add: binds_def)

lemma binds_try: "(\<And>x. r = Inr x \<Longrightarrow> binds fs d n f (k x)) \<Longrightarrow> binds fs d n f (try_res r fs k)"
  by (cases r) (simp_all add: try_res_def)

lemma binds_if: "(\<not> c \<Longrightarrow> binds fs d n f y) \<Longrightarrow> binds fs d n f (if c then (Inl e, g) else y)"
  by simp

lemma binds_bind:
  "(\<And>v fs'. x = (Inr v, fs') \<Longrightarrow> binds fs d n f (k v fs')) \<Longrightarrow>
    binds fs d n f (case x of (Inl e, fs) \<Rightarrow> (Inl e, fs) | (Inr v, fs) \<Rightarrow> k v fs)"
  by (cases x; cases "fst x") auto

lemma binds_make:
  assumes c: "sound fs" "roomy 1 fs" "get_node fs parent = Inr p" "alloc_inode fs = (Inr ino, fs1)"
      "mn_inode n = ino" "node_ok n" "node_names n = (\<lambda>_. None)"
    and k: "\<And>a fs'. names fs' = bind_name parent name (Some ino) (names fs) \<Longrightarrow> mn_inode (node_at fs' a) = ino \<Longrightarrow>
      binds fs parent name h (k a fs')"
  shows "binds fs parent name h (let (node, fs) = new_node n fs1
    in case insert_child fs p name ino of
         (Inl e, fs) \<Rightarrow> (Inl e, fs)
       | (Inr _, fs) \<Rightarrow> let fs = upd_meta p f fs; fs = register_node ino node fs in k node fs)"
proof (cases "new_node n fs1")
  case (Pair a fs2)
  show ?thesis
    unfolding Pair Let_def prod.case
    by (intro binds_bind k creation_names [OF c Pair])
qed

lemma fresh_names: "c = RegularFile [] \<or> c = Special \<or> (\<exists>t. c = Symlink t) \<or> (\<exists>q. c = Directory [] q) \<Longrightarrow>
    node_names (fresh_node ino kind m c) = (\<lambda>_. None)"
  by (auto simp: node_names_def fresh_node_def)

lemmas binds_intros = binds_try binds_if binds_bind binds_make

lemma binds_done: "names fs' = bind_name d n (Some i) (names fs) \<Longrightarrow> f v = i \<Longrightarrow> binds fs d n f (Inr v, fs')"
  by (simp add: binds_def)

lemmas fresh_simps = new_meta_def mode_bits kind_ok_def fresh_node_def build_entry_def

lemma create_names:
  assumes "sound fs" and "roomy 1 fs"
  shows "binds fs parent name en_inode (do_mkdir fs cx parent name mode umask now)"
    and "binds fs parent name en_inode (do_symlink fs cx linkname parent name now)"
    and "binds fs parent name (\<lambda>(e, h, opts). en_inode e) (do_create fs cx parent name mode flags umask now)"
proof -
  note intros = binds_intros binds_done assms fresh_node_ok alloc_inode_ge [OF soundD [OF assms(1)]] fresh_names
  show "binds fs parent name en_inode (do_mkdir fs cx parent name mode umask now)"
    unfolding do_mkdir_def by (subst Let_def) (intro intros; assumption?; (simp add: fresh_simps; fail)?)
  show "binds fs parent name en_inode (do_symlink fs cx linkname parent name now)"
    unfolding do_symlink_def by (intro intros; assumption?; (simp add: fresh_simps; fail)?)
  have add: "binds fs parent name (\<lambda>(e, h, opts). en_inode e)
      (let (handle, fs) = add_handle fh fs' in (Inr (build_entry fs (node_at fs a), Some handle, cache_open_options fs), fs))"
    if "names fs' = bind_name parent name (Some ino) (names fs)" "mn_inode (node_at fs' a) = ino" for fh fs' a ino
    using that by (simp add: add_handle_def Let_def binds_def build_entry_def node_at_def)
  show "binds fs parent name (\<lambda>(e, h, opts). en_inode e) (do_create fs cx parent name mode flags umask now)"
    unfolding do_create_def
    by (subst Let_def, subst (4) Let_def) (intro intros add; assumption?; (simp add: fresh_simps; fail)?)
qed

lemma mknod_names:
  assumes "sound fs" and "roomy 1 fs"
  shows "binds fs parent name en_inode (do_mknod fs cx parent name mode rdev umask now)"
proof -
  have ok: "node_ok (fresh_node ino kind (new_meta cx ((mode AND MODE_TYPE_MASK) OR (mode AND NOT umask AND 0xFFF)) rdev 1 0 now) c)"
    "node_names (fresh_node ino kind (new_meta cx ((mode AND MODE_TYPE_MASK) OR (mode AND NOT umask AND 0xFFF)) rdev 1 0 now) c) =
      (\<lambda>_. None)"
    if "mknod_content (mode AND MODE_TYPE_MASK) = Some (kind, c)" "alloc_inode fs = (Inr ino, fs1)" for ino fs1 kind c
    using mknod_content_ok [OF that(1)] alloc_inode_ge [OF soundD [OF assms(1)] that(2)]
    by (auto intro!: fresh_node_ok fresh_names simp: new_meta_def mode_bits)
  have opt: "binds fs parent name en_inode (case x of None \<Rightarrow> (Inl EINVAL, g) | Some (kind, c) \<Rightarrow> k kind c)"
    if "\<And>kind c. x = Some (kind, c) \<Longrightarrow> binds fs parent name en_inode (k kind c)" for x g k
    using that by (auto split: option.split)
  show ?thesis
    unfolding do_mknod_def
    by (subst Let_def, subst Let_def)
      (intro binds_intros binds_done opt assms ok; assumption?; (simp add: fresh_simps; fail)?)
qed

lemma link_names:
  assumes "fs_inv fs"
  shows "binds fs newparent newname (\<lambda>_. ino) (do_link fs ino newparent newname now)"
proof -
  have "names (ch_insert p newname ino fs) = bind_name newparent newname (Some ino) (names fs)"
    if "get_node fs newparent = Inr p" "is_dir fs p" for p
    using get_node_len [OF assms that(1)] dir_addr [OF assms that(1)] that(2)
    by (auto simp: names_insert bind_name_def)
  then show ?thesis
    using get_node_len [OF assms]
    by (auto simp: do_link_def Let_def binds_def try_res_def names_meta is_dir_def split: sum.splits InodeContent.splits if_splits)
qed

text \<open>Removal, followed by the eviction of the inode when nothing refers to it any more.\<close>

lemma evicted_names:
  assumes "names g = ns"
  shows "has_names (try_evict g ls i) ns"
  using assms try_evict_names by (simp add: has_names_def)

lemma removed_names:
  assumes "fs_inv fs" and "get_node fs d = Inr p"
  shows "names (ch_remove p n fs) = bind_name d n None (names fs)"
  using get_node_len [OF assms] dir_addr [OF assms] by (auto simp: names_remove bind_name_def)

lemma unlink_names:
  assumes "fs_inv fs" and "do_unlink fs parent name now = (Inr u, fs')"
  shows "has_names fs' (bind_name parent name None (names fs))"
proof -
  obtain p c i where p: "get_node fs parent = Inr p" and c: "get_node fs i = Inr c"
    and fs': "fs' = try_evict (upd_meta p (touch_dir now) (upd_meta c (\<lambda>m. (saturating_dec m)\<lparr>im_ctime := now\<rparr>)
      (ch_remove p name fs))) [p, c] i"
    using assms(2)
    by (auto simp: do_unlink_def try_res_def Let_def get_node_ch_remove split: sum.splits InodeContent.splits if_splits)
  show ?thesis
    unfolding fs' by (rule evicted_names)
      (use get_node_len [OF assms(1) p] get_node_len [OF assms(1) c] in \<open>simp add: names_meta removed_names [OF assms(1) p]\<close>)
qed

lemma rmdir_names:
  assumes "fs_inv fs" and "do_rmdir fs parent name now = (Inr u, fs')"
  shows "has_names fs' (bind_name parent name None (names fs))"
proof -
  obtain p c i where p: "get_node fs parent = Inr p" and c: "get_node fs i = Inr c"
    and fs': "fs' = try_evict (upd_meta p (\<lambda>m. touch_dir now (saturating_dec m))
      (upd_meta c (\<lambda>m. m\<lparr>im_nlink := 0, im_ctime := now\<rparr>) (ch_remove p name fs))) [p, c] i"
    using assms(2)
    by (auto simp: do_rmdir_def try_res_def Let_def split: sum.splits InodeContent.splits if_splits)
  show ?thesis
    unfolding fs' by (rule evicted_names)
      (use get_node_len [OF assms(1) p] get_node_len [OF assms(1) c] in \<open>simp add: names_meta removed_names [OF assms(1) p]\<close>)
qed

section \<open>Rename\<close>

lemma inserted_names:
  assumes "fs_inv fs" and "get_node g d = Inr p" and "is_dir g p" and "mf_nodes g = mf_nodes fs" and "p < length (mf_heap g)"
  shows "names (ch_insert p n i g) = bind_name d n (Some i) (names g)"
proof -
  have "get_node fs d = Inr p" using assms(2,4) by (simp add: get_node_def)
  then show ?thesis using dir_addr [OF assms(1)] assms by (auto simp: names_insert bind_name_def)
qed

lemma get_node_upd [simp]: "get_node (ch_insert p n i fs) d = get_node fs d" "get_node (ch_remove p n fs) d = get_node fs d"
  by (simp_all add: get_node_def)

text \<open>The directory entries of both forms of rename: the old name is set or removed first, then the
  new one is set.\<close>

lemma rename_entries:
  assumes "fs_inv fs" and "get_node fs od = Inr p" "is_dir fs p" and "get_node fs nd = Inr q" "is_dir fs q"
  shows "names (ch_insert (if od = nd then p else q) nn i (ch_insert p on j fs)) =
      bind_name nd nn (Some i) (bind_name od on (Some j) (names fs))"
    and "names (ch_insert (if od = nd then p else q) nn i (ch_remove p on fs)) =
      bind_name nd nn (Some i) (bind_name od on None (names fs))"
proof -
  note len = get_node_len [OF assms(1)]
  define r where "r = (if od = nd then p else q)"
  have r: "get_node fs nd = Inr r" "is_dir fs r" "r < length (mf_heap fs)"
    using assms len by (auto simp: r_def)
  show "names (ch_insert (if od = nd then p else q) nn i (ch_insert p on j fs)) =
      bind_name nd nn (Some i) (bind_name od on (Some j) (names fs))"
    unfolding r_def [symmetric] using len [OF assms(2)] assms(2,3) r
    by (subst inserted_names [OF assms(1), of _ nd]) (simp_all add: is_dir_upd inserted_names [OF assms(1,2)])
  show "names (ch_insert (if od = nd then p else q) nn i (ch_remove p on fs)) =
      bind_name nd nn (Some i) (bind_name od on None (names fs))"
    unfolding r_def [symmetric] using len [OF assms(2)] assms(2,3) r
    by (subst inserted_names [OF assms(1), of _ nd]) (simp_all add: is_dir_upd removed_names [OF assms(1,2)])
qed

lemma rename_exchange_names:
  assumes "fs_inv fs" and "get_node fs od = Inr p" "is_dir fs p" and "get_node fs nd = Inr q" "is_dir fs q"
    and "get_node fs i = Inr s"
    and "rename_exchange fs od on nd nn p q i s (names fs nd nn) now = (Inr u, fs')"
  shows "names fs' = bind_name nd nn (Some i) (bind_name od on (names fs nd nn) (names fs))"
proof -
  note len = get_node_len [OF assms(1)]
  obtain j t where j: "names fs nd nn = Some j" "get_node fs j = Inr t"
    using assms(7) by (auto simp: rename_exchange_def try_res_def ok_or_def split: option.splits sum.splits)
  define g where "g = ch_insert (if od = nd then p else q) nn i (ch_insert p on j fs)"
  have g: "length (mf_heap g) = length (mf_heap fs)" by (simp add: g_def)
  have "names fs' = names g"
    using assms(7) len [OF j(2)] len [OF assms(2)] len [OF assms(4)] len [OF assms(6)]
    unfolding rename_exchange_def j Let_def ok_or_def option.case try_res_def sum.case g_def [symmetric]
    by (auto simp: names_meta g)
  then show ?thesis using rename_entries(1) [OF assms(1-5)] by (simp add: g_def j)
qed

lemma rename_move_names:
  assumes "fs_inv fs" and "get_node fs od = Inr p" "is_dir fs p" and "get_node fs nd = Inr q" "is_dir fs q"
    and "s < length (mf_heap fs)"
  shows "names (rename_move fs od on nd nn p q i s now) = bind_name nd nn (Some i) (bind_name od on None (names fs))"
proof -
  define g where "g = ch_insert (if od = nd then p else q) nn i (ch_remove p on fs)"
  have g: "length (mf_heap g) = length (mf_heap fs)" by (simp add: g_def)
  have "names (rename_move fs od on nd nn p q i s now) = names g"
    using assms(6) get_node_len [OF assms(1,2)] get_node_len [OF assms(1,4)]
    unfolding rename_move_def Let_def g_def [symmetric]
    by (auto simp: names_meta g)
  then show ?thesis using rename_entries(2) [OF assms(1-5)] by (simp add: g_def)
qed

lemma rename_dest_names:
  assumes "fs_inv fs" and "q < length (mf_heap fs)" and "rename_dest fs q b dest now = (Inr ev, fs1)"
  shows "names fs1 = names fs" and "mf_nodes fs1 = mf_nodes fs" and "length (mf_heap fs1) = length (mf_heap fs)"
    and "is_dir fs1 a = is_dir fs a"
  using assms get_node_len [OF assms(1)]
  by (auto simp: rename_dest_def try_res_def Let_def names_meta is_dir_upd split: option.splits sum.splits if_splits)

lemma rename_replace_names:
  assumes "fs_inv fs" and "get_node fs od = Inr p" "is_dir fs p" and "get_node fs nd = Inr q" "is_dir fs q"
    and "get_node fs i = Inr s" and "rename_replace fs od on nd nn p q i s b dest now = (Inr u, fs')"
  shows "has_names fs' (bind_name nd nn (Some i) (bind_name od on None (names fs)))"
proof -
  note len = get_node_len [OF assms(1)]
  obtain ev fs1 where d: "rename_dest fs q b dest now = (Inr ev, fs1)"
    and fs': "fs' = (case ev of None \<Rightarrow> rename_move fs1 od on nd nn p q i s now
      | Some dest \<Rightarrow> try_evict (rename_move fs1 od on nd nn p q i s now) [p, q, s] dest)"
    using assms(7) by (auto simp: rename_replace_def Let_def split: prod.splits sum.splits)
  note dn = rename_dest_names [OF assms(1) len [OF assms(4)] d]
  have "fs_inv fs1" using rename_dest_steady [OF assms(1) len [OF assms(4)], of b dest now] d by (simp add: steady_def)
  then have "names (rename_move fs1 od on nd nn p q i s now) = bind_name nd nn (Some i) (bind_name od on None (names fs))"
    by (subst rename_move_names) (use assms dn len [OF assms(6)] in \<open>simp_all add: get_node_def\<close>)
  then show ?thesis unfolding fs' by (cases ev) (simp_all add: has_namesI evicted_names)
qed

lemma do_rename_names:
  assumes "fs_inv fs" and "do_rename fs od on nd nn flags now = (Inr u, fs')"
  shows "has_names fs' (names_after (Rename od on nd nn flags now) RUnit (names fs))"
proof (cases "od = nd \<and> on = nn")
  case True
  then have "fs' = fs" using assms(2) by (auto simp: do_rename_def try_res_def split: sum.splits if_splits)
  then show ?thesis using True by (simp add: has_namesI)
next
  case False
  obtain p q i s ch x ch' y where n: "get_node fs od = Inr p" "get_node fs nd = Inr q" "get_node fs i = Inr s"
      "mn_content (node_at fs p) = Directory ch x" "mn_content (node_at fs q) = Directory ch' y" "map_of ch on = Some i"
    and r: "if flags AND RENAME_EXCHANGE \<noteq> 0
      then rename_exchange fs od on nd nn p q i s (map_of ch' nn) now = (Inr u, fs')
      else rename_replace fs od on nd nn p q i s (mn_kind (node_at fs s) = MODE_DIR) (map_of ch' nn) now = (Inr u, fs')"
    using assms(2) False
    by (auto simp: do_rename_def try_res_def Let_def ok_or_def
        split: sum.splits if_splits InodeContent.splits option.splits)
  have d: "is_dir fs p" "is_dir fs q" using n by (auto simp: is_dir_def)
  have ns: "names fs od on = Some i" "map_of ch' nn = names fs nd nn"
    using n get_node_ok(3) [OF assms(1) n(1)] get_node_ok(3) [OF assms(1) n(2)] by (simp_all add: names_def node_names_def)
  show ?thesis
    using r False rename_exchange_names [OF assms(1) n(1) d(1) n(2) d(2) n(3), of on nn now u fs']
      rename_replace_names [OF assms(1) n(1) d(1) n(2) d(2) n(3)]
    by (auto simp: ns has_namesI split: if_splits)
qed

section \<open>The refinement\<close>

lemma reply_Inr: "reply f x = (Inr r, fs') \<longleftrightarrow> (\<exists>v. x = (Inr v, fs') \<and> r = f v)"
  by (cases x; cases "fst x") (auto simp: reply_def)

lemma reply_eq: "reply f x = (Inr r, fs') \<Longrightarrow> names (snd x) = ns \<Longrightarrow> has_names fs' ns"
  by (auto simp: reply_Inr has_namesI)

lemma snd_names: "names (snd x) = ns \<Longrightarrow> x = (y, g) \<Longrightarrow> has_names g ns"
  by (simp add: has_namesI)

lemma bindsD: "binds fs d n f x \<Longrightarrow> x = (Inr v, g) \<Longrightarrow> has_names g (bind_name d n (Some (f v)) (names fs))"
  by (simp add: binds_def has_namesI)

lemma getattr_names: "names (snd (do_getattr fs ino)) = names fs"
  by simp

lemma request_names:
  assumes s: "sound fs" and room: "roomy 1 fs" and r: "memfs_request fs req = (Inr r, fs')"
  shows "has_names fs' (names_after req r (names fs))"
proof -
  note i = soundD [OF s]
  note same = memfs_lookup_names [OF i] xattr_names [OF i] do_setattr_names [OF i] data_names [OF i] open_names [OF i]
    getattr_names handle_names readdir_names do_readdirplus_names [OF s]
  note create = create_names(1,2) [OF s room] mknod_names [OF s room] link_names [OF i]
  note changed = same [THEN snd_names] create [THEN bindsD] unlink_names [OF i] rmdir_names [OF i]
  show ?thesis
  proof (cases req)
    case Destroy
    then show ?thesis using r by (auto simp: has_names_def live_def memfs_destroy_def)
  next
    case (Forget ino count)
    then show ?thesis using r forget_one_names(1) [OF i] by (auto simp: memfs_forget_def has_namesI)
  next
    case (BatchForget reqs)
    then show ?thesis using r batch_forget_names [OF i] by auto
  next
    case (ReaddirForEach add b ino handle offset)
    then show ?thesis using r readdir_names(3) [of fs add b ino handle offset]
      by (auto simp: case_prod_beta intro!: reply_eq)
  next
    case (ReaddirplusForEach add b ino handle offset)
    then show ?thesis using r do_readdirplus_for_each_names [OF s, of add b ino handle offset]
      by (auto simp: case_prod_beta reply_Inr)
  next
    case (Create cx parent name mode flags umask now)
    then show ?thesis using r by (auto simp: reply_Inr dest: create_names(3) [OF s room, THEN bindsD])
  next
    case (Rename od on nd nn flags now)
    then show ?thesis using r do_rename_names [OF i, of od on nd nn flags now] by (auto simp only: memfs_request.simps reply_Inr)
  qed (use r in \<open>auto simp: reply_Inr answer_def intro: has_namesI changed\<close>)
qed

text \<open>C4. The in-memory filesystem implements a plain namespace: a map from directory and name to inode.
  A successful creation, hard link, removal or rename changes this map exactly at the names it was
  given (a rename binds the new name to the inode of the old one and removes or exchanges the old
  name), a destroy empties it, every other request leaves it as it is, and this holds in every directory that is still
  there after the request, whatever the request evicted.\<close>

theorem namespace_refined:
  assumes "sound fs" and "roomy 1 fs" and "memfs_request fs req = (Inr r, fs')" and "live fs' d"
  shows "names fs' d = names_after req r (names fs) d"
  using request_names [OF assms(1-3)] assms(4) by (simp add: has_names_def)

lemmas small_simps = small_fs_def small_cfg_def root_ctx_def build_def validate_memfs_name_def validate_name_def NAME_MAX_def
  try_res_def is_init_name_def INIT_FILENAME_def get_node_def ok_or_def ROOT_INODE_def node_at_def reply_def alloc_inode_def
  new_node_def insert_child_def register_node_def upd_meta_def upd_node_def ch_insert_def fetch_add64_def

theorem namespace_refined_witness:
  "\<exists>r fs'. memfs_request small_fs (Mkdir root_ctx 1 [97] 0x1ED 0 epoch :: unit Request) = (Inr r, fs') \<and>
     names fs' 1 [97] = Some 3 \<and> names fs' 1 [98] = None"
proof -
  let ?req = "Mkdir root_ctx 1 [97] 0x1ED 0 epoch :: unit Request"
  obtain e fs' where e: "memfs_request small_fs ?req = (Inr (REntry e), fs')" "en_inode e = 3" "live fs' 1"
    by (simp add: small_simps do_mkdir_def Let_def build_entry_def fresh_node_def live_def)
  have "names small_fs 1 n = None" for n
    by (simp add: names_def small_simps node_names_def)
  moreover have "sound small_fs" using build_sound(1) [OF small_fs_built] by (simp add: small_cfg_def)
  moreover have "roomy 1 small_fs" by (simp add: roomy_def small_simps)
  ultimately show ?thesis using namespace_refined [OF _ _ e(1,3)] e by (simp add: bind_name_def)
qed

text \<open>Looking up a name answers with an inode exactly when the namespace binds the name to it and
  the inode is still in the table.\<close>

theorem lookup_follows_namespace:
  assumes "sound fs" and "name_ok name" and "\<not> (parent = ROOT_INODE \<and> is_init_name name)"
  shows "(\<exists>e fs'. memfs_lookup fs parent name = (Inr e, fs') \<and> en_inode e = i) \<longleftrightarrow>
    names fs parent name = Some i \<and> live fs i"
proof -
  have "mn_inode (node_at (inc_lookup a fs) a) = j" if "map_of (mf_nodes fs) j = Some a" for a j
    using map_of_node [OF soundD [OF assms(1)] that] by (simp add: inc_lookup_def)
  then show ?thesis
    using assms(2,3)
    by (auto simp: memfs_lookup_def name_ok_def try_res_def Let_def get_node_def ok_or_def names_def node_names_def live_def
        build_entry_def split: sum.splits option.splits InodeContent.splits)
qed

theorem lookup_follows_namespace_witness: "\<not> (\<exists>e fs'. memfs_lookup small_fs 1 [97] = (Inr e, fs') \<and> en_inode e = 3)"
proof -
  have "sound small_fs" using build_sound(1) [OF small_fs_built] by (simp add: small_cfg_def)
  moreover have "name_ok [97]" "\<not> is_init_name [97]" by (simp_all add: name_ok_def small_simps)
  ultimately show ?thesis
    using lookup_follows_namespace [of small_fs "[97]" 1 3] by (simp add: names_def small_simps node_names_def)
qed

end
