(* ===== verification/Memfs_Data.thy ===== *)
theory Memfs_Data
  imports Memfs_Names
begin

text \<open>
  What the guest gets back from the in-memory filesystem: the bytes it wrote, complete directory
  listings, and file types that agree. The last section records behaviour of the code that its
  users may not expect.
\<close>

section \<open>Writing and reading\<close>

lemma length_splice: "length (splice start buf data) = max (length data) (start + length buf)"
  by (auto simp: splice_def Let_def max_def)

lemma splice_window: "take (length buf) (drop start (splice start buf data)) = buf"
  by (simp add: splice_def Let_def)

lemma splice_outside:
  assumes "k < length data" and "k < start \<or> start + length buf \<le> k"
  shows "splice start buf data ! k = data ! k"
  using assms by (auto simp: splice_def Let_def nth_append)

lemma splice_gap: "length data \<le> k \<Longrightarrow> k < start \<Longrightarrow> splice start buf data ! k = 0"
  by (auto simp: splice_def Let_def nth_append)

lemma read_slice:
  assumes "ino \<noteq> INIT_INODE" and "map_of (mf_file_handles fs) h = Some fh"
    and "mn_content (node_at fs (fh_node fh)) = RegularFile data" and "\<forall>part. io_pwrite io part = Inr (length part)"
    and "take sz (drop offset data) = part" and "part \<noteq> []"
  shows "fst (do_read fs io ino h sz offset) = io_write_from io (overwrite part (mf_staging_file fs)) (length part) 0"
proof -
  have off: "offset < length data" using assms(5,6) by auto
  have e: "take (min (offset + sz) (length data) - offset) (drop offset data) = part"
    using assms(5) off by (auto simp: min_def)
  have "\<not> min (offset + sz) (length data) \<le> offset" using assms(5,6) off by (cases "sz = 0") auto
  then show ?thesis
    using assms(1-4) off by (simp add: do_read_def try_res_def ok_or_def Let_def e del: length_take)
qed

text \<open>Where a write lands: at the end of the file for a handle opened for appending, else where the
  guest says.\<close>

definition write_start :: "FileHandle \<Rightarrow> bytes \<Rightarrow> u64 \<Rightarrow> nat" where
  "write_start fh data offset = (if fh_flags fh AND GUEST_O_APPEND \<noteq> 0 then length data else offset)"

lemma write_data_effect:
  assumes "write_data fs a app offset buf kill_priv now data = (Inr n, fs')" and "a < length (mf_heap fs)"
  shows "n = length buf" and "mn_content (node_at fs' a) = RegularFile (splice (if app then length data else offset) buf data)"
proof -
  define start where "start = (if app then length data else offset)"
  show "n = length buf" "mn_content (node_at fs' a) = RegularFile (splice (if app then length data else offset) buf data)"
    using assms unfolding write_data_def start_def [symmetric]
    by (auto simp: try_res_def Let_def upd_meta_def reserve_frame(1) split: sum.splits if_splits prod.splits)
qed

lemma write_effect:
  assumes inv: "fs_inv fs" and "map_of (mf_file_handles fs) h = Some fh"
    and c: "mn_content (node_at fs (fh_node fh)) = RegularFile data"
    and "io_read_to io sz = (Inr (length buf), buf)" and "buf \<noteq> []"
    and "\<forall>file n. n \<le> length file \<longrightarrow> io_pread io file n = Inr (take n file)"
    and w: "do_write fs io ino h sz offset kill_priv now = (Inr n, fs')"
  shows "n = length buf" and "mn_content (node_at fs' (fh_node fh)) = RegularFile (splice (write_start fh data offset) buf data)"
    and "mf_file_handles fs' = mf_file_handles fs" and "ino \<noteq> INIT_INODE"
proof -
  let ?a = "fh_node fh"
  note a = handle_node(1) [OF inv assms(2)]
  let ?g = "fs\<lparr>mf_staging_file := overwrite buf (mf_staging_file fs)\<rparr>"
  have "io_pread io (overwrite buf (mf_staging_file fs)) (length buf) = Inr buf"
    using assms(6) by (simp add: overwrite_def)
  then have wd: "write_data ?g ?a (fh_flags fh AND GUEST_O_APPEND \<noteq> 0) offset buf kill_priv now data = (Inr n, fs')"
    and "ino \<noteq> INIT_INODE"
    using w assms(2,3,4,5)
    by (auto simp: do_write_def try_res_def ok_or_def Let_def split: if_splits option.splits)
  have st: "mf_file_handles fs' = mf_file_handles fs"
    using do_write_steady [OF inv, of io ino h sz offset kill_priv now] w by (simp add: steady_def)
  show "n = length buf" "mn_content (node_at fs' ?a) = RegularFile (splice (write_start fh data offset) buf data)"
    using write_data_effect [OF wd] a by (simp_all add: write_start_def)
  show "mf_file_handles fs' = mf_file_handles fs" "ino \<noteq> INIT_INODE" by fact+
qed

text \<open>C11. What was written is read back. Let a write through an open handle succeed, the guest's bytes
  having reached the staging file and the staging file reading back what it holds. The write lands
  at the offset the guest gave, or at the old end of the file when the handle was opened for
  appending. It reports all bytes; reading as many bytes from the place where they landed, through
  the same handle, sends exactly the bytes written; bytes of the old contents outside the range keep
  their values, so an append changes none of them, and a gap between the old end and the offset
  reads as zeros.\<close>

theorem write_then_read:
  assumes "sound fs" and "map_of (mf_file_handles fs) h = Some fh"
    and "mn_content (node_at fs (fh_node fh)) = RegularFile data"
    and "io_read_to io sz = (Inr (length buf), buf)" and "buf \<noteq> []"
    and "\<forall>file n. n \<le> length file \<longrightarrow> io_pread io file n = Inr (take n file)"
    and "\<forall>part. io_pwrite io part = Inr (length part)"
    and "do_write fs io ino h sz offset kill_priv now = (Inr n, fs')"
    and "start = (if fh_flags fh AND GUEST_O_APPEND \<noteq> 0 then length data else offset)"
  shows "n = length buf \<and>
    fst (do_read fs' io ino h n start) = io_write_from io (overwrite buf (mf_staging_file fs')) n 0 \<and>
    (\<exists>data'. mn_content (node_at fs' (fh_node fh)) = RegularFile data' \<and>
       length data' = max (length data) (start + n) \<and>
       (\<forall>k < length data. k < start \<or> start + n \<le> k \<longrightarrow> data' ! k = data ! k) \<and>
       (\<forall>k < start. length data \<le> k \<longrightarrow> data' ! k = 0))"
proof -
  note e = write_effect [OF soundD [OF assms(1)] assms(2-6,8), folded assms(9) [folded write_start_def]]
  have "fst (do_read fs' io ino h (length buf) start) =
      io_write_from io (overwrite buf (mf_staging_file fs')) (length buf) 0"
    by (rule read_slice [OF e(4) _ e(2) assms(7) splice_window assms(5)]) (use e(3) assms(2) in simp)
  then show ?thesis
    using e(1,2) by (auto simp: length_splice splice_outside splice_gap)
qed

text \<open>A transfer interface that behaves as documented, with the bytes \<open>buf\<close> coming from the guest; what
  it reports to the guest is the number of bytes sent.\<close>

definition honest_io :: "bytes \<Rightarrow> io_api" where
  "honest_io buf = \<lparr>io_pwrite = (\<lambda>part. Inr (length part)), io_write_from = (\<lambda>file n off. Inr (length (take n (drop off file)))),
     io_read_to = (\<lambda>sz. (Inr (length (take sz buf)), take sz buf)), io_pread = (\<lambda>file n. Inr (take n file))\<rparr>"

lemma honest_io_simps [simp]:
  "io_pwrite (honest_io buf) part = Inr (length part)"
  "io_write_from (honest_io buf) file n off = Inr (length (take n (drop off file)))"
  "io_read_to (honest_io buf) sz = (Inr (length (take sz buf)), take sz buf)"
  "io_pread (honest_io buf) file n = Inr (take n file)"
  by (simp_all add: honest_io_def)

definition one_file :: MemFs where
  "one_file = snd (memfs_request small_fs (Create root_ctx 1 [97] 0x1A4 2 0 epoch :: unit Request))"

lemma one_file_sound: "sound one_file"
proof -
  have "sound small_fs" using build_sound(1) [OF small_fs_built] by (simp add: small_cfg_def)
  moreover have "roomy 1 small_fs" by (simp add: roomy_def small_simps)
  ultimately show ?thesis
    unfolding one_file_def using request_advances [of small_fs "Create root_ctx 1 [97] 0x1A4 2 0 epoch :: unit Request"]
    by (simp add: advance_def)
qed

definition append_file :: MemFs where
  "append_file = snd (memfs_request small_fs (Create root_ctx 1 [97] 0x1A4 0x402 0 epoch :: unit Request))"

lemma append_file_sound: "sound append_file"
proof -
  have "sound small_fs" using build_sound(1) [OF small_fs_built] by (simp add: small_cfg_def)
  moreover have "roomy 1 small_fs" by (simp add: roomy_def small_simps)
  ultimately show ?thesis
    unfolding append_file_def using request_advances [of small_fs "Create root_ctx 1 [97] 0x1A4 0x402 0 epoch :: unit Request"]
    by (simp add: advance_def)
qed

theorem write_then_read_witness:
  "(\<exists>fs'. do_write one_file (honest_io [1, 2, 3]) 3 1 3 2 False epoch = (Inr 3, fs') \<and>
     fst (do_read fs' (honest_io [1, 2, 3]) 3 1 3 2) = Inr 3) \<and>
   (\<exists>fs'. do_write append_file (honest_io [1, 2, 3]) 3 1 3 2 False epoch = (Inr 3, fs') \<and>
     fst (do_read fs' (honest_io [1, 2, 3]) 3 1 3 0) = Inr 3)"
proof -
  note run = one_file_def append_file_def small_simps do_create_def Let_def add_handle_def fresh_node_def
    normalize_handle_flags_def
  have h: "map_of (mf_file_handles one_file) 1 = Some \<lparr>fh_node = 1, fh_flags = 2\<rparr>" "mn_content (node_at one_file 1) = RegularFile []"
    "map_of (mf_file_handles append_file) 1 = Some \<lparr>fh_node = 1, fh_flags = 0x402\<rparr>" "mn_content (node_at append_file 1) = RegularFile []"
    by (simp_all add: run)
  note step = do_write_def INIT_INODE_def checked_add64_def overwrite_def GUEST_O_APPEND_def write_data_def reserve_bytes_def
  obtain fs' where w: "do_write one_file (honest_io [1, 2, 3]) 3 1 3 2 False epoch = (Inr 3, fs')"
    using h(1,2) by (simp add: step run)
  obtain fs2 where v: "do_write append_file (honest_io [1, 2, 3]) 3 1 3 2 False epoch = (Inr 3, fs2)"
    using h(3,4) by (simp add: step run)
  have "fst (do_read fs' (honest_io [1, 2, 3]) 3 1 3 2) = Inr 3"
    using write_then_read [OF one_file_sound h(1), of "[]" "honest_io [1, 2, 3]" 3 "[1, 2, 3]", OF _ _ _ _ _ w refl] h(2)
    by (simp add: GUEST_O_APPEND_def overwrite_def)
  moreover have "fst (do_read fs2 (honest_io [1, 2, 3]) 3 1 3 0) = Inr 3"
    using write_then_read [OF append_file_sound h(3), of "[]" "honest_io [1, 2, 3]" 3 "[1, 2, 3]", OF _ _ _ _ _ v refl] h(4)
    by (simp add: GUEST_O_APPEND_def overwrite_def)
  ultimately show ?thesis using w v by blast
qed

section \<open>Directory listings\<close>

text \<open>The packed form refers to a common name buffer; resolving it gives back the entries.\<close>

definition resolve :: "bytes \<Rightarrow> u64 \<times> u64 \<times> u32 \<times> nat \<times> nat \<Rightarrow> DirEntry" where
  "resolve buf = (\<lambda>(ino, off, typ, s, len). \<lparr>dd_ino = ino, dd_offset = off, dd_type = typ, dd_name = take len (drop s buf)\<rparr>)"

lemma pack_names_resolve:
  "pack_names es nb raw = (nb', raw') \<Longrightarrow>
    (\<exists>suf. nb' = nb @ suf) \<and> map (resolve nb') raw' = map (resolve nb') raw @ map entry_of es"
proof (induction es nb raw rule: pack_names.induct)
  case (2 e es nb raw)
  then have ih: "\<exists>suf. nb' = (nb @ de_name e) @ suf" "map (resolve nb') raw' = map (resolve nb')
      (raw @ [(de_inode e, de_offset e, de_file_type e, length nb, length (de_name e))]) @ map entry_of es" by simp_all
  then show ?case by (auto simp: resolve_def entry_of_def)
qed simp

lemma serve_entries_ref: "serve_entries entries offset = map entry_of (snapshot_entries_after entries offset)"
proof -
  obtain nb raw where p: "pack_names (drop (position_after entries offset) entries) [] [] = (nb, raw)"
    by (cases "pack_names (drop (position_after entries offset) entries) [] []")
  from pack_names_resolve [OF p] show ?thesis
    by (auto simp: serve_entries_def snapshot_entries_after_def Let_def p resolve_def)
qed

text \<open>Offsets count the entries from one, so an offset is the number of entries already served.\<close>

lemma assign_offsets_nth:
  "length (assign_offsets es) = length es"
  "k < length es \<Longrightarrow> de_offset (assign_offsets es ! k) = k + 1"
  "map de_name (assign_offsets es) = map de_name es"
  "map de_inode (assign_offsets es) = map de_inode es"
  by (simp_all add: assign_offsets_def nth_enumerate_eq) (auto intro!: nth_equalityI simp: nth_enumerate_eq)

lemma position_after_offsets:
  assumes "\<And>k. k < length es \<Longrightarrow> de_offset (es ! k) = b + k + 1"
  shows "position_after es (b + n) = min n (length es)"
  using assms
proof (induction es arbitrary: b n)
  case (Cons e es)
  have "de_offset (es ! k) = Suc b + k + 1" if "k < length es" for k
    using Cons.prems [of "Suc k"] that by simp
  then have "position_after es (Suc b + m) = min m (length es)" for m by (rule Cons.IH)
  from this [of "n - 1"] Cons.prems [of 0] show ?case by (cases n) simp_all
qed simp

lemma serve_assigned: "snapshot_entries_after (assign_offsets es) n = drop n (assign_offsets es)"
  using position_after_offsets [of "assign_offsets es" 0 n] assign_offsets_nth(1,2)
  by (simp add: snapshot_entries_after_def min_def)

text \<open>The callback that accepts and remembers every entry.\<close>

definition collect :: "DirEntry list \<Rightarrow> DirEntry \<Rightarrow> (errno + nat) \<times> DirEntry list" where
  "collect b e = (Inr 1, b @ [e])"

lemma stream_collect: "stream_entries collect b es = (Inr (), b @ map entry_of es)"
  by (induction es arbitrary: b) (simp_all add: collect_def)

text \<open>C39. A directory is listed completely and without repetition however the guest pages through
  it: the snapshot holds the two dot entries, the init binary in the root, and one entry per child
  in the order of the names; the entry at position \<open>k\<close> carries the offset \<open>k + 1\<close>; a read from
  offset \<open>n\<close> returns all entries but the first \<open>n\<close>; and the packed listing and the streamed one
  agree. No name occurs twice, unless the root has a child with the name of the init binary.\<close>

theorem listing_complete:
  assumes "sound fs" and "mn_content (node_at fs a) = Directory children parent" and "a < length (mf_heap fs)"
  shows "\<exists>s. build_snapshot fs ino a = Inr s \<and>
    map de_name (ds_entries s) =
      [[46], [46, 46]] @ (if ino = ROOT_INODE then [INIT_FILENAME] else []) @ map fst children \<and>
    map de_inode (ds_entries s) = [ino, parent] @ (if ino = ROOT_INODE then [INIT_INODE] else []) @ map snd children \<and>
    (\<forall>k < length (ds_entries s). de_offset (ds_entries s ! k) = k + 1) \<and>
    (\<forall>n. serve_entries (ds_entries s) n = map entry_of (drop n (ds_entries s))) \<and>
    (\<forall>n. serve_entries_for_each collect [] (ds_entries s) n = (Inr (), serve_entries (ds_entries s) n)) \<and>
    ((ino = ROOT_INODE \<longrightarrow> INIT_FILENAME \<notin> fst ` set children) \<longrightarrow> distinct (map de_name (ds_entries s)))"
proof -
  define es where "es = [raw_entry [46] ino DIRENT_DIR, raw_entry [46, 46] parent DIRENT_DIR]
    @ (if ino = ROOT_INODE then [raw_entry INIT_FILENAME INIT_INODE DIRENT_REG] else [])
    @ map (\<lambda>(name, child_ino). raw_entry name child_ino (child_type fs child_ino)) children"
  have b: "build_snapshot fs ino a = Inr \<lparr>ds_entries = assign_offsets es\<rparr>"
    using assms(2) by (simp add: build_snapshot_def Let_def es_def)
  have n: "map de_name (assign_offsets es) = [[46], [46, 46]] @ (if ino = ROOT_INODE then [INIT_FILENAME] else []) @ map fst children"
    "map de_inode (assign_offsets es) = [ino, parent] @ (if ino = ROOT_INODE then [INIT_INODE] else []) @ map snd children"
    by (auto simp: assign_offsets_nth raw_entry_def es_def)
  have ch: "bt_wf children" "\<forall>n \<in> fst ` set children. name_ok n"
    using node_okD [OF soundD [OF assms(1)] assms(3)] assms(2)
    by (auto simp: node_ok_def) (metis weak_map_of_SomeI)
  moreover have "\<not> name_ok [46]" "\<not> name_ok [46, 46]"
    by (simp_all add: name_ok_def validate_memfs_name_def validate_name_def)
  ultimately have "[46] \<notin> fst ` set children" "[46, 46] \<notin> fst ` set children" by blast+
  then have d: "(ino = ROOT_INODE \<longrightarrow> INIT_FILENAME \<notin> fst ` set children) \<longrightarrow> distinct (map de_name (assign_offsets es))"
    using bt_wf_distinct [OF ch(1)] unfolding n(1) by (auto simp: INIT_FILENAME_def)
  have k: "\<forall>k < length (assign_offsets es). de_offset (assign_offsets es ! k) = k + 1"
    by (simp add: assign_offsets_nth(1,2))
  have s: "\<forall>n. serve_entries (assign_offsets es) n = map entry_of (drop n (assign_offsets es))"
    "\<forall>n. serve_entries_for_each collect [] (assign_offsets es) n = (Inr (), serve_entries (assign_offsets es) n)"
    by (simp_all add: serve_entries_ref serve_assigned serve_entries_for_each_def stream_collect)
  show ?thesis
    by (intro exI [of _ "\<lparr>ds_entries = assign_offsets es\<rparr>"] conjI, unfold DirSnapshot.simps) (fact b n d k s)+
qed

theorem listing_complete_witness:
  "\<exists>s. build_snapshot one_file 1 0 = Inr s \<and> map de_name (ds_entries s) = [[46], [46, 46], INIT_FILENAME, [97]] \<and>
     serve_entries (ds_entries s) 3 = map entry_of (drop 3 (ds_entries s))"
proof -
  have d: "mn_content (node_at one_file 0) = Directory [([97], 3)] 1" "0 < length (mf_heap one_file)"
    by (simp_all add: one_file_def small_simps do_create_def Let_def add_handle_def)
  from listing_complete [OF one_file_sound d, of 1] show ?thesis by (auto simp: ROOT_INODE_def)
qed

section \<open>File types\<close>

lemma getattr_types:
  assumes "sound fs" and "ino \<noteq> INIT_INODE" and "do_getattr fs ino = (Inr (st, timeout), fs')"
  shows "\<exists>a. map_of (mf_nodes fs) ino = Some a \<and> st_ino st = ino \<and>
    child_type fs ino = dirent_type_from_mode (st_mode st AND MODE_TYPE_MASK) \<and>
    (case mn_content (node_at fs a) of
       RegularFile data \<Rightarrow> st_mode st AND MODE_TYPE_MASK = MODE_REG \<and> st_size st = as_i64 (length data)
     | Directory _ _ \<Rightarrow> st_mode st AND MODE_TYPE_MASK = MODE_DIR
     | Symlink _ \<Rightarrow> st_mode st AND MODE_TYPE_MASK = MODE_LNK
     | Special \<Rightarrow> st_mode st AND MODE_TYPE_MASK \<in> {MODE_BLK, MODE_CHR, MODE_FIFO, MODE_SOCK})"
proof -
  obtain a where g: "get_node fs ino = Inr a" and st: "st = build_stat (node_at fs a)"
    using assms(2,3) by (auto simp: do_getattr_def try_res_def split: sum.splits)
  note ok = get_node_ok [OF soundD [OF assms(1)] g]
  have m: "im_mode (mn_meta (node_at fs a)) AND MODE_TYPE_MASK = mn_kind (node_at fs a)" using ok(5) by (simp add: node_ok_def)
  have "mn_kind (node_at fs a) AND MODE_TYPE_MASK = mn_kind (node_at fs a)"
    using m by (metis and.assoc and.idem)
  then show ?thesis
    using ok m
    by (auto simp: st build_stat_def build_stat_from_meta_def child_type_def mode_to_dtype_def node_ok_def kind_ok_def
        split: InodeContent.splits)
qed

text \<open>C40. All requests that report a file type agree, after any sequence of requests to a filesystem
  that was just built, whatever modes the guest has set on the way: the type bits of the mode that
  getattr returns are those of the variant of the node's content, and the type a directory listing
  shows for the inode is the same; for a regular file the size reported is the length of its
  data.\<close>

theorem reported_types_agree:
  assumes "build cfg now init_file staging = Inr fs0"
    and "\<forall>cap. cfg_capacity cfg = Some cap \<longrightarrow> cap < two64" and "length reqs + 3 < two64"
    and "fs = run_requests reqs fs0" and "ino \<noteq> INIT_INODE" and "do_getattr fs ino = (Inr (st, timeout), fs')"
  shows "\<exists>a. map_of (mf_nodes fs) ino = Some a \<and> st_ino st = ino \<and>
    child_type fs ino = dirent_type_from_mode (st_mode st AND MODE_TYPE_MASK) \<and>
    (case mn_content (node_at fs a) of
       RegularFile data \<Rightarrow> st_mode st AND MODE_TYPE_MASK = MODE_REG \<and> st_size st = as_i64 (length data)
     | Directory _ _ \<Rightarrow> st_mode st AND MODE_TYPE_MASK = MODE_DIR
     | Symlink _ \<Rightarrow> st_mode st AND MODE_TYPE_MASK = MODE_LNK
     | Special \<Rightarrow> st_mode st AND MODE_TYPE_MASK \<in> {MODE_BLK, MODE_CHR, MODE_FIFO, MODE_SOCK})"
proof -
  note b = build_sound [OF assms(1,2)]
  have "roomy (length reqs) fs0" using assms(3) b by (simp add: roomy_def)
  note r = run_sound [OF b(1) this, folded assms(4)]
  have "\<not> torn_down fs"
    using assms(5,6) torn_get_node [of fs ino] by (auto simp: do_getattr_def try_res_def)
  then have "sound fs" using r by (auto split: if_splits)
  then show ?thesis using assms(5,6) by (rule getattr_types)
qed

definition mode_attr :: "u32 \<Rightarrow> stat64" where
  "mode_attr m = (build_stat (node_at small_fs 0))\<lparr>st_mode := m\<rparr>"

theorem reported_types_agree_witness:
  "let fs = run_requests [Create root_ctx 1 [97] 0x1A4 2 0 epoch, Setattr 3 (mode_attr 0x41FF) {SA_MODE} epoch epoch epoch
       :: unit Request] small_fs
   in \<exists>st fs'. do_getattr fs 3 = (Inr (st, 5), fs') \<and> st_mode st = 0x81FF \<and>
        child_type fs 3 = dirent_type_from_mode (st_mode st AND MODE_TYPE_MASK)"
proof -
  let ?reqs = "[Create root_ctx 1 [97] 0x1A4 2 0 epoch, Setattr 3 (mode_attr 0x41FF) {SA_MODE} epoch epoch epoch :: unit Request]"
  obtain st fs' where st: "do_getattr (run_requests ?reqs small_fs) 3 = (Inr (st, 5), fs')" "st_mode st = 0x81FF"
    by (simp add: run_requests_def small_simps do_create_def Let_def add_handle_def do_getattr_def INIT_INODE_def
        do_setattr_def mode_attr_def fresh_node_def setattr_meta_def build_stat_def build_stat_from_meta_def new_meta_def
        mode_consts)
  with reported_types_agree [OF small_fs_built _ _ refl _ st(1)] show ?thesis
    by (auto simp: INIT_INODE_def small_cfg_def Let_def)
qed

section \<open>Behaviour worth knowing\<close>

text \<open>Without a configured capacity nothing is reserved, but bytes are released all the same: the
  counter wraps around below zero and the filesystem reports no free space.\<close>

lemma unlimited_release_wraps:
  assumes "cfg_capacity (mf_cfg fs) = None" and "mf_used_bytes fs = 0" and "0 < n" and "n \<le> 2 ^ 63"
  shows "reserve_bytes fs n = (Inr (), fs)" and "mf_used_bytes (release_bytes fs n) = two64 - n"
    and "f_bfree (do_statfs (release_bytes fs n)) = 0"
proof -
  show "reserve_bytes fs n = (Inr (), fs)" using assms by (simp add: reserve_bytes_def)
  show u: "mf_used_bytes (release_bytes fs n) = two64 - n"
    using assms by (simp add: release_bytes_eq fetch_sub64_def)
  have "(2 ^ 50 :: nat) \<le> two64 - n" using assms(4) by simp
  then show "f_bfree (do_statfs (release_bytes fs n)) = 0"
    using assms(1) by (simp add: do_statfs_def Let_def u)
qed

text \<open>An unlink never gives bytes back, not even when it removes the last reference to the file: the
  local variable of the request still owns the node while the inode is evicted.\<close>

lemma evict_held:
  assumes "map_of (mf_nodes fs) i = Some a" and "a \<in> set ls"
  shows "mf_used_bytes (evict_inode fs ls i) = mf_used_bytes fs"
proof -
  have "count_list ls a \<noteq> 0" using assms(2) by (simp add: count_list_0_iff)
  then have "strong_count g (a # ls) a \<noteq> 1" for g by (simp add: strong_count_def)
  then show ?thesis using assms(1) by (simp add: evict_inode_def Let_def dec_inode_count_def)
qed

lemma unlink_never_releases:
  assumes "do_unlink fs parent name now = (Inr u, fs')"
  shows "mf_used_bytes fs' = mf_used_bytes fs"
proof -
  obtain p c i where c: "map_of (mf_nodes fs) i = Some c"
    and fs': "fs' = try_evict (upd_meta p (touch_dir now) (upd_meta c (\<lambda>m. (saturating_dec m)\<lparr>im_ctime := now\<rparr>)
      (ch_remove p name fs))) [p, c] i"
    using assms
    by (auto simp: do_unlink_def try_res_def Let_def get_node_ch_remove split: sum.splits InodeContent.splits if_splits)
      (auto simp: get_node_def ok_or_def split: option.splits)
  show ?thesis using c by (simp add: fs' try_evict_def Let_def evict_held) (simp add: frame_defs)
qed

text \<open>The exchanging rename keeps all link counts, although the number of subdirectories of the two
  parents changes when a directory is exchanged with a file.\<close>

lemma exchange_keeps_link_counts:
  assumes "fs_inv fs" and "get_node fs od = Inr p" and "get_node fs nd = Inr q" and "get_node fs i = Inr s"
    and "rename_exchange fs od on nd nn p q i s dest now = (Inr u, fs')"
  shows "im_nlink (mn_meta (node_at fs' a)) = im_nlink (mn_meta (node_at fs a))"
proof -
  have keep:
    "im_nlink (mn_meta (node_at (ch_insert b m k g) a)) = im_nlink (mn_meta (node_at g a))"
    "im_nlink (mn_meta (node_at (set_parent b d g) a)) = im_nlink (mn_meta (node_at g a))"
    "im_nlink (mn_meta (node_at (upd_meta b (set_ctime now) g) a)) = im_nlink (mn_meta (node_at g a))"
    "im_nlink (mn_meta (node_at (upd_meta b (touch_dir now) g) a)) = im_nlink (mn_meta (node_at g a))"
    if "b < length (mf_heap g)" for b m k d g
    using that by (auto simp: frame_defs set_ctime_def touch_dir_def split: InodeContent.split)
  note len = get_node_len [OF assms(1)]
  obtain j t where "dest = Some j" and t: "get_node fs j = Inr t"
    using assms(5) by (auto simp: rename_exchange_def try_res_def ok_or_def split: option.splits sum.splits)
  then show ?thesis
    using assms(5) len [OF assms(2)] len [OF assms(3)] len [OF assms(4)] len [OF t]
    by (auto simp: rename_exchange_def try_res_def ok_or_def Let_def keep)
qed

text \<open>A hard link may take the name of the init binary in the root; the entry is then shadowed by the
  binary and cannot be removed.\<close>

lemma link_shadowed_by_init:
  "\<exists>e fs'. do_link one_file 3 1 INIT_FILENAME epoch = (Inr e, fs') \<and> names fs' 1 INIT_FILENAME = Some 3 \<and>
     do_unlink fs' 1 INIT_FILENAME epoch = (Inl EACCES, fs') \<and>
     (\<exists>e'. memfs_lookup fs' 1 INIT_FILENAME = (Inr e', fs') \<and> en_inode e' = INIT_INODE)"
  by (simp add: one_file_def small_simps do_create_def Let_def add_handle_def do_link_def INIT_INODE_def fresh_node_def
      mode_consts inc_lookup_def do_unlink_def memfs_lookup_def init_entry_def names_def node_names_def touch_dir_def)

text \<open>A listing with attributes replaces an entry called like the init binary in every directory, not
  only in the root, and takes no lookup on the inode the directory binds.\<close>

lemma readdirplus_replaces_name:
  "dd_name de = INIT_FILENAME \<Longrightarrow> readdirplus_loop fs [de] [] = ([(de, init_dir_entry fs)], fs)"
  by (simp add: INIT_FILENAME_def)

end
