(* ===== verification/Image_Tree.thy ===== *)
theory Image_Tree
  imports Std_Maps "HOL-Library.List_Lexorder" "HOL-Library.Sublist"
begin

text \<open>
  The in-memory file tree of an image layer (\<^verbatim>\<open>crates/image/lib/tree/model.rs\<close>): insertion, lookup and
  removal by path, link counts, and the merging of layers with whiteouts and opaque directories.
  Names are the bytes of the Unix build, where every name has a host encoding. A spooled file's data is the region of the spool it refers to.
\<close>

section \<open>Nodes\<close>

record InodeMetadata =
  md_uid :: u32
  md_gid :: u32
  md_mode :: u16
  md_mtime :: nat
  md_mtime_nsec :: u32

record Xattr =
  xa_name :: "u8 list"
  xa_value :: "u8 list"

datatype FileData =
    Memory "u8 list"
  | SharedMemory "u8 list"
  | Spool nat nat nat

record RegularFileNode =
  rf_id :: nat
  rf_metadata :: InodeMetadata
  rf_xattrs :: "Xattr list"
  rf_data :: FileData
  rf_nlink :: u32

record SymlinkNode =
  sl_metadata :: InodeMetadata
  sl_target :: "u8 list"

record DeviceNode =
  dv_metadata :: InodeMetadata
  dv_major :: u32
  dv_minor :: u32

datatype 'n dir = Dir (dir_metadata: InodeMetadata) (dir_xattrs: "Xattr list") (dir_entries: "(u8 list \<times> 'n) list")

datatype TreeNode =
    RegularFile RegularFileNode
  | Directory "TreeNode dir"
  | Symlink SymlinkNode
  | CharDevice DeviceNode
  | BlockDevice DeviceNode
  | Fifo InodeMetadata
  | Socket InodeMetadata

type_synonym DirectoryNode = "TreeNode dir"
type_synonym entries = "(u8 list \<times> TreeNode) list"

text \<open>Recursion over a tree goes from a directory to its entries.\<close>

lemma size_dir_entries [termination_simp]:
  "size_list (\<lambda>p. size (snd p)) (dir_entries d) < Suc (Suc (size_dir size d + n))"
proof (cases d)
  case (Dir m x es)
  have "size_list (\<lambda>p. size (snd p)) es \<le> size_list (size_prod (\<lambda>_. 0) size) es"
    by (induction es) auto
  then show ?thesis using Dir by simp
qed

datatype FileTreeError =
    PathEmpty
  | PathTraversal "u8 list"
  | InvalidPathEncoding "u8 list"
  | NotADirectory "u8 list"
  | EntryExists "u8 list"

definition DEFAULT_DIR_MODE :: u16 where "DEFAULT_DIR_MODE = 0x1ED"
definition WHITEOUT_MAJOR :: u32 where "WHITEOUT_MAJOR = 0"
definition WHITEOUT_MINOR :: u32 where "WHITEOUT_MINOR = 0"

text \<open>\<^verbatim>\<open>trusted.overlay.opaque\<close> and \<^verbatim>\<open>y\<close>.\<close>

definition OPAQUE_XATTR_NAME :: "u8 list" where
  "OPAQUE_XATTR_NAME = [116, 114, 117, 115, 116, 101, 100, 46, 111, 118, 101, 114, 108, 97, 121, 46, 111, 112, 97, 113, 117, 101]"

definition OPAQUE_XATTR_VALUE :: "u8 list" where "OPAQUE_XATTR_VALUE = [121]"

definition default_metadata :: InodeMetadata where
  "default_metadata = \<lparr>md_uid = 0, md_gid = 0, md_mode = DEFAULT_DIR_MODE, md_mtime = 0, md_mtime_nsec = 0\<rparr>"

definition new_directory :: "InodeMetadata \<Rightarrow> DirectoryNode" where
  "new_directory metadata = Dir metadata [] []"

definition new_tree :: DirectoryNode where
  "new_tree = new_directory default_metadata"

fun file_data_len :: "FileData \<Rightarrow> nat" where
  "file_data_len (Memory v) = length v"
| "file_data_len (SharedMemory v) = length v"
| "file_data_len (Spool s offset len) = len"

text \<open>\<^verbatim>\<open>clone_ref\<close>: the data the node keeps, and the reference for the alias.\<close>

fun clone_ref :: "FileData \<Rightarrow> FileData \<times> FileData" where
  "clone_ref (Memory data) = (SharedMemory data, SharedMemory data)"
| "clone_ref (SharedMemory data) = (SharedMemory data, SharedMemory data)"
| "clone_ref (Spool s offset len) = (Spool s offset len, Spool s offset len)"

section \<open>Paths\<close>

fun split_slash :: "u8 list \<Rightarrow> u8 list \<Rightarrow> u8 list list" where
  "split_slash acc [] = [acc]"
| "split_slash acc (b # bs) = (if b = 47 then acc # split_slash [] bs else split_slash (acc @ [b]) bs)"

definition split_path :: "u8 list \<Rightarrow> FileTreeError + u8 list list" where
  "split_path path =
     (let components = filter (\<lambda>c. c \<noteq> []) (split_slash [] path) in
      if components = [] then Inl PathEmpty
      else if [46, 46] \<in> set components then Inl (PathTraversal path)
      else Inr components)"

definition os_string_from_bytes :: "u8 list \<Rightarrow> unit + u8 list" where
  "os_string_from_bytes bytes = Inr bytes"

definition tree_key :: "u8 list \<Rightarrow> FileTreeError + u8 list" where
  "tree_key component =
     (case os_string_from_bytes component of Inl _ \<Rightarrow> Inl (InvalidPathEncoding component) | Inr key \<Rightarrow> Inr key)"

section \<open>Insertion, lookup and removal\<close>

text \<open>The last step of an insertion.\<close>

definition insert_final :: "entries \<Rightarrow> u8 list \<Rightarrow> TreeNode \<Rightarrow> (FileTreeError + unit) \<times> entries" where
  "insert_final es name node =
     (case tree_key name of
        Inl e \<Rightarrow> (Inl e, es)
      | Inr key \<Rightarrow>
          (case map_of es key of
             None \<Rightarrow> (Inr (), bt_insert key node es)
           | Some (Directory existing) \<Rightarrow>
               (case node of
                  Directory new_dir \<Rightarrow>
                    (Inr (), bt_insert key
                       (Directory (Dir (dir_metadata new_dir) (dir_xattrs new_dir) (dir_entries existing))) es)
                | _ \<Rightarrow> (Inl (EntryExists name), es))
           | Some _ \<Rightarrow> (Inr (), bt_insert key node es)))"

text \<open>The walk to the parent directory, creating what is missing; the result is the changed tree, also
  when an error ends the walk.\<close>

fun insert_at :: "entries \<Rightarrow> u8 list list \<Rightarrow> TreeNode \<Rightarrow> (FileTreeError + unit) \<times> entries" where
  "insert_at es [] node = (Inl PathEmpty, es)"
| "insert_at es [name] node = insert_final es name node"
| "insert_at es (component # rest) node =
     (case tree_key component of
        Inl e \<Rightarrow> (Inl e, es)
      | Inr key \<Rightarrow>
          (case map_of es key of
             None \<Rightarrow>
               let dir = new_directory default_metadata; (r, sub) = insert_at (dir_entries dir) rest node
               in (r, bt_insert key (Directory (Dir (dir_metadata dir) (dir_xattrs dir) sub)) es)
           | Some (Directory d) \<Rightarrow>
               let (r, sub) = insert_at (dir_entries d) rest node
               in (r, bt_insert key (Directory (Dir (dir_metadata d) (dir_xattrs d) sub)) es)
           | Some _ \<Rightarrow> (Inl (NotADirectory component), es)))"

definition tree_insert :: "DirectoryNode \<Rightarrow> u8 list \<Rightarrow> TreeNode \<Rightarrow> (FileTreeError + unit) \<times> DirectoryNode" where
  "tree_insert root path node =
     (case split_path path of
        Inl e \<Rightarrow> (Inl e, root)
      | Inr components \<Rightarrow>
          let (r, es) = insert_at (dir_entries root) components node
          in (r, Dir (dir_metadata root) (dir_xattrs root) es))"

fun get_at :: "entries \<Rightarrow> u8 list list \<Rightarrow> TreeNode option" where
  "get_at es [] = None"
| "get_at es [name] = (case tree_key name of Inl _ \<Rightarrow> None | Inr key \<Rightarrow> map_of es key)"
| "get_at es (component # rest) =
     (case tree_key component of
        Inl _ \<Rightarrow> None
      | Inr key \<Rightarrow> (case map_of es key of Some (Directory d) \<Rightarrow> get_at (dir_entries d) rest | _ \<Rightarrow> None))"

definition tree_get :: "DirectoryNode \<Rightarrow> u8 list \<Rightarrow> TreeNode option" where
  "tree_get root path = (case split_path path of Inl _ \<Rightarrow> None | Inr components \<Rightarrow> get_at (dir_entries root) components)"

fun remove_at :: "entries \<Rightarrow> u8 list list \<Rightarrow> TreeNode option \<times> entries" where
  "remove_at es [] = (None, es)"
| "remove_at es [name] = (case tree_key name of Inl _ \<Rightarrow> (None, es) | Inr key \<Rightarrow> (map_of es key, bt_remove key es))"
| "remove_at es (component # rest) =
     (case tree_key component of
        Inl _ \<Rightarrow> (None, es)
      | Inr key \<Rightarrow>
          (case map_of es key of
             Some (Directory d) \<Rightarrow>
               let (r, sub) = remove_at (dir_entries d) rest
               in (r, bt_insert key (Directory (Dir (dir_metadata d) (dir_xattrs d) sub)) es)
           | _ \<Rightarrow> (None, es)))"

definition tree_remove :: "DirectoryNode \<Rightarrow> u8 list \<Rightarrow> TreeNode option \<times> DirectoryNode" where
  "tree_remove root path =
     (case split_path path of
        Inl _ \<Rightarrow> (None, root)
      | Inr components \<Rightarrow>
          let (r, es) = remove_at (dir_entries root) components
          in (r, Dir (dir_metadata root) (dir_xattrs root) es))"

section \<open>Counting\<close>

fun count_nodes :: "entries \<Rightarrow> nat" where
  "count_nodes [] = 0"
| "count_nodes ((name, node) # es) =
     1 + (case node of Directory d \<Rightarrow> count_nodes (dir_entries d) | _ \<Rightarrow> 0) + count_nodes es"

definition node_count :: "DirectoryNode \<Rightarrow> nat" where
  "node_count root = count_nodes (dir_entries root)"

fun data_size_once :: "entries \<Rightarrow> nat set \<Rightarrow> nat \<times> nat set" where
  "data_size_once [] seen = (0, seen)"
| "data_size_once ((name, node) # es) seen =
     (let (n, seen) =
            (case node of
               RegularFile file \<Rightarrow>
                 if rf_id file \<in> seen then (0, seen) else (file_data_len (rf_data file), Set.insert (rf_id file) seen)
             | Directory d \<Rightarrow> data_size_once (dir_entries d) seen
             | _ \<Rightarrow> (0, seen));
          (m, seen) = data_size_once es seen
      in (n + m, seen))"

definition total_data_size :: "DirectoryNode \<Rightarrow> nat" where
  "total_data_size root = fst (data_size_once (dir_entries root) {})"

fun count_regular_links :: "entries \<Rightarrow> (nat \<Rightarrow> u32 option) \<Rightarrow> nat \<Rightarrow> u32 option" where
  "count_regular_links [] counts = counts"
| "count_regular_links ((name, node) # es) counts =
     count_regular_links es
       (case node of
          RegularFile file \<Rightarrow>
            counts(rf_id file \<mapsto> (case counts (rf_id file) of None \<Rightarrow> 0 | Some c \<Rightarrow> c) + 1)
        | Directory d \<Rightarrow> count_regular_links (dir_entries d) counts
        | _ \<Rightarrow> counts)"

definition regular_file_link_counts :: "DirectoryNode \<Rightarrow> nat \<Rightarrow> u32 option" where
  "regular_file_link_counts root = count_regular_links (dir_entries root) (\<lambda>_. None)"

fun refresh_nlinks :: "(nat \<Rightarrow> u32 option) \<Rightarrow> entries \<Rightarrow> entries" where
  "refresh_nlinks counts [] = []"
| "refresh_nlinks counts ((name, node) # es) =
     (name, case node of
        RegularFile file \<Rightarrow>
          RegularFile (file\<lparr>rf_nlink := (case counts (rf_id file) of None \<Rightarrow> 1 | Some c \<Rightarrow> c)\<rparr>)
      | Directory d \<Rightarrow> Directory (Dir (dir_metadata d) (dir_xattrs d) (refresh_nlinks counts (dir_entries d)))
      | other \<Rightarrow> other) # refresh_nlinks counts es"

definition refresh_regular_nlinks :: "DirectoryNode \<Rightarrow> DirectoryNode" where
  "refresh_regular_nlinks root =
     Dir (dir_metadata root) (dir_xattrs root) (refresh_nlinks (regular_file_link_counts root) (dir_entries root))"

fun strip_data :: "entries \<Rightarrow> entries" where
  "strip_data [] = []"
| "strip_data ((name, node) # es) =
     (name, case node of
        RegularFile f \<Rightarrow> RegularFile (f\<lparr>rf_data := Memory []\<rparr>)
      | Directory d \<Rightarrow> Directory (Dir (dir_metadata d) (dir_xattrs d) (strip_data (dir_entries d)))
      | other \<Rightarrow> other) # strip_data es"

definition strip_file_data :: "DirectoryNode \<Rightarrow> DirectoryNode" where
  "strip_file_data root = Dir (dir_metadata root) (dir_xattrs root) (strip_data (dir_entries root))"

section \<open>Merging layers\<close>

definition is_whiteout_device :: "TreeNode \<Rightarrow> bool" where
  "is_whiteout_device node =
     (case node of CharDevice dev \<Rightarrow> dv_major dev = WHITEOUT_MAJOR \<and> dv_minor dev = WHITEOUT_MINOR | _ \<Rightarrow> False)"

definition has_opaque_xattr :: "DirectoryNode \<Rightarrow> bool" where
  "has_opaque_xattr d \<longleftrightarrow>
     (\<exists>x \<in> set (dir_xattrs d). xa_name x = OPAQUE_XATTR_NAME \<and> xa_value x = OPAQUE_XATTR_VALUE)"

text \<open>The entries of a directory that remain below a layer's directory of the same name.\<close>

definition lower_entries :: "DirectoryNode \<Rightarrow> DirectoryNode \<Rightarrow> entries" where
  "lower_entries layer_dir base_dir = (if has_opaque_xattr layer_dir then [] else dir_entries base_dir)"

fun merge_entries :: "entries \<Rightarrow> entries \<Rightarrow> entries" where
  "merge_entries base [] = base"
| "merge_entries base ((name, layer_node) # rest) =
     merge_entries
       (if is_whiteout_device layer_node then bt_remove name base
        else case layer_node of
               Directory layer_dir \<Rightarrow>
                 (case map_of base name of
                    Some (Directory base_dir) \<Rightarrow>
                      bt_insert name (Directory (Dir (dir_metadata layer_dir) (dir_xattrs layer_dir)
                        (merge_entries (lower_entries layer_dir base_dir) (dir_entries layer_dir)))) base
                  | _ \<Rightarrow> bt_insert name (Directory layer_dir) base)
             | other \<Rightarrow> bt_insert name other base)
       rest"

definition merge_directory :: "DirectoryNode \<Rightarrow> DirectoryNode \<Rightarrow> DirectoryNode" where
  "merge_directory base layer =
     Dir (dir_metadata base) (dir_xattrs base) (merge_entries (dir_entries base) (dir_entries layer))"

definition merge_layer :: "DirectoryNode \<Rightarrow> DirectoryNode \<Rightarrow> DirectoryNode" where
  "merge_layer tree layer = refresh_regular_nlinks (merge_directory tree layer)"

text \<open>The provenance of each path that is no directory: the layer it came from. Its keys are
  \<^verbatim>\<open>PathBuf\<close>s, which compare by component and drop every component \<^verbatim>\<open>.\<close> but a leading one:
  \<^verbatim>\<open>path_key\<close> is how a list of names reads. The operations take the reading as their first argument.\<close>

type_synonym provenance = "u8 list list \<Rightarrow> nat option"
type_synonym key = "u8 list list \<Rightarrow> u8 list list"

definition path_key :: key where
  "path_key path = (case path of [] \<Rightarrow> [] | n # ns \<Rightarrow> n # filter (\<lambda>c. c \<noteq> [46]) ns)"

text \<open>\<^verbatim>\<open>retain\<close> with \<^verbatim>\<open>starts_with\<close>.\<close>

definition drop_under :: "key \<Rightarrow> u8 list list \<Rightarrow> provenance \<Rightarrow> provenance" where
  "drop_under key path prov = (\<lambda>k. if prefix (key path) k then None else prov k)"

fun record_provenance :: "key \<Rightarrow> entries \<Rightarrow> nat \<Rightarrow> u8 list list \<Rightarrow> provenance \<Rightarrow> provenance" where
  "record_provenance key [] idx path prov = prov"
| "record_provenance key ((name, child) # es) idx path prov =
     (let child_path = path @ [name]
      in record_provenance key es idx path
           (case child of
              Directory d \<Rightarrow> record_provenance key (dir_entries d) idx child_path prov
            | _ \<Rightarrow> prov(key child_path \<mapsto> idx)))"

fun merge_prov :: "key \<Rightarrow> entries \<Rightarrow> entries \<Rightarrow> nat \<Rightarrow> u8 list list \<Rightarrow> provenance \<Rightarrow> entries \<times> provenance" where
  "merge_prov key base [] idx path prov = (base, prov)"
| "merge_prov key base ((name, layer_node) # rest) idx path prov =
     (let child_path = path @ [name];
          (base, prov) =
            (if is_whiteout_device layer_node then (bt_remove name base, drop_under key child_path prov)
             else case layer_node of
                    Directory layer_dir \<Rightarrow>
                      (case map_of base name of
                         Some (Directory base_dir) \<Rightarrow>
                           let opaque = has_opaque_xattr layer_dir;
                               prov = (if opaque then drop_under key child_path prov else prov);
                               (es, prov) = merge_prov key (lower_entries layer_dir base_dir) (dir_entries layer_dir) idx child_path prov
                           in (bt_insert name (Directory (Dir (dir_metadata layer_dir) (dir_xattrs layer_dir) es)) base, prov)
                       | _ \<Rightarrow> (bt_insert name (Directory layer_dir) base,
                              record_provenance key (dir_entries layer_dir) idx child_path (drop_under key child_path prov)))
                  | other \<Rightarrow> (bt_insert name other base, prov(key child_path \<mapsto> idx)))
      in merge_prov key base rest idx path prov)"

fun strip_opaque :: "entries \<Rightarrow> entries" where
  "strip_opaque [] = []"
| "strip_opaque ((name, node) # es) =
     (name, case node of
        Directory d \<Rightarrow>
          Directory (Dir (dir_metadata d)
            (filter (\<lambda>x. \<not> (xa_name x = OPAQUE_XATTR_NAME \<and> xa_value x = OPAQUE_XATTR_VALUE)) (dir_xattrs d))
            (strip_opaque (dir_entries d)))
      | other \<Rightarrow> other) # strip_opaque es"

definition strip_opaque_xattrs :: "DirectoryNode \<Rightarrow> DirectoryNode" where
  "strip_opaque_xattrs d =
     Dir (dir_metadata d) (filter (\<lambda>x. \<not> (xa_name x = OPAQUE_XATTR_NAME \<and> xa_value x = OPAQUE_XATTR_VALUE)) (dir_xattrs d))
       (strip_opaque (dir_entries d))"

fun merge_all :: "DirectoryNode \<Rightarrow> provenance \<Rightarrow> nat \<Rightarrow> DirectoryNode list \<Rightarrow> DirectoryNode \<times> provenance" where
  "merge_all merged prov idx [] = (merged, prov)"
| "merge_all merged prov idx (layer # layers) =
     (let (es, prov) = merge_prov path_key (dir_entries merged) (dir_entries layer) idx [] prov
      in merge_all (Dir (dir_metadata merged) (dir_xattrs merged) es) prov (idx + 1) layers)"

definition merge_layers_with_provenance :: "DirectoryNode list \<Rightarrow> DirectoryNode \<times> provenance" where
  "merge_layers_with_provenance layers =
     (let (merged, prov) = merge_all new_tree (\<lambda>_. None) 0 layers
      in (refresh_regular_nlinks (strip_opaque_xattrs merged), prov))"


section \<open>Spooled data\<close>

text \<open>The spool file, opened. \<^verbatim>\<open>try_clone\<close> duplicates the descriptor, so the writer and the readers
  share one cursor. \<open>sp_host\<close> is what the host does with each \<^verbatim>\<open>write_all\<close>, counted by
  \<open>sp_writes\<close>: it succeeds, or fails with an error after some of the bytes. A read past the end of
  the file fails.\<close>

datatype IoError = UnexpectedEof | OtherIo nat

record DataSpool =
  sp_bytes :: "u8 list"
  sp_cursor :: nat
  sp_id :: nat
  sp_offset :: nat
  sp_host :: "nat \<Rightarrow> (IoError \<times> nat) option"
  sp_writes :: nat

definition new_spool :: "(nat \<Rightarrow> (IoError \<times> nat) option) \<Rightarrow> nat \<Rightarrow> DataSpool" where
  "new_spool host i = \<lparr>sp_bytes = [], sp_cursor = 0, sp_id = i, sp_offset = 0, sp_host = host, sp_writes = 0\<rparr>"

definition spool_put :: "DataSpool \<Rightarrow> u8 list \<Rightarrow> DataSpool" where
  "spool_put sp data =
     sp\<lparr>sp_bytes := take (sp_cursor sp) (sp_bytes sp @ replicate (sp_cursor sp - length (sp_bytes sp)) 0) @ data @
          drop (sp_cursor sp + length data) (sp_bytes sp),
        sp_cursor := sp_cursor sp + length data, sp_writes := sp_writes sp + 1\<rparr>"

definition spool_write_all :: "DataSpool \<Rightarrow> u8 list \<Rightarrow> (IoError + unit) \<times> DataSpool" where
  "spool_write_all sp data =
     (case sp_host sp (sp_writes sp) of
        None \<Rightarrow> (Inr (), spool_put sp data)
      | Some (e, n) \<Rightarrow> (Inl e, spool_put sp (take n data)))"

definition write_chunk :: "DataSpool \<Rightarrow> u8 list \<Rightarrow> (IoError + unit) \<times> DataSpool" where
  "write_chunk sp data =
     (case spool_write_all sp data of
        (Inl e, sp) \<Rightarrow> (Inl e, sp)
      | (Inr _, sp) \<Rightarrow> (Inr (), sp\<lparr>sp_offset := sp_offset sp + length data\<rparr>))"

definition data_ref :: "DataSpool \<Rightarrow> nat \<Rightarrow> nat \<Rightarrow> FileData" where
  "data_ref sp offset len = Spool (sp_id sp) offset len"

definition spool_write_data :: "DataSpool \<Rightarrow> u8 list \<Rightarrow> (IoError + FileData) \<times> DataSpool" where
  "spool_write_data sp data =
     (let offset = sp_offset sp in
      case spool_write_all sp data of
        (Inl e, sp) \<Rightarrow> (Inl e, sp)
      | (Inr _, sp) \<Rightarrow>
          let sp = sp\<lparr>sp_offset := sp_offset sp + length data\<rparr>
          in (Inr (Spool (sp_id sp) offset (length data)), sp))"

definition spool_read_exact :: "DataSpool \<Rightarrow> nat \<Rightarrow> u8 list option \<times> DataSpool" where
  "spool_read_exact sp n =
     (let got = take n (drop (sp_cursor sp) (sp_bytes sp)); sp' = sp\<lparr>sp_cursor := sp_cursor sp + length got\<rparr>
      in (if length got = n then Some got else None, sp'))"

fun as_bytes :: "FileData \<Rightarrow> u8 list option" where
  "as_bytes (Memory v) = Some v"
| "as_bytes (SharedMemory v) = Some v"
| "as_bytes (Spool s offset len) = None"

text \<open>\<^verbatim>\<open>sp\<close> is the spool the data refers to.\<close>

fun read_all :: "DataSpool \<Rightarrow> FileData \<Rightarrow> u8 list option \<times> DataSpool" where
  "read_all sp (Memory v) = (Some v, sp)"
| "read_all sp (SharedMemory v) = (Some v, sp)"
| "read_all sp (Spool s offset len) = spool_read_exact (sp\<lparr>sp_cursor := offset\<rparr>) len"

text \<open>\<^verbatim>\<open>write_range\<close> on a spooled file copies in chunks of 64 KiB; what was copied before a failed read stays in the output.\<close>

function copy_chunks :: "DataSpool \<Rightarrow> nat \<Rightarrow> u8 list \<Rightarrow> bool \<times> u8 list \<times> DataSpool" where
  "copy_chunks sp remaining out =
     (if remaining = 0 then (True, out, sp)
      else let to_read = min remaining 65536 in
           case spool_read_exact sp to_read of
             (None, sp) \<Rightarrow> (False, out, sp)
           | (Some buf, sp) \<Rightarrow> copy_chunks sp (remaining - to_read) (out @ buf))"
  by pat_completeness auto
termination by (relation "measure (\<lambda>(sp, remaining, out). remaining)") auto

declare copy_chunks.simps [simp del]

definition slice_of :: "u8 list \<Rightarrow> nat \<Rightarrow> nat \<Rightarrow> u8 list option" where
  "slice_of v start len = (if start + len \<le> length v then Some (take len (drop start v)) else None)"

text \<open>An out-of-range slice of in-memory data panics: \<^verbatim>\<open>None\<close>.\<close>

fun write_range :: "DataSpool \<Rightarrow> FileData \<Rightarrow> nat \<Rightarrow> nat \<Rightarrow> u8 list \<Rightarrow> (bool \<times> u8 list \<times> DataSpool) option" where
  "write_range sp (Memory v) start len out = map_option (\<lambda>b. (True, out @ b, sp)) (slice_of v start len)"
| "write_range sp (SharedMemory v) start len out = map_option (\<lambda>b. (True, out @ b, sp)) (slice_of v start len)"
| "write_range sp (Spool s offset n) start len out = Some (copy_chunks (sp\<lparr>sp_cursor := offset + start\<rparr>) len out)"

definition write_to :: "DataSpool \<Rightarrow> FileData \<Rightarrow> u8 list \<Rightarrow> (bool \<times> u8 list \<times> DataSpool) option" where
  "write_to sp data out = write_range sp data 0 (file_data_len data) out"


end
