(* ===== verification/Image_Merge.thy ===== *)
theory Image_Merge
  imports Image_Tree
begin

text \<open>
  Layer trees by path: a tree as the map from paths to what is seen there, a merge as the overlay of such
  maps, the provenance of every file, exact link counts, insertion and removal by path, and the round trip
  of spooled data.
\<close>

section \<open>Well-formed trees\<close>

fun ents_ok :: "entries \<Rightarrow> bool" where
  "ents_ok [] = True"
| "ents_ok ((name, node) # es) \<longleftrightarrow>
     (\<forall>k \<in> fst ` set es. name < k) \<and> (case node of Directory d \<Rightarrow> ents_ok (dir_entries d) | _ \<Rightarrow> True) \<and> ents_ok es"

lemma ents_ok_wf: "ents_ok es \<Longrightarrow> bt_wf es"
  by (induction es rule: ents_ok.induct) (auto simp: bt_wf_Cons)

definition subtree_ok :: "TreeNode \<Rightarrow> bool" where
  "subtree_ok node = (case node of Directory d \<Rightarrow> ents_ok (dir_entries d) | _ \<Rightarrow> True)"

lemma node_ok_simps [simp]:
  "subtree_ok (Directory d) = ents_ok (dir_entries d)" "subtree_ok (RegularFile f) = True" "subtree_ok (Symlink s) = True"
  "subtree_ok (CharDevice v) = True" "subtree_ok (BlockDevice v) = True" "subtree_ok (Fifo m) = True" "subtree_ok (Socket m) = True"
  by (simp_all add: subtree_ok_def)

lemma ents_ok_iff: "ents_ok es \<longleftrightarrow> bt_wf es \<and> (\<forall>node \<in> snd ` set es. subtree_ok node)"
  by (induction es rule: ents_ok.induct) (auto simp: bt_wf_Cons subtree_ok_def)

lemma ents_ok_get: "ents_ok es \<Longrightarrow> map_of es n = Some node \<Longrightarrow> subtree_ok node"
  by (auto simp: ents_ok_iff dest!: map_of_SomeD)

lemma snd_bt_insert: "snd ` set (bt_insert k v m) \<subseteq> Set.insert v (snd ` set m)"
  by (induction k v m rule: bt_insert.induct) auto

lemma ents_ok_insert: "ents_ok es \<Longrightarrow> subtree_ok node \<Longrightarrow> ents_ok (bt_insert n node es)"
  using snd_bt_insert [of n node es] unfolding ents_ok_iff by (blast intro: bt_wf_insert)

lemma ents_ok_remove: "ents_ok es \<Longrightarrow> ents_ok (bt_remove n es)"
  using bt_wf_remove [of es n] by (auto simp: ents_ok_iff bt_remove_def)

lemma tree_key_ok [simp]: "tree_key n = Inr n"
  by (simp add: tree_key_def os_string_from_bytes_def)

section \<open>Paths through a tree\<close>

text \<open>What can be seen at a path: a directory is seen without its entries.\<close>

definition shape :: "TreeNode \<Rightarrow> TreeNode" where
  "shape node = (case node of Directory d \<Rightarrow> Directory (Dir (dir_metadata d) (dir_xattrs d) []) | _ \<Rightarrow> node)"

definition is_directory :: "TreeNode \<Rightarrow> bool" where
  "is_directory node = (case node of Directory _ \<Rightarrow> True | _ \<Rightarrow> False)"

lemma is_dir_simps [simp]:
  "is_directory (Directory d)" "\<not> is_directory (RegularFile f)" "\<not> is_directory (Symlink s)" "\<not> is_directory (CharDevice v)"
  "\<not> is_directory (BlockDevice v)" "\<not> is_directory (Fifo m)" "\<not> is_directory (Socket m)"
  by (simp_all add: is_directory_def)

lemma is_dirE: "is_directory node \<Longrightarrow> (\<And>d. node = Directory d \<Longrightarrow> P) \<Longrightarrow> P"
  by (cases node) simp_all

lemma shape_nondir: "\<not> is_directory node \<Longrightarrow> shape node = node"
  by (cases node) (simp_all add: shape_def)

lemma is_dir_shape [simp]: "is_directory (shape node) = is_directory node"
  by (cases node) (simp_all add: shape_def)

lemma get_at_Cons: "get_at es (n # p) =
    (if p = [] then map_of es n
     else case map_of es n of Some (Directory d) \<Rightarrow> get_at (dir_entries d) p | _ \<Rightarrow> None)"
  by (cases p) (simp_all split: option.split TreeNode.split)

type_synonym tree_view = "u8 list list \<Rightarrow> TreeNode option"

definition view :: "entries \<Rightarrow> tree_view" where
  "view es p = map_option shape (get_at es p)"

section \<open>Merging as an overlay of paths\<close>

text \<open>A layer laid over a view, walking down a path: nothing in the layer leaves the path as it was;
  a whiteout hides it; a node that is no directory takes its place; a directory over a directory
  continues the walk, over nothing when it is opaque; a directory over anything else brings its own
  contents.\<close>

fun overlay :: "entries \<Rightarrow> tree_view \<Rightarrow> u8 list list \<Rightarrow> TreeNode option" where
  "overlay layer below [] = None"
| "overlay layer below (n # p) =
     (case map_of layer n of
        None \<Rightarrow> below (n # p)
      | Some node \<Rightarrow>
          if is_whiteout_device node then None
          else case node of
                 Directory d \<Rightarrow>
                   (case below [n] of
                      Some (Directory _) \<Rightarrow>
                        if p = [] then Some (shape node)
                        else overlay (dir_entries d) (if has_opaque_xattr d then (\<lambda>_. None) else (\<lambda>q. below (n # q))) p
                    | _ \<Rightarrow> if p = [] then Some (shape node) else view (dir_entries d) p)
               | _ \<Rightarrow> if p = [] then Some node else None)"

definition merged_node :: "TreeNode option \<Rightarrow> TreeNode \<Rightarrow> TreeNode option" where
  "merged_node base node =
     (if is_whiteout_device node then None
      else case node of
             Directory d \<Rightarrow>
               (case base of
                  Some (Directory b) \<Rightarrow>
                    Some (Directory (Dir (dir_metadata d) (dir_xattrs d)
                      (merge_entries (lower_entries d b) (dir_entries d))))
                | _ \<Rightarrow> Some node)
           | _ \<Rightarrow> Some node)"

lemma merge_other: "n \<notin> fst ` set layer \<Longrightarrow> map_of (merge_entries base layer) n = map_of base n"
proof (induction layer arbitrary: base)
  case (Cons x layer)
  obtain k node where x: "x = (k, node)" by (cases x)
  with Cons.prems have "k \<noteq> n" "n \<notin> fst ` set layer" by auto
  then show ?case unfolding x
    by (simp add: Cons.IH split: TreeNode.split option.split)
qed simp

lemma merge_lookup:
  assumes "distinct (map fst layer)"
  shows "map_of (merge_entries base layer) n =
    (case map_of layer n of None \<Rightarrow> map_of base n | Some node \<Rightarrow> merged_node (map_of base n) node)"
  using assms
proof (induction layer arbitrary: base)
  case (Cons x layer)
  obtain k node where x: "x = (k, node)" by (cases x)
  show ?case
  proof (cases "k = n")
    case True
    then have "n \<notin> fst ` set layer" using Cons.prems by (auto simp: x)
    then show ?thesis using True
      by (simp add: x merge_other merged_node_def split: TreeNode.split option.split)
  next
    case False
    then show ?thesis using Cons by (simp add: x split: TreeNode.split option.split)
  qed
qed simp

lemma view_Cons: "view es (n # p) =
    (if p = [] then map_option shape (map_of es n)
     else case map_of es n of Some (Directory d) \<Rightarrow> view (dir_entries d) p | _ \<Rightarrow> None)"
  by (simp add: view_def get_at_Cons split: option.split TreeNode.split)

lemma get_at_Nil [simp]: "get_at [] p = None"
  by (cases p) (simp_all add: get_at_Cons)

lemma view_Nil [simp]: "view es [] = None" "view [] p = None"
  by (simp add: view_def) (cases p; simp add: view_def get_at_Cons)

lemma overlay_cong:
  assumes "\<And>q. q \<noteq> [] \<Longrightarrow> f q = g q"
  shows "overlay layer f p = overlay layer g p"
  using assms
proof (induction p arbitrary: layer f g)
  case (Cons n p)
  have "overlay es (\<lambda>q. f (n # q)) p = overlay es (\<lambda>q. g (n # q)) p" for es
    by (rule Cons.IH) (simp add: Cons.prems)
  then show ?case using Cons.prems [of "[n]"] Cons.prems [of "n # p"]
    by (simp split: option.split TreeNode.split)
qed simp

lemma merge_overlay:
  assumes "ents_ok layer"
  shows "view (merge_entries base layer) p = overlay layer (view base) p"
  using assms
proof (induction p arbitrary: base layer)
  case (Cons n p)
  have l: "map_of (merge_entries base layer) n =
      (case map_of layer n of None \<Rightarrow> map_of base n | Some node \<Rightarrow> merged_node (map_of base n) node)"
    by (rule merge_lookup [OF bt_wf_distinct [OF ents_ok_wf [OF Cons.prems]]])
  show ?case
  proof (cases "map_of layer n")
    case None
    then show ?thesis by (simp add: l view_Cons)
  next
    case (Some node)
    have ok: "ents_ok (dir_entries d)" if "node = Directory d" for d
      using ents_ok_get [OF Cons.prems Some] that by simp
    have b: "view base [n] = map_option shape (map_of base n)" by (simp add: view_Cons)
    show ?thesis
    proof (cases "is_whiteout_device node \<or> \<not> is_directory node")
      case True
      then show ?thesis
        by (cases node) (auto simp: Some l view_Cons merged_node_def shape_def)
    next
      case False
      then obtain d where d: "node = Directory d" by (auto elim: is_dirE)
      show ?thesis
      proof (cases "\<exists>b. map_of base n = Some (Directory b)")
        case True
        then obtain bd where bd: "map_of base n = Some (Directory bd)" by blast
        let ?b = "lower_entries d bd"
        have "view (merge_entries ?b (dir_entries d)) p = overlay (dir_entries d) (view ?b) p"
          by (rule Cons.IH [OF ok [OF d]])
        also have "\<dots> = overlay (dir_entries d) (if has_opaque_xattr d then (\<lambda>_. None) else (\<lambda>q. view base (n # q))) p"
          by (rule overlay_cong) (simp add: view_Cons bd lower_entries_def)
        finally show ?thesis
          using False by (simp add: Some l d bd b view_Cons merged_node_def shape_def)
      next
        case False
        then have "merged_node (map_of base n) node = Some node"
          using \<open>\<not> (is_whiteout_device node \<or> \<not> is_directory node)\<close> by (auto simp: merged_node_def d split: option.split TreeNode.split)
        then show ?thesis
          using False \<open>\<not> (is_whiteout_device node \<or> \<not> is_directory node)\<close>
          by (cases "map_of base n"; cases "the (map_of base n)") (auto simp: Some l d b view_Cons shape_def)
      qed
    qed
  qed
qed simp

section \<open>Whiteout devices that stay\<close>

text \<open>Where a layer has an opaque directory strictly above a path.\<close>

definition opaque_above :: "entries \<Rightarrow> u8 list list \<Rightarrow> bool" where
  "opaque_above es q \<longleftrightarrow> (\<exists>r d. strict_prefix r q \<and> get_at es r = Some (Directory d) \<and> has_opaque_xattr d)"

definition shows_dir :: "tree_view \<Rightarrow> u8 list list \<Rightarrow> bool" where
  "shows_dir f q \<longleftrightarrow> (\<exists>d. f q = Some (Directory d))"

text \<open>Only a directory has something below it.\<close>

definition closed_view :: "tree_view \<Rightarrow> bool" where
  "closed_view f \<longleftrightarrow> (\<forall>p q. p \<noteq> [] \<and> q \<noteq> [] \<and> f (p @ q) \<noteq> None \<longrightarrow> shows_dir f p)"

lemma view_closed: "closed_view (view es)"
proof -
  have "shows_dir (view es) p" if "p \<noteq> []" "q \<noteq> []" "view es (p @ q) \<noteq> None" for p q
    using that
  proof (induction p arbitrary: es)
    case (Cons n p)
    then show ?case
      by (cases "p = []") (auto simp: shows_dir_def view_Cons shape_def split: option.splits TreeNode.splits)
  qed simp
  then show ?thesis unfolding closed_view_def by blast
qed

lemma closed_sub: "closed_view f \<Longrightarrow> closed_view (\<lambda>q. f (n # q))"
  unfolding closed_view_def shows_dir_def by (metis append_Cons list.distinct(1))

lemma closed_none: "closed_view f \<Longrightarrow> \<not> shows_dir f [n] \<Longrightarrow> q \<noteq> [] \<Longrightarrow> f (n # q) = None"
  unfolding closed_view_def by (metis append_Cons append_Nil list.distinct(1))

lemma closed_empty: "closed_view (\<lambda>_. None)"
  by (simp add: closed_view_def)

lemma opaque_above_top [simp]: "\<not> opaque_above es []" "\<not> opaque_above es [n]"
  by (auto simp: opaque_above_def strict_prefix_def prefix_Cons)

lemma opaque_aboveI:
  assumes "map_of es n = Some (Directory d)" and "q \<noteq> []" and "has_opaque_xattr d \<or> opaque_above (dir_entries d) q"
  shows "opaque_above es (n # q)"
proof (cases "has_opaque_xattr d")
  case True
  then have "strict_prefix [n] (n # q) \<and> get_at es [n] = Some (Directory d)" using assms(1,2) by (simp add: strict_prefix_def)
  then show ?thesis unfolding opaque_above_def using True by blast
next
  case False
  then obtain r e where r: "strict_prefix r q" "get_at (dir_entries d) r = Some (Directory e)" "has_opaque_xattr e"
    using assms(3) by (auto simp: opaque_above_def)
  then have "r \<noteq> []" by (cases r) simp_all
  then have "strict_prefix (n # r) (n # q) \<and> get_at es (n # r) = Some (Directory e)"
    using r assms(1) by (simp add: get_at_Cons)
  then show ?thesis unfolding opaque_above_def using r(3) by blast
qed

text \<open>A whiteout device that a layer brings inside a directory where it meets nothing below: the layers
  below have no such directory, or the layer is opaque further up.\<close>

definition fresh_device :: "entries \<Rightarrow> tree_view \<Rightarrow> u8 list list \<Rightarrow> TreeNode \<Rightarrow> bool" where
  "fresh_device layer below p w \<longleftrightarrow> (\<exists>q n. p = q @ [n] \<and> q \<noteq> [] \<and> get_at layer p = Some w \<and>
     (shows_dir below q \<longrightarrow> opaque_above layer q))"

lemma fresh_device_Cons:
  assumes "map_of layer n = Some (Directory d)" and "fresh_device (dir_entries d) below' p w"
    and "\<And>q. q \<noteq> [] \<Longrightarrow> shows_dir below (n # q) \<Longrightarrow> has_opaque_xattr d \<or> shows_dir below' q"
  shows "fresh_device layer below (n # p) w"
proof -
  obtain q m where q: "p = q @ [m]" "q \<noteq> []" "get_at (dir_entries d) p = Some w"
      "shows_dir below' q \<longrightarrow> opaque_above (dir_entries d) q"
    using assms(2) by (auto simp: fresh_device_def)
  then have "n # p = (n # q) @ [m]" "get_at layer (n # p) = Some w" using assms(1) by (simp_all add: get_at_Cons)
  moreover have "opaque_above layer (n # q)" if "shows_dir below (n # q)"
    using opaque_aboveI [OF assms(1) q(2)] assms(3) [OF q(2) that] q(4) by blast
  ultimately show ?thesis unfolding fresh_device_def by blast
qed

lemma view_device:
  assumes "is_whiteout_device w"
  shows "view es p = Some w \<longleftrightarrow> get_at es p = Some w"
proof -
  have "shape node = w \<longleftrightarrow> node = w" for node
    using assms by (cases node) (auto simp: shape_def is_whiteout_device_def)
  then show ?thesis by (auto simp: view_def map_option_case split: option.splits)
qed

lemma overlay_device:
  assumes "closed_view f" and "overlay layer f p = Some w" and "is_whiteout_device w"
  shows "get_at layer p = None \<and> f p = Some w \<or> fresh_device layer f p w"
  using assms
proof (induction p arbitrary: layer f)
  case (Cons n p)
  show ?case
  proof (cases "map_of layer n")
    case None
    then show ?thesis using Cons.prems(2) by (simp add: get_at_Cons)
  next
    case (Some node)
    then obtain d where d: "node = Directory d" and p: "p \<noteq> []"
      using Cons.prems(2,3) by (cases node) (auto simp: is_whiteout_device_def shape_def split: if_splits option.splits TreeNode.splits)
    note here = Some [unfolded d]
    show ?thesis
    proof (cases "shows_dir f [n]")
      case True
      let ?f = "if has_opaque_xattr d then (\<lambda>_. None) else (\<lambda>q. f (n # q))"
      have o: "overlay (dir_entries d) ?f p = Some w"
        using Cons.prems(2) True here p by (auto simp: shows_dir_def is_whiteout_device_def)
      have "closed_view ?f" using closed_sub [OF Cons.prems(1)] closed_empty by simp
      from Cons.IH [OF this o Cons.prems(3)]
      consider "get_at (dir_entries d) p = None" "?f p = Some w" | "fresh_device (dir_entries d) ?f p w"
        by (elim disjE conjE)
      then show ?thesis
      proof cases
        case 1
        then show ?thesis using here p by (simp add: get_at_Cons split: if_splits)
      next
        case 2
        then have "fresh_device layer f (n # p) w"
          by (rule fresh_device_Cons [OF here]) (simp add: shows_dir_def)
        then show ?thesis ..
      qed
    next
      case False
      then have v: "view (dir_entries d) p = Some w"
        using Cons.prems(2) here p by (auto simp: shows_dir_def is_whiteout_device_def split: option.splits TreeNode.splits)
      then have g: "get_at layer (n # p) = Some w"
        using here p view_device [OF Cons.prems(3)] by (simp add: get_at_Cons)
      have "\<not> shows_dir f (n # butlast p)"
        using False closed_none [OF Cons.prems(1) False] by (cases "butlast p") (auto simp: shows_dir_def)
      moreover have "n # p = (n # butlast p) @ [last p]" using p by simp
      ultimately show ?thesis using g unfolding fresh_device_def by blast
    qed
  qed
qed simp

section \<open>The overlay as the documentation has it\<close>

text \<open>What laying a layer over a view shows at a path, as overlayfs defines it: nothing in the layer
  leaves the path as it was; a whiteout hides it and is never seen itself; a node that is no
  directory takes its place; a directory is seen with what it has laid over what is below, or over
  nothing when it is opaque.\<close>

fun lay_over :: "entries \<Rightarrow> tree_view \<Rightarrow> tree_view" where
  "lay_over layer below [] = None"
| "lay_over layer below (n # p) =
     (case map_of layer n of
        None \<Rightarrow> below (n # p)
      | Some (Directory d) \<Rightarrow>
          if p = [] then Some (shape (Directory d))
          else lay_over (dir_entries d) (if has_opaque_xattr d then (\<lambda>_. None) else (\<lambda>q. below (n # q))) p
      | Some node \<Rightarrow> if p = [] \<and> \<not> is_whiteout_device node then Some node else None)"

text \<open>A view without the whiteout devices.\<close>

definition consumed :: "tree_view \<Rightarrow> tree_view" where
  "consumed f p = (case f p of Some node \<Rightarrow> if is_whiteout_device node then None else Some node | None \<Rightarrow> None)"

lemma lay_over_cong:
  assumes "\<And>q. q \<noteq> [] \<Longrightarrow> f q = g q"
  shows "lay_over layer f p = lay_over layer g p"
  using assms
proof (induction p arbitrary: layer f g)
  case (Cons n p)
  have "lay_over es (\<lambda>q. f (n # q)) p = lay_over es (\<lambda>q. g (n # q)) p" for es
    by (rule Cons.IH) (simp add: Cons.prems)
  then show ?case using Cons.prems [of "n # p"] by (simp split: option.split TreeNode.split)
qed simp

lemma consumed_view_Cons:
  "consumed (view es) (n # p) =
     (case map_of es n of
        None \<Rightarrow> None
      | Some node \<Rightarrow>
          if p = [] then (if is_whiteout_device node then None else Some (shape node))
          else case node of Directory d \<Rightarrow> consumed (view (dir_entries d)) p | _ \<Rightarrow> None)"
proof -
  have "is_whiteout_device (shape node) = is_whiteout_device node" for node
    by (cases node) (simp_all add: shape_def is_whiteout_device_def)
  then show ?thesis
    by (cases "map_of es n"; cases "the (map_of es n)") (simp_all add: consumed_def view_Cons)
qed

lemma view_laid: "consumed (view es) p = lay_over es (\<lambda>_. None) p"
proof (induction p arbitrary: es)
  case Nil
  then show ?case by (simp add: consumed_def)
next
  case (Cons n p)
  show ?case
    by (cases "map_of es n"; cases "the (map_of es n)") (simp_all add: consumed_view_Cons Cons.IH is_whiteout_device_def shape_nondir)
qed

lemma overlay_laid:
  assumes "closed_view f"
  shows "consumed (overlay layer f) p = lay_over layer (consumed f) p"
  using assms
proof (induction p arbitrary: layer f)
  case (Cons n p)
  show ?case
  proof (cases "\<exists>d. map_of layer n = Some (Directory d)")
    case False
    then show ?thesis
      by (cases "map_of layer n"; cases "the (map_of layer n)") (auto simp: consumed_def is_whiteout_device_def)
  next
    case True
    then obtain d where d: "map_of layer n = Some (Directory d)" by blast
    show ?thesis
    proof (cases "shows_dir f [n] \<and> p \<noteq> []")
      case True
      have "consumed (overlay (dir_entries d) (\<lambda>q. f (n # q))) p = lay_over (dir_entries d) (consumed (\<lambda>q. f (n # q))) p"
        "consumed (overlay (dir_entries d) (\<lambda>_. None)) p = lay_over (dir_entries d) (consumed (\<lambda>_. None)) p"
        by (rule Cons.IH, rule closed_sub [OF Cons.prems] closed_empty)+
      then show ?thesis using True d by (auto simp: consumed_def [abs_def] shows_dir_def is_whiteout_device_def)
    next
      case False
      have o: "overlay layer f (n # p) = (if p = [] then Some (shape (Directory d)) else view (dir_entries d) p)"
        using False d by (auto simp: is_whiteout_device_def shows_dir_def split: option.split TreeNode.split)
      have "lay_over (dir_entries d) (\<lambda>q. consumed f (n # q)) p = lay_over (dir_entries d) (\<lambda>_. None) p" if "p \<noteq> []"
        using closed_none [OF Cons.prems] that False by (intro lay_over_cong) (simp add: consumed_def)
      moreover have "consumed (overlay layer f) (n # p) =
          (if p = [] then Some (shape (Directory d)) else consumed (view (dir_entries d)) p)"
        unfolding consumed_def o by (simp add: shape_def is_whiteout_device_def)
      ultimately show ?thesis using d view_laid [of "dir_entries d" p] by simp
    qed
  qed
qed (simp add: consumed_def)

lemma merge_laid:
  assumes "ents_ok layer"
  shows "consumed (view (merge_entries base layer)) = lay_over layer (consumed (view base))"
proof -
  have "view (merge_entries base layer) = overlay layer (view base)" by (rule ext, rule merge_overlay [OF assms])
  then show ?thesis using overlay_laid [OF view_closed, of layer base] by (intro ext) simp
qed

lemma shows_dir_consumed: "shows_dir (consumed f) q = shows_dir f q"
  by (auto simp: shows_dir_def consumed_def is_whiteout_device_def split: option.split)

section \<open>Merging keeps trees well formed\<close>

definition put_node :: "u8 list \<Rightarrow> TreeNode option \<Rightarrow> entries \<Rightarrow> entries" where
  "put_node name node es = (case node of None \<Rightarrow> bt_remove name es | Some v \<Rightarrow> bt_insert name v es)"

lemma merge_step:
  "merge_entries base ((name, node) # rest) = merge_entries (put_node name (merged_node (map_of base name) node) base) rest"
  by (simp add: put_node_def merged_node_def split: TreeNode.split option.split)

lemma merge_induct [case_names Nil Cons]:
  assumes "\<And>base. P base []"
    and "\<And>base name node rest.
      (\<And>d b. node = Directory d \<Longrightarrow> map_of base name = Some (Directory b) \<Longrightarrow> P (lower_entries d b) (dir_entries d)) \<Longrightarrow>
      P (put_node name (merged_node (map_of base name) node) base) rest \<Longrightarrow> P base ((name, node) # rest)"
  shows "P base layer"
proof (induction "size_list (\<lambda>p. size (snd p)) layer" arbitrary: base layer rule: less_induct)
  case less
  show ?case
  proof (cases layer)
    case (Cons x rest)
    obtain name node where x: "x = (name, node)" by (cases x)
    have "P b (dir_entries d)" if "node = Directory d" for b d
      by (rule less) (use size_dir_entries [of d 0] that in \<open>simp add: Cons x\<close>)
    then show ?thesis unfolding Cons x by (intro assms(2)) (auto intro!: less simp: Cons x)
  qed (simp add: assms(1))
qed

lemma merged_node_ok:
  assumes "subtree_ok node" and "merged_node base node = Some n'"
    and "\<And>d b. node = Directory d \<Longrightarrow> base = Some (Directory b) \<Longrightarrow> ents_ok (merge_entries (lower_entries d b) (dir_entries d))"
  shows "subtree_ok n'"
  using assms by (auto simp: merged_node_def split: if_splits TreeNode.splits option.splits)

lemma put_node_ok: "ents_ok es \<Longrightarrow> (\<And>n'. node = Some n' \<Longrightarrow> subtree_ok n') \<Longrightarrow> ents_ok (put_node name node es)"
  by (auto simp: put_node_def ents_ok_remove ents_ok_insert split: option.split)

lemma merge_ok: "ents_ok base \<Longrightarrow> ents_ok layer \<Longrightarrow> ents_ok (merge_entries base layer)"
proof (induction base layer rule: merge_induct)
  case (Cons base name node rest)
  have n: "subtree_ok node" "ents_ok rest" using Cons.prems(2) by (auto simp: subtree_ok_def)
  have "ents_ok (merge_entries (lower_entries d b) (dir_entries d))"
    if "node = Directory d" "map_of base name = Some (Directory b)" for d b
    using Cons.IH(1) [OF that] that n ents_ok_get [OF Cons.prems(1) that(2)] by (simp add: lower_entries_def)
  then have "ents_ok (put_node name (merged_node (map_of base name) node) base)"
    using merged_node_ok [OF n(1)] by (intro put_node_ok Cons.prems(1)) blast
  then show ?case unfolding merge_step by (intro Cons.IH(2) n(2))
qed simp

section \<open>Provenance\<close>

text \<open>Where no layer has an entry called \<^verbatim>\<open>.\<close>, every path is its own key.\<close>

definition own_key :: key where
  "own_key path = path"

lemma own_key_simps [simp]:
  "f(own_key path := v) = f(path := v)"
  "drop_under own_key path prov k = (if prefix path k then None else prov k)"
  by (simp_all add: own_key_def drop_under_def)

fun dotless :: "entries \<Rightarrow> bool" where
  "dotless [] = True"
| "dotless ((name, node) # es) \<longleftrightarrow>
     [46] \<noteq> name \<and> (case node of Directory d \<Rightarrow> dotless (dir_entries d) | _ \<Rightarrow> True) \<and> dotless es"

lemma path_key_id: "[46] \<notin> set path \<Longrightarrow> path_key path = own_key path"
  by (cases path) (auto simp: path_key_def own_key_def filter_id_conv)

lemma drop_under_id: "[46] \<notin> set path \<Longrightarrow> drop_under path_key path = drop_under own_key path"
  by (intro ext) (simp add: drop_under_def path_key_id [unfolded own_key_def] own_key_def)

lemma record_id:
  "[46] \<notin> set path \<Longrightarrow> dotless es \<Longrightarrow> record_provenance path_key es idx path prov = record_provenance own_key es idx path prov"
proof (induction es arbitrary: path prov rule: dotless.induct)
  case (2 name child es)
  then show ?case by (cases child) (simp_all add: path_key_id Let_def)
qed simp

lemma merge_id:
  "[46] \<notin> set path \<Longrightarrow> dotless layer \<Longrightarrow> merge_prov path_key base layer idx path prov = merge_prov own_key base layer idx path prov"
proof (induction layer arbitrary: base path prov rule: dotless.induct)
  case (2 name node rest)
  then have p: "[46] \<notin> set (path @ [name])" "dotless rest" "node = Directory d \<Longrightarrow> dotless (dir_entries d)" for d
    by auto
  then show ?case using 2(1) 2(2) [OF 2(3) p(2)]
    by (cases node) (simp_all add: path_key_id drop_under_id record_id Let_def case_prod_beta split: option.split TreeNode.split)
qed simp

lemma record_own:
  "record_provenance own_key ((name, child) # es) idx path prov =
     record_provenance own_key es idx path
       (case child of
          Directory d \<Rightarrow> record_provenance own_key (dir_entries d) idx (path @ [name]) prov
        | _ \<Rightarrow> prov(path @ [name] \<mapsto> idx))"
  by (simp add: Let_def cong: TreeNode.case_cong)

declare record_provenance.simps(2) [simp del] record_own [simp]

definition merged_prov :: "key \<Rightarrow> TreeNode option \<Rightarrow> TreeNode \<Rightarrow> nat \<Rightarrow> u8 list list \<Rightarrow> provenance \<Rightarrow> provenance" where
  "merged_prov key base node idx child_path prov =
     (if is_whiteout_device node then drop_under key child_path prov
      else case node of
             Directory d \<Rightarrow>
               (case base of
                  Some (Directory b) \<Rightarrow>
                    snd (merge_prov key (lower_entries d b) (dir_entries d) idx child_path
                      (if has_opaque_xattr d then drop_under key child_path prov else prov))
                | _ \<Rightarrow> record_provenance key (dir_entries d) idx child_path (drop_under key child_path prov))
           | _ \<Rightarrow> prov(key child_path \<mapsto> idx))"

lemma merge_prov_step:
  assumes "\<And>d b. node = Directory d \<Longrightarrow> map_of base name = Some (Directory b) \<Longrightarrow>
    (\<forall>prov path. fst (merge_prov key (lower_entries d b) (dir_entries d) idx path prov) = merge_entries (lower_entries d b) (dir_entries d))"
  shows "merge_prov key base ((name, node) # rest) idx path prov =
    merge_prov key (put_node name (merged_node (map_of base name) node) base) rest idx path
      (merged_prov key (map_of base name) node idx (path @ [name]) prov)"
  using assms
  by (simp add: put_node_def merged_node_def merged_prov_def Let_def case_prod_beta split: TreeNode.split option.split)

lemma merge_prov_tree: "fst (merge_prov key base layer idx path prov) = merge_entries base layer"
proof (induction base layer arbitrary: path prov rule: merge_induct)
  case (Cons base name node rest)
  have "merge_prov key base ((name, node) # rest) idx path prov =
    merge_prov key (put_node name (merged_node (map_of base name) node) base) rest idx path
      (merged_prov key (map_of base name) node idx (path @ [name]) prov)"
    by (rule merge_prov_step) (simp add: Cons.IH(1))
  then show ?case by (simp add: Cons.IH(2) merge_step del: merge_entries.simps merge_prov.simps)
qed simp

text \<open>A merge changes the provenance only below the names of the layer.\<close>

lemma record_outside:
  "\<forall>n \<in> fst ` set es. \<not> prefix (path @ [n]) k \<Longrightarrow> record_provenance own_key es idx path prov k = prov k"
proof (induction es arbitrary: path prov rule: ents_ok.induct)
  case (2 name child es)
  have "\<not> prefix (path @ [name]) k" using 2(3) by simp
  then have "\<not> prefix (path @ [name, n]) k" for n
    by (metis append.assoc append_Cons append_Nil append_prefixD)
  then show ?case using 2 by (auto split: TreeNode.split)
qed simp

lemma merge_prov_step':
  "merge_prov own_key base ((name, node) # rest) idx path prov =
    merge_prov own_key (put_node name (merged_node (map_of base name) node) base) rest idx path
      (merged_prov own_key (map_of base name) node idx (path @ [name]) prov)"
  by (rule merge_prov_step) (simp add: merge_prov_tree)

declare merge_prov.simps(2) [simp del] merge_entries.simps(2) [simp del]

lemma merged_prov_outside:
  assumes "\<not> prefix path k"
    and "\<And>d b prov. node = Directory d \<Longrightarrow> base = Some (Directory b) \<Longrightarrow>
      snd (merge_prov own_key (lower_entries d b) (dir_entries d) idx path prov) k = prov k"
  shows "merged_prov own_key base node idx path prov k = prov k"
proof -
  have "\<not> prefix (path @ [n]) k" for n using assms(1) append_prefixD by blast
  then show ?thesis using assms
    by (auto simp: merged_prov_def record_outside split: TreeNode.split option.split)
qed

lemma merge_prov_outside:
  "\<forall>n \<in> fst ` set layer. \<not> prefix (path @ [n]) k \<Longrightarrow> snd (merge_prov own_key base layer idx path prov) k = prov k"
proof (induction base layer arbitrary: path prov rule: merge_induct)
  case (Cons base name node rest)
  have out: "\<not> prefix (path @ [name]) k" using Cons.prems by simp
  then have "\<not> prefix ((path @ [name]) @ [n]) k" for n using append_prefixD by blast
  then have "merged_prov own_key (map_of base name) node idx (path @ [name]) prov k = prov k"
    by (intro merged_prov_outside out Cons.IH(1)) auto
  then show ?case using Cons by (simp add: merge_prov_step')
qed simp

lemma merged_prov_outside': "\<not> prefix path k \<Longrightarrow> merged_prov own_key base node idx path prov k = prov k"
  by (rule merged_prov_outside) (auto intro!: merge_prov_outside dest: append_prefixD)

text \<open>What a merge records under a name of the layer is what its node records.\<close>

lemma record_pointwise: "f k = g k \<Longrightarrow> record_provenance own_key es idx path f k = record_provenance own_key es idx path g k"
proof (induction es arbitrary: path f g rule: ents_ok.induct)
  case (2 name child es)
  have "(case child of Directory d \<Rightarrow> record_provenance own_key (dir_entries d) idx (path @ [name]) f | _ \<Rightarrow> f(path @ [name] \<mapsto> idx)) k
      = (case child of Directory d \<Rightarrow> record_provenance own_key (dir_entries d) idx (path @ [name]) g | _ \<Rightarrow> g(path @ [name] \<mapsto> idx)) k"
    by (cases child) (use 2(3) in \<open>auto intro: 2(1)\<close>)
  then show ?case unfolding record_own by (rule 2(2))
qed simp

lemma merged_prov_pointwise:
  assumes "f k = g k"
    and "\<And>d b f g k. node = Directory d \<Longrightarrow> base = Some (Directory b) \<Longrightarrow> f k = g k \<Longrightarrow>
      snd (merge_prov own_key (lower_entries d b) (dir_entries d) idx path f) k =
      snd (merge_prov own_key (lower_entries d b) (dir_entries d) idx path g) k"
  shows "merged_prov own_key base node idx path f k = merged_prov own_key base node idx path g k"
proof -
  have "drop_under own_key path f k = drop_under own_key path g k" using assms(1) by simp
  then show ?thesis using assms(1) unfolding merged_prov_def
    by (auto intro: record_pointwise assms(2) split: TreeNode.split option.split)
qed

lemma merge_prov_pointwise:
  "f k = g k \<Longrightarrow> snd (merge_prov own_key base layer idx path f) k = snd (merge_prov own_key base layer idx path g) k"
proof (induction base layer arbitrary: path f g k rule: merge_induct)
  case (Cons base name node rest)
  have "merged_prov own_key (map_of base name) node idx (path @ [name]) f k
      = merged_prov own_key (map_of base name) node idx (path @ [name]) g k"
    by (rule merged_prov_pointwise, rule Cons.prems, rule Cons.IH(1))
  then show ?case unfolding merge_prov_step' by (rule Cons.IH(2))
qed simp

lemma merge_prov_lookup:
  assumes "distinct (map fst layer)" and "map_of layer n = Some node"
  shows "snd (merge_prov own_key base layer idx path prov) (path @ n # p) =
    merged_prov own_key (map_of base n) node idx (path @ [n]) prov (path @ n # p)"
  using assms
proof (induction layer arbitrary: base prov)
  case (Cons x rest)
  obtain name v where x: "x = (name, v)" by (cases x)
  let ?base = "put_node name (merged_node (map_of base name) v) base"
    and ?prov = "merged_prov own_key (map_of base name) v idx (path @ [name]) prov"
  have step: "snd (merge_prov own_key base ((name, v) # rest) idx path prov) = snd (merge_prov own_key ?base rest idx path ?prov)"
    by (simp only: merge_prov_step')
  show ?case
  proof (cases "name = n")
    case True
    then have "\<forall>m \<in> fst ` set rest. \<not> prefix (path @ [m]) (path @ n # p)" using Cons.prems by (auto simp: x)
    then show ?thesis using Cons.prems True unfolding x step by (simp add: merge_prov_outside)
  next
    case False
    then have "?prov (path @ n # p) = prov (path @ n # p)" by (intro merged_prov_outside') simp
    moreover have "map_of ?base n = map_of base n" using False by (simp add: put_node_def split: option.split)
    ultimately show ?thesis using Cons.prems False
      by (simp add: x step Cons.IH) (rule merged_prov_pointwise, assumption, rule merge_prov_pointwise)
  qed
qed simp

lemma merge_prov_other:
  assumes "map_of layer n = None"
  shows "snd (merge_prov own_key base layer idx path prov) (path @ n # p) = prov (path @ n # p)"
  using assms by (intro merge_prov_outside) (auto simp: map_of_eq_None_iff)

lemma record_finds:
  assumes "ents_ok es" and "get_at es p = Some node" and "\<not> is_directory node"
  shows "record_provenance own_key es idx path prov (path @ p) = Some idx"
  using assms
proof (induction es arbitrary: path prov p rule: ents_ok.induct)
  case (2 name child es)
  obtain n q where p: "p = n # q" using 2(4) by (cases p) auto
  show ?case
  proof (cases "n = name")
    case True
    then have "\<forall>m \<in> fst ` set es. \<not> prefix (path @ [m]) (path @ p)" using 2(3) p by auto
    then have "record_provenance own_key ((name, child) # es) idx path prov (path @ p) =
        (case child of Directory d \<Rightarrow> record_provenance own_key (dir_entries d) idx (path @ [name]) prov | _ \<Rightarrow> prov(path @ [name] \<mapsto> idx)) (path @ p)"
      by (simp add: record_outside)
    also have "\<dots> = Some idx"
      using 2(1) [of _ q "path @ [name]" prov] 2(3,4,5) True by (auto simp: p get_at_Cons split: TreeNode.splits if_splits)
    finally show ?thesis .
  next
    case False
    then have "get_at es p = Some node" using 2(4) by (simp add: p get_at_Cons split: if_splits)
    then show ?thesis using 2(2) 2(3,5) by simp
  qed
qed simp

text \<open>Every file of the merge is one of the layer, which its provenance then says, or one of the base
  whose provenance is kept.\<close>

lemma merge_prov_source:
  assumes "ents_ok layer" and "get_at (merge_entries base layer) p = Some node" and "\<not> is_directory node"
  shows "get_at layer p = Some node \<and> snd (merge_prov own_key base layer idx path prov) (path @ p) = Some idx \<or>
    get_at base p = Some node \<and> snd (merge_prov own_key base layer idx path prov) (path @ p) = prov (path @ p)"
  using assms
proof (induction p arbitrary: base layer path prov)
  case (Cons n p)
  have dist: "distinct (map fst layer)" using Cons.prems(1) by (intro bt_wf_distinct ents_ok_wf)
  note l = merge_lookup [OF dist, of base n]
  show ?case
  proof (cases "map_of layer n")
    case None
    then show ?thesis using Cons.prems merge_prov_other [OF None, of base idx path prov p] by (simp add: l get_at_Cons split: if_splits)
  next
    case (Some v)
    note prov = merge_prov_lookup [OF dist Some, of base idx path prov p]
    consider (leaf) "\<not> is_directory v" | (over) d b where "v = Directory d" "map_of base n = Some (Directory b)"
      | (fresh) d where "v = Directory d" "\<nexists>b. map_of base n = Some (Directory b)"
      by (cases v) auto
    then show ?thesis
    proof cases
      case leaf
      then have "p = []" "v = node" "\<not> is_whiteout_device v"
        using Cons.prems(2) by (cases v; auto simp: Some l get_at_Cons merged_node_def split: if_splits)+
      then show ?thesis using prov leaf by (cases v) (auto simp: Some get_at_Cons merged_prov_def)
    next
      case over
      have ok: "ents_ok (dir_entries d)" using ents_ok_get [OF Cons.prems(1) Some] over by simp
      have g: "p \<noteq> []" "get_at (merge_entries (lower_entries d b) (dir_entries d)) p = Some node"
        using Cons.prems(2,3) over by (auto simp: Some l get_at_Cons merged_node_def is_whiteout_device_def split: if_splits)
      show ?thesis
        using Cons.IH [OF ok g(2) Cons.prems(3), of "path @ [n]" "if has_opaque_xattr d then drop_under own_key (path @ [n]) prov else prov"]
          over g(1) prov
        by (auto simp: Some get_at_Cons merged_prov_def is_whiteout_device_def lower_entries_def split: if_splits)
    next
      case fresh
      have ok: "ents_ok (dir_entries d)" using ents_ok_get [OF Cons.prems(1) Some] fresh by simp
      have "merged_node (map_of base n) v = Some v" "merged_prov own_key (map_of base n) v idx (path @ [n]) prov =
          record_provenance own_key (dir_entries d) idx (path @ [n]) (drop_under own_key (path @ [n]) prov)"
        using fresh by (auto simp: merged_node_def merged_prov_def is_whiteout_device_def split: option.split TreeNode.split)
      then show ?thesis
        using Cons.prems(2,3) prov fresh record_finds [OF ok, of p node idx "path @ [n]"]
        by (auto simp: Some l get_at_Cons split: if_splits)
    qed
  qed
qed simp

section \<open>Stacks of layers\<close>

definition layers_ok :: "DirectoryNode list \<Rightarrow> bool" where
  "layers_ok layers \<longleftrightarrow> (\<forall>layer \<in> set layers. ents_ok (dir_entries layer))"

definition layers_dotless :: "DirectoryNode list \<Rightarrow> bool" where
  "layers_dotless layers \<longleftrightarrow> (\<forall>layer \<in> set layers. dotless (dir_entries layer))"

text \<open>The view of a stack, bottom layer first.\<close>

definition stacked :: "DirectoryNode list \<Rightarrow> tree_view" where
  "stacked layers = foldl (\<lambda>below layer. lay_over (dir_entries layer) below) (\<lambda>_. None) layers"

text \<open>A whiteout device that some layer leaves in the merged tree.\<close>

definition left_behind :: "DirectoryNode list \<Rightarrow> u8 list list \<Rightarrow> TreeNode \<Rightarrow> bool" where
  "left_behind layers p w \<longleftrightarrow> (\<exists>i < length layers. fresh_device (dir_entries (layers ! i)) (stacked (take i layers)) p w)"

lemma left_behind_snoc:
  "left_behind (layers @ [layer]) p w \<longleftrightarrow> left_behind layers p w \<or> fresh_device (dir_entries layer) (stacked layers) p w"
proof -
  let ?P = "\<lambda>ls i. fresh_device (dir_entries (ls ! i)) (stacked (take i ls)) p w"
  have "?P (layers @ [layer]) i = ?P layers i" if "i < length layers" for i
    using that by (simp add: nth_append)
  moreover have "?P (layers @ [layer]) (length layers) = fresh_device (dir_entries layer) (stacked layers) p w" by simp
  ultimately show ?thesis unfolding left_behind_def length_append_singleton Ex_less_Suc by auto
qed

lemma merge_all_snoc:
  "fst (merge_all merged prov idx (layers @ [layer])) =
     (let m = fst (merge_all merged prov idx layers)
      in Dir (dir_metadata m) (dir_xattrs m) (merge_entries (dir_entries m) (dir_entries layer)))"
  by (induction layers arbitrary: merged prov idx) (simp_all add: case_prod_beta merge_prov_tree Let_def)

lemma merged_view:
  assumes "layers_ok layers"
  defines "f \<equiv> view (dir_entries (fst (merge_all new_tree (\<lambda>_. None) 0 layers)))"
  shows "consumed f = stacked layers" and "f p = Some w \<Longrightarrow> is_whiteout_device w \<Longrightarrow> left_behind layers p w"
proof -
  have "consumed f = stacked layers \<and> (\<forall>p w. f p = Some w \<and> is_whiteout_device w \<longrightarrow> left_behind layers p w)"
    using assms(1) unfolding f_def
  proof (induction layers rule: rev_induct)
    case Nil
    then show ?case by (simp add: consumed_def [abs_def] stacked_def new_tree_def new_directory_def)
  next
    case (snoc layer layers)
    let ?m = "dir_entries (fst (merge_all new_tree (\<lambda>_. None) 0 layers))"
    have l: "ents_ok (dir_entries layer)" and ih: "consumed (view ?m) = stacked layers"
        "\<And>p w. view ?m p = Some w \<Longrightarrow> is_whiteout_device w \<Longrightarrow> left_behind layers p w"
      using snoc by (simp_all add: layers_ok_def)
    have "left_behind (layers @ [layer]) p w"
      if "view (merge_entries ?m (dir_entries layer)) p = Some w" "is_whiteout_device w" for p w
    proof -
      have "overlay (dir_entries layer) (view ?m) p = Some w" using that(1) merge_overlay [OF l] by simp
      from overlay_device [OF view_closed this that(2)]
      have "left_behind layers p w \<or> fresh_device (dir_entries layer) (stacked layers) p w"
        using ih(2) [OF _ that(2)] by (auto simp: fresh_device_def shows_dir_consumed ih(1) [symmetric])
      then show ?thesis by (simp only: left_behind_snoc)
    qed
    then show ?case using merge_laid [OF l, of ?m] ih(1) by (simp add: merge_all_snoc Let_def stacked_def)
  qed
  then show "consumed f = stacked layers" and "f p = Some w \<Longrightarrow> is_whiteout_device w \<Longrightarrow> left_behind layers p w" by blast+
qed

lemma merge_all_ok:
  "layers_ok layers \<Longrightarrow> ents_ok (dir_entries merged) \<Longrightarrow> ents_ok (dir_entries (fst (merge_all merged prov idx layers)))"
  by (induction layers arbitrary: merged prov idx) (simp_all add: layers_ok_def case_prod_beta merge_prov_tree merge_ok)

definition sourced :: "DirectoryNode list \<Rightarrow> entries \<Rightarrow> provenance \<Rightarrow> bool" where
  "sourced layers es prov \<longleftrightarrow> (\<forall>p node. get_at es p = Some node \<and> \<not> is_directory node \<longrightarrow>
     (\<exists>i < length layers. prov p = Some i \<and> get_at (dir_entries (layers ! i)) p = Some node))"

lemma merge_sourced:
  assumes "sourced layers base prov" and "ents_ok (dir_entries layer)"
  shows "sourced (layers @ [layer]) (merge_entries base (dir_entries layer))
    (snd (merge_prov own_key base (dir_entries layer) (length layers) [] prov))"
  unfolding sourced_def
proof (intro allI impI)
  fix p node
  assume "get_at (merge_entries base (dir_entries layer)) p = Some node \<and> \<not> is_directory node"
  then show "\<exists>i < length (layers @ [layer]).
      snd (merge_prov own_key base (dir_entries layer) (length layers) [] prov) p = Some i \<and>
      get_at (dir_entries ((layers @ [layer]) ! i)) p = Some node"
    using merge_prov_source [OF assms(2), of base p node "length layers" "[]" prov] assms(1)
    by (fastforce simp: sourced_def nth_append)
qed

lemma merge_all_sourced:
  assumes "layers_ok layers" and "layers_dotless layers" and "sourced done_layers (dir_entries merged) prov"
  shows "sourced (done_layers @ layers) (dir_entries (fst (merge_all merged prov (length done_layers) layers)))
    (snd (merge_all merged prov (length done_layers) layers))"
  using assms
proof (induction layers arbitrary: merged prov done_layers)
  case (Cons layer layers)
  have "sourced (done_layers @ [layer]) (merge_entries (dir_entries merged) (dir_entries layer))
      (snd (merge_prov own_key (dir_entries merged) (dir_entries layer) (length done_layers) [] prov))"
    using Cons.prems by (intro merge_sourced) (simp_all add: layers_ok_def)
  then show ?case
    using Cons.IH [of "done_layers @ [layer]" "Dir (dir_metadata merged) (dir_xattrs merged) (merge_entries (dir_entries merged) (dir_entries layer))"
        "snd (merge_prov own_key (dir_entries merged) (dir_entries layer) (length done_layers) [] prov)"] Cons.prems(1,2)
    by (simp add: layers_ok_def layers_dotless_def case_prod_beta merge_prov_tree merge_id)
qed simp

text \<open>The last two passes rewrite each node on its own: link counts and the opaque attribute.\<close>

definition unopaque :: "Xattr list \<Rightarrow> Xattr list" where
  "unopaque = filter (\<lambda>x. \<not> (xa_name x = OPAQUE_XATTR_NAME \<and> xa_value x = OPAQUE_XATTR_VALUE))"

definition linked :: "(nat \<Rightarrow> u32 option) \<Rightarrow> TreeNode \<Rightarrow> TreeNode" where
  "linked counts node =
     (case node of
        RegularFile f \<Rightarrow> RegularFile (f\<lparr>rf_nlink := (case counts (rf_id f) of None \<Rightarrow> 1 | Some c \<Rightarrow> c)\<rparr>)
      | Directory d \<Rightarrow> Directory (Dir (dir_metadata d) (dir_xattrs d) (refresh_nlinks counts (dir_entries d)))
      | _ \<Rightarrow> node)"

definition cleaned :: "TreeNode \<Rightarrow> TreeNode" where
  "cleaned node =
     (case node of
        Directory d \<Rightarrow> Directory (Dir (dir_metadata d) (unopaque (dir_xattrs d)) (strip_opaque (dir_entries d)))
      | _ \<Rightarrow> node)"

lemma map_of_refresh: "map_of (refresh_nlinks counts es) n = map_option (linked counts) (map_of es n)"
  by (induction counts es rule: refresh_nlinks.induct) (auto simp: linked_def split: TreeNode.split)

lemma map_of_strip: "map_of (strip_opaque es) n = map_option cleaned (map_of es n)"
  by (induction es rule: strip_opaque.induct) (auto simp: cleaned_def unopaque_def split: TreeNode.split)

lemma get_at_refresh: "get_at (refresh_nlinks counts es) p = map_option (linked counts) (get_at es p)"
  by (induction p arbitrary: es)
    (auto simp: get_at_Cons map_of_refresh linked_def split: option.split TreeNode.split)

lemma get_at_strip: "get_at (strip_opaque es) p = map_option cleaned (get_at es p)"
  by (induction p arbitrary: es)
    (auto simp: get_at_Cons map_of_strip cleaned_def split: option.split TreeNode.split)

lemma linked_nondir [simp]: "is_directory (linked counts node) = is_directory node"
  by (cases node) (simp_all add: linked_def)

lemma cleaned_nondir [simp]: "is_directory (cleaned node) = is_directory node" "\<not> is_directory node \<Longrightarrow> cleaned node = node"
  by (cases node; simp add: cleaned_def)+

text \<open>A node up to what the last passes set: no opaque attribute, and no link count.\<close>

definition plain :: "TreeNode \<Rightarrow> TreeNode" where
  "plain node =
     (case node of
        RegularFile f \<Rightarrow> RegularFile (f\<lparr>rf_nlink := 0\<rparr>)
      | Directory d \<Rightarrow> Directory (Dir (dir_metadata d) (unopaque (dir_xattrs d)) (dir_entries d))
      | _ \<Rightarrow> node)"

lemma plain_linked: "plain (shape (linked counts (cleaned node))) = plain (shape node)"
  by (cases node) (simp_all add: plain_def shape_def linked_def cleaned_def unopaque_def)

lemma merged_result:
  "merge_layers_with_provenance layers = (t, prov) \<Longrightarrow>
     (\<exists>counts. \<forall>p. get_at (dir_entries t) p =
       map_option (\<lambda>node. linked counts (cleaned node)) (get_at (dir_entries (fst (merge_all new_tree (\<lambda>_. None) 0 layers))) p)) \<and>
     prov = snd (merge_all new_tree (\<lambda>_. None) 0 layers)"
  by (auto simp: merge_layers_with_provenance_def case_prod_beta refresh_regular_nlinks_def strip_opaque_xattrs_def
    get_at_refresh get_at_strip option.map_comp o_def intro!: exI)

lemma device_plain: "is_whiteout_device (shape (linked counts (cleaned node))) = is_whiteout_device (shape node)"
  "is_whiteout_device (shape node) \<Longrightarrow> shape (linked counts (cleaned node)) = shape node"
  by (cases node; simp add: is_whiteout_device_def shape_def linked_def cleaned_def)+

text \<open>C5. The merged tree is the overlay of its layers, as the merge documents it: laying the layers over
  each other from the bottom, a whiteout hides what is below it and is consumed, an opaque
  directory hides what is below it, a directory over a directory shows both, and anything else
  takes the place of what was there. What the merged tree shows at a path is what this overlay
  shows, whiteout devices apart, up to the consumed opaque attributes and the link counts. Against
  its documentation the code does leave whiteout devices in the tree, and the theorem says which:
  only those that a layer brings inside a directory where there is nothing below to hide, because
  the layers below have no such directory or the layer is opaque further up; none is left in the
  root.\<close>

theorem layers_overlaid:
  assumes "layers_ok layers" and "shown = view (dir_entries (fst (merge_layers_with_provenance layers)))"
  shows "map_option plain (consumed shown p) = map_option plain (stacked layers p) \<and>
    (\<forall>w. shown p = Some w \<and> is_whiteout_device w \<longrightarrow> left_behind layers p w)"
proof -
  obtain t prov where m: "merge_layers_with_provenance layers = (t, prov)" by (cases "merge_layers_with_provenance layers")
  let ?f = "view (dir_entries (fst (merge_all new_tree (\<lambda>_. None) 0 layers)))"
  note v = merged_view [OF assms(1)]
  obtain counts where "\<forall>p. get_at (dir_entries t) p = map_option (\<lambda>node. linked counts (cleaned node))
      (get_at (dir_entries (fst (merge_all new_tree (\<lambda>_. None) 0 layers))) p)"
    using merged_result [OF m] by blast
  then have s: "shown p = map_option (\<lambda>node. shape (linked counts (cleaned node)))
      (get_at (dir_entries (fst (merge_all new_tree (\<lambda>_. None) 0 layers))) p)"
    by (simp add: assms(2) m view_def option.map_comp o_def)
  have "map_option plain (consumed shown p) = map_option plain (consumed ?f p)"
    unfolding consumed_def s by (cases "get_at (dir_entries (fst (merge_all new_tree (\<lambda>_. None) 0 layers))) p")
      (simp_all add: view_def device_plain(1) plain_linked)
  moreover have "left_behind layers p w" if "shown p = Some w" "is_whiteout_device w" for w
  proof (rule v(2) [OF _ that(2)])
    show "?f p = Some w" using that by (auto simp: s view_def device_plain)
  qed
  ultimately show ?thesis using v(1) by auto
qed


section \<open>Link counts\<close>

text \<open>The paths at which a tree has the regular file with a given identity.\<close>

definition links :: "entries \<Rightarrow> nat \<Rightarrow> u8 list list set" where
  "links es i = {p. \<exists>f. get_at es p = Some (RegularFile f) \<and> rf_id f = i}"

definition node_links :: "u8 list \<Rightarrow> TreeNode \<Rightarrow> nat \<Rightarrow> u8 list list set" where
  "node_links name node i =
     (case node of
        RegularFile f \<Rightarrow> if rf_id f = i then {[name]} else {}
      | Directory d \<Rightarrow> (#) name ` links (dir_entries d) i
      | _ \<Rightarrow> {})"

lemma links_Nil [simp]: "links [] i = {}"
  by (simp add: links_def)

lemma links_Cons:
  assumes "ents_ok ((name, node) # es)"
  shows "links ((name, node) # es) i = node_links name node i \<union> links es i" "node_links name node i \<inter> links es i = {}"
proof -
  have m: "map_of es name = None" using assms by (auto simp: map_of_eq_None_iff)
  have "p \<in> links ((name, node) # es) i \<longleftrightarrow> p \<in> node_links name node i \<or> p \<in> links es i" for p
    using m by (cases p; cases node) (auto simp: links_def node_links_def get_at_Cons split: if_splits)
  moreover have "p \<in> node_links name node i \<Longrightarrow> p \<notin> links es i" for p
    using m by (cases p; cases node) (auto simp: links_def node_links_def get_at_Cons split: if_splits)
  ultimately show "links ((name, node) # es) i = node_links name node i \<union> links es i" "node_links name node i \<inter> links es i = {}"
    by blast+
qed

lemma count_links:
  "ents_ok es \<Longrightarrow> finite (links es i) \<and>
     (case count_regular_links es counts i of None \<Rightarrow> 0 | Some c \<Rightarrow> c) =
     (case counts i of None \<Rightarrow> 0 | Some c \<Rightarrow> c) + of_nat (card (links es i))"
proof (induction es counts rule: count_regular_links.induct)
  case (2 name node es counts)
  let ?c = "case node of
          RegularFile file \<Rightarrow> counts(rf_id file \<mapsto> (case counts (rf_id file) of None \<Rightarrow> 0 | Some c \<Rightarrow> c) + 1)
        | Directory d \<Rightarrow> count_regular_links (dir_entries d) counts
        | _ \<Rightarrow> counts"
  have "finite (node_links name node i) \<and>
      (case ?c i of None \<Rightarrow> 0 | Some c \<Rightarrow> c) =
      (case counts i of None \<Rightarrow> 0 | Some c \<Rightarrow> c) + of_nat (card (node_links name node i))"
    using 2(1) 2(3) by (cases node) (auto simp: node_links_def card_image inj_on_def)
  moreover have "finite (links es i)" "(case count_regular_links es ?c i of None \<Rightarrow> 0 | Some c \<Rightarrow> c) =
      (case ?c i of None \<Rightarrow> 0 | Some c \<Rightarrow> c) + of_nat (card (links es i))"
    using 2(2) 2(3) by auto
  ultimately show ?case
    using links_Cons [OF 2(3), of i] by (simp add: card_Un_disjoint del: of_nat_add add: of_nat_add [symmetric] add.assoc)
qed simp

lemma count_some: "links es i \<noteq> {} \<or> counts i \<noteq> None \<Longrightarrow> ents_ok es \<Longrightarrow> count_regular_links es counts i \<noteq> None"
proof (induction es counts rule: count_regular_links.induct)
  case (2 name node es counts)
  show ?case unfolding count_regular_links.simps
    using 2(1) 2(3,4) links_Cons(1) [OF 2(4), of i]
    by (intro 2(2)) (auto simp: node_links_def split: TreeNode.splits if_splits)
qed simp

lemma links_refresh: "links (refresh_nlinks counts es) i = links es i"
proof -
  have "linked counts node = RegularFile f \<longleftrightarrow>
      (\<exists>g. node = RegularFile g \<and> f = g\<lparr>rf_nlink := (case counts (rf_id g) of None \<Rightarrow> 1 | Some c \<Rightarrow> c)\<rparr>)" for node f
    by (cases node) (auto simp: linked_def)
  then show ?thesis unfolding links_def get_at_refresh by (fastforce simp: map_option_case split: option.splits)
qed

lemma refreshed_links:
  assumes "ents_ok es" and "get_at (refresh_nlinks (count_regular_links es (\<lambda>_. None)) es) p = Some (RegularFile f)"
  shows "rf_nlink f = of_nat (card (links (refresh_nlinks (count_regular_links es (\<lambda>_. None)) es) (rf_id f)))"
proof -
  let ?counts = "count_regular_links es (\<lambda>_. None)"
  from assms(2) obtain node where node: "get_at es p = Some node" "linked ?counts node = RegularFile f"
    by (auto simp: get_at_refresh)
  then obtain g where g: "get_at es p = Some (RegularFile g)" "rf_id f = rf_id g"
      "rf_nlink f = (case ?counts (rf_id g) of None \<Rightarrow> 1 | Some c \<Rightarrow> c)"
    by (cases node) (auto simp: linked_def)
  then have "?counts (rf_id g) \<noteq> None" using assms(1) by (intro count_some) (auto simp: links_def)
  then show ?thesis using count_links [OF assms(1), of "rf_id g" "\<lambda>_. None"] g by (auto simp: links_refresh)
qed

lemma refresh_ok: "ents_ok (refresh_nlinks counts es) = ents_ok es"
proof (induction counts es rule: refresh_nlinks.induct)
  case (2 counts name node es)
  have "fst ` set (refresh_nlinks counts es) = fst ` set es"
    by (induction counts es rule: refresh_nlinks.induct) auto
  then show ?case using 2 by (cases node) (simp_all only: refresh_nlinks.simps ents_ok.simps TreeNode.case dir.sel)
qed simp

text \<open>After a merge the link count of every regular file is the number of paths that lead to it in
  the tree (as a 32-bit number), whatever counts the layers carried.\<close>

theorem link_counts_exact:
  assumes "ents_ok (dir_entries base)" and "ents_ok (dir_entries layer)"
    and "get_at (dir_entries (merge_layer base layer)) p = Some (RegularFile f)"
  shows "rf_nlink f = of_nat (card (links (dir_entries (merge_layer base layer)) (rf_id f)))"
  using refreshed_links [OF merge_ok [OF assms(1,2)], of p f] assms(3)
  by (simp add: merge_layer_def merge_directory_def refresh_regular_nlinks_def regular_file_link_counts_def)

section \<open>Insertion and removal\<close>

lemma insert_at_Cons:
  "insert_at es (n # p) node =
    (if p = [] then insert_final es n node
     else case map_of es n of
            None \<Rightarrow> (fst (insert_at [] p node), bt_insert n (Directory (Dir default_metadata [] (snd (insert_at [] p node)))) es)
          | Some (Directory d) \<Rightarrow>
              (fst (insert_at (dir_entries d) p node),
               bt_insert n (Directory (Dir (dir_metadata d) (dir_xattrs d) (snd (insert_at (dir_entries d) p node)))) es)
          | Some _ \<Rightarrow> (Inl (NotADirectory n), es))"
  by (cases p) (simp_all add: new_directory_def case_prod_beta split: option.split TreeNode.split)

lemma bt_insert_same: "bt_wf es \<Longrightarrow> map_of es k = Some v \<Longrightarrow> bt_insert k v es = es"
  by (induction es) (fastforce simp: bt_wf_Cons dest: map_of_SomeD less_asym split: if_splits)+

lemma insert_at_empty: "p \<noteq> [] \<Longrightarrow> fst (insert_at [] p node) = Inr ()"
  by (induction p) (auto simp: insert_at_Cons insert_final_def)

lemma insert_error_same: "ents_ok es \<Longrightarrow> fst (insert_at es p node) = Inl e \<Longrightarrow> snd (insert_at es p node) = es"
proof (induction p arbitrary: es)
  case (Cons n p)
  have d: "snd (insert_at (dir_entries d) p node) = dir_entries d"
    if "map_of es n = Some (Directory d)" "fst (insert_at (dir_entries d) p node) = Inl e" for d
    using Cons.IH that ents_ok_get [OF Cons.prems(1) that(1)] by simp
  show ?case
  proof (cases "p = []")
    case True
    then show ?thesis using Cons.prems
      by (auto simp: insert_at_Cons insert_final_def split: option.splits TreeNode.splits)
  next
    case False
    then show ?thesis using Cons.prems d insert_at_empty [OF False, of node] bt_insert_same [OF ents_ok_wf [OF Cons.prems(1)]]
      by (auto simp: insert_at_Cons split: option.splits TreeNode.splits)
  qed
qed simp

text \<open>The view after a successful insertion: the node at its path, default directories on the way where
  nothing was, below the path the node's own contents, or the directory's that was there; all else as before.\<close>

definition inserted :: "tree_view \<Rightarrow> u8 list list \<Rightarrow> TreeNode \<Rightarrow> tree_view" where
  "inserted before p node q =
     (if q = p then Some (shape node)
      else if strict_prefix q p \<and> q \<noteq> [] \<and> before q = None then Some (Directory (new_directory default_metadata))
      else if strict_prefix p q \<and> \<not> (\<exists>d. before p = Some (Directory d)) then
        (case node of Directory d \<Rightarrow> view (dir_entries d) (drop (length p) q) | _ \<Rightarrow> None)
      else before q)"

lemma inserted_elsewhere: "q = [] \<or> hd q \<noteq> n \<Longrightarrow> before [] = None \<Longrightarrow> inserted before (n # p) node q = before q"
  by (cases q) (auto simp: inserted_def strict_prefix_def)

lemma insert_final_cases:
  assumes "insert_final es n node = (Inr (), es')"
  obtains (again) old new where "map_of es n = Some (Directory old)" "node = Directory new"
      "es' = bt_insert n (Directory (Dir (dir_metadata new) (dir_xattrs new) (dir_entries old))) es"
    | (fresh) "\<nexists>old. map_of es n = Some (Directory old)" "es' = bt_insert n node es"
proof (cases "\<exists>old. map_of es n = Some (Directory old)")
  case True
  then show ?thesis using assms again by (cases node) (auto simp: insert_final_def)
next
  case False
  then show ?thesis using assms fresh
    by (cases "map_of es n"; cases "the (map_of es n)") (auto simp: insert_final_def)
qed

lemma inserted_final:
  assumes "insert_final es n node = (Inr (), es')"
  shows "view es' q = inserted (view es) [n] node q"
proof (cases "q = [] \<or> hd q \<noteq> n")
  case True
  from assms have "view es' q = view es q"
    using True by (cases rule: insert_final_cases; cases q) (simp_all add: view_Cons)
  then show ?thesis using True by (simp add: inserted_elsewhere)
next
  case False
  then obtain q' where q: "q = n # q'" by (cases q) auto
  from assms show ?thesis
  proof (cases rule: insert_final_cases)
    case again
    then show ?thesis by (simp add: q view_Cons inserted_def shape_def)
  next
    case fresh
    then have "\<nexists>d. view es [n] = Some (Directory d)"
      by (auto simp: view_Cons shape_def split: TreeNode.splits)
    then show ?thesis by (simp add: q fresh(2) view_Cons [of "bt_insert n node es"] inserted_def strict_prefix_def split: TreeNode.split)
  qed
qed

lemma inserted_step:
  assumes "p \<noteq> []"
    and "\<And>q. sub q = inserted below p node q" and "below [] = None"
    and "\<And>q. q \<noteq> [] \<Longrightarrow> below q = before (n # q)"
    and "before [n] = None \<Longrightarrow> here = Directory (new_directory default_metadata)"
    and "before [n] \<noteq> None \<Longrightarrow> before [n] = Some here"
  shows "(if q = [] then Some here else sub q) = inserted before (n # p) node (n # q)"
proof (cases "q = []")
  case True
  then show ?thesis using assms(1,5,6) by (cases "before [n]") (auto simp: inserted_def strict_prefix_def)
next
  case False
  then show ?thesis using assms(1-4) by (simp add: inserted_def cong: TreeNode.case_cong)
qed

lemma insert_at_view:
  assumes "insert_at es p node = (Inr (), es')"
  shows "view es' q = inserted (view es) p node q"
  using assms
proof (induction p arbitrary: es es' q)
  case (Cons n p)
  show ?case
  proof (cases "p = []")
    case True
    then show ?thesis using Cons.prems inserted_final by (simp add: insert_at_Cons)
  next
    case False
    define d where "d = (case map_of es n of Some (Directory d) \<Rightarrow> d | _ \<Rightarrow> new_directory default_metadata)"
    have m: "map_of es n = None \<and> d = new_directory default_metadata \<or> map_of es n = Some (Directory d)"
      and sub: "insert_at (dir_entries d) p node = (Inr (), snd (insert_at (dir_entries d) p node))"
      and es': "es' = bt_insert n (Directory (Dir (dir_metadata d) (dir_xattrs d) (snd (insert_at (dir_entries d) p node)))) es"
      using Cons.prems False
      by (auto simp: insert_at_Cons d_def new_directory_def prod_eq_iff split: option.splits TreeNode.splits)
    show ?thesis
    proof (cases "q = [] \<or> hd q \<noteq> n")
      case True
      then show ?thesis by (cases q) (auto simp: inserted_elsewhere es' view_Cons)
    next
      case other: False
      then obtain q' where q: "q = n # q'" by (cases q) auto
      have "view es' q = (if q' = [] then Some (shape (Directory d)) else view (snd (insert_at (dir_entries d) p node)) q')"
        by (simp add: q es' view_Cons shape_def)
      also have "\<dots> = inserted (view es) (n # p) node (n # q')"
        by (rule inserted_step [OF False Cons.IH [OF sub]])
          (use m in \<open>auto simp: view_Cons shape_def new_directory_def\<close>)
      finally show ?thesis by (simp add: q)
    qed
  qed
qed simp

text \<open>C14. Inserting by path: an error leaves the tree as it was. A success puts the node at its path,
  makes the missing directories on the way with default metadata, keeps the entries of a directory
  that is inserted again, and changes nothing else.\<close>

theorem tree_insert_exact:
  assumes "ents_ok (dir_entries root)"
  shows "case tree_insert root path node of
      (Inl e, root') \<Rightarrow> root' = root
    | (Inr _, root') \<Rightarrow> \<exists>p. split_path path = Inr p \<and> dir_metadata root' = dir_metadata root \<and> dir_xattrs root' = dir_xattrs root \<and>
        view (dir_entries root') = inserted (view (dir_entries root)) p node"
proof (cases "split_path path")
  case (Inr p)
  obtain r es where i: "insert_at (dir_entries root) p node = (r, es)" by (cases "insert_at (dir_entries root) p node")
  show ?thesis
  proof (cases r)
    case (Inl e)
    then show ?thesis using insert_error_same [OF assms, of p node e] i by (cases root) (simp add: tree_insert_def Inr)
  next
    case (Inr u)
    then show ?thesis using insert_at_view [of "dir_entries root" p node es] i \<open>split_path path = Inr p\<close>
      by (auto simp: tree_insert_def)
  qed
qed (simp add: tree_insert_def)

text \<open>Removal returns the node at the path and removes it with all below it.\<close>

lemma remove_at_Cons:
  "remove_at es (n # p) =
    (if p = [] then (map_of es n, bt_remove n es)
     else case map_of es n of
            Some (Directory d) \<Rightarrow>
              (fst (remove_at (dir_entries d) p), bt_insert n (Directory (Dir (dir_metadata d) (dir_xattrs d) (snd (remove_at (dir_entries d) p)))) es)
          | _ \<Rightarrow> (None, es))"
  by (cases p) (simp_all add: case_prod_beta split: option.split TreeNode.split)

lemma remove_at_view:
  "fst (remove_at es p) = get_at es p \<and>
   view (snd (remove_at es p)) q = (if p \<noteq> [] \<and> prefix p q then None else view es q)"
proof (induction p arbitrary: es q)
  case (Cons n p)
  show ?case
    by (cases q) (auto simp: remove_at_Cons get_at_Cons view_Cons Cons.IH shape_def split: option.split TreeNode.split)
qed simp

lemma tree_remove_exact:
  "fst (tree_remove root path) = tree_get root path"
  "split_path path = Inr p \<Longrightarrow> view (dir_entries (snd (tree_remove root path))) q = (if prefix p q then None else view (dir_entries root) q)"
proof -
  show "fst (tree_remove root path) = tree_get root path"
    using remove_at_view [of "dir_entries root"] by (simp add: tree_remove_def tree_get_def case_prod_beta split: sum.split)
  assume p: "split_path path = Inr p"
  then have "p \<noteq> []" by (auto simp: split_path_def Let_def split: if_splits)
  then show "view (dir_entries (snd (tree_remove root path))) q = (if prefix p q then None else view (dir_entries root) q)"
    using remove_at_view [of "dir_entries root" p q] by (simp add: tree_remove_def p case_prod_beta)
qed

section \<open>Reading back the spool\<close>

definition tidy :: "DataSpool \<Rightarrow> bool" where
  "tidy sp \<longleftrightarrow> sp_cursor sp = length (sp_bytes sp) \<and> sp_offset sp = length (sp_bytes sp)"

lemma tidy_new: "tidy (new_spool host i)"
  by (simp add: tidy_def new_spool_def)

lemma tidy_write:
  assumes "tidy sp" and "spool_write_data sp data = (Inr d, sp')"
  shows "tidy sp'" "sp_bytes sp' = sp_bytes sp @ data" "sp_id sp' = sp_id sp" "d = Spool (sp_id sp) (length (sp_bytes sp)) (length data)"
  using assms by (auto simp: tidy_def spool_write_data_def spool_write_all_def spool_put_def Let_def split: option.splits)

lemma copy_chunks_exact:
  assumes "sp_cursor sp + remaining \<le> length (sp_bytes sp)"
  shows "\<exists>sp'. copy_chunks sp remaining out = (True, out @ take remaining (drop (sp_cursor sp) (sp_bytes sp)), sp')"
  using assms
proof (induction sp remaining out rule: copy_chunks.induct)
  case (1 sp remaining out)
  show ?case
  proof (cases "remaining = 0")
    case False
    let ?n = "min remaining 65536" and ?rest = "drop (sp_cursor sp) (sp_bytes sp)"
    let ?sp = "sp\<lparr>sp_cursor := sp_cursor sp + ?n\<rparr>"
    have r: "spool_read_exact sp ?n = (Some (take ?n ?rest), ?sp)"
      using 1(2) by (auto simp: spool_read_exact_def Let_def min_def)
    have "\<exists>sp'. copy_chunks ?sp (remaining - ?n) (out @ take ?n ?rest) =
        (True, (out @ take ?n ?rest) @ take (remaining - ?n) (drop (sp_cursor ?sp) (sp_bytes ?sp)), sp')"
      using 1(2) False by (intro 1(1) [OF False refl r [symmetric] refl]) auto
    moreover have "take ?n ?rest @ take (remaining - ?n) (drop (sp_cursor ?sp) (sp_bytes ?sp)) = take remaining ?rest"
      using take_add [of ?n "remaining - ?n" ?rest] by (simp add: add.commute)
    ultimately show ?thesis using False r by (subst copy_chunks.simps) (simp add: Let_def)
  qed (simp add: copy_chunks.simps)
qed

fun spool_all :: "DataSpool \<Rightarrow> u8 list list \<Rightarrow> (IoError + FileData list) \<times> DataSpool" where
  "spool_all sp [] = (Inr [], sp)"
| "spool_all sp (data # rest) =
     (case spool_write_data sp data of
        (Inl e, sp) \<Rightarrow> (Inl e, sp)
      | (Inr d, sp) \<Rightarrow> (case spool_all sp rest of (Inl e, sp) \<Rightarrow> (Inl e, sp) | (Inr ds, sp) \<Rightarrow> (Inr (d # ds), sp)))"

lemma spool_all_regions:
  assumes "tidy sp" and "spool_all sp files = (Inr ds, sp')"
  shows "\<exists>more. sp_bytes sp' = sp_bytes sp @ more \<and> length ds = length files \<and>
    (\<forall>i < length files. \<exists>off. ds ! i = Spool (sp_id sp) off (length (files ! i)) \<and>
       off + length (files ! i) \<le> length (sp_bytes sp') \<and> take (length (files ! i)) (drop off (sp_bytes sp')) = files ! i)"
  using assms
proof (induction files arbitrary: sp ds)
  case (Cons data files)
  obtain d sp1 ds1 where w: "spool_write_data sp data = (Inr d, sp1)" and a: "spool_all sp1 files = (Inr ds1, sp')" "ds = d # ds1"
    using Cons.prems(2) by (auto split: prod.splits sum.splits)
  note t = tidy_write [OF Cons.prems(1) w]
  from Cons.IH [OF t(1) a(1)] obtain more where m: "sp_bytes sp' = (sp_bytes sp @ data) @ more" "length ds1 = length files"
    "\<forall>i < length files. \<exists>off. ds1 ! i = Spool (sp_id sp) off (length (files ! i)) \<and>
       off + length (files ! i) \<le> length (sp_bytes sp') \<and> take (length (files ! i)) (drop off (sp_bytes sp')) = files ! i"
    unfolding t(2,3) by blast
  then show ?case
    by (auto simp: a(2) t(4) nth_Cons split: nat.split)
qed simp

text \<open>Data spooled while a layer is read comes back unchanged: whatever files were written to the
  spool one after another without an error, both \<^verbatim>\<open>read_all\<close> and the chunked \<^verbatim>\<open>write_to\<close> give each file's bytes, and
  the copy always ends.\<close>

theorem spool_reads_back:
  assumes "spool_all (new_spool host j) files = (Inr ds, sp)" and "i < length files"
  shows "fst (read_all sp (ds ! i)) = Some (files ! i) \<and>
    (\<exists>sp'. write_to sp (ds ! i) out = Some (True, out @ files ! i, sp'))"
proof -
  from spool_all_regions [OF tidy_new assms(1)] assms(2) obtain off where o:
    "ds ! i = Spool (sp_id (new_spool host j)) off (length (files ! i))" "off + length (files ! i) \<le> length (sp_bytes sp)"
    "take (length (files ! i)) (drop off (sp_bytes sp)) = files ! i" by auto
  then show ?thesis
    using copy_chunks_exact [of "sp\<lparr>sp_cursor := off\<rparr>" "length (files ! i)" out]
    by (simp add: write_to_def spool_read_exact_def Let_def)
qed

text \<open>A read between two writes moves the shared cursor: the next write goes to the wrong place, and what
  it returns refers to a region of the file that was never written.\<close>

lemma read_moves_writes:
  "let (a, sp) = spool_write_data (new_spool (\<lambda>_. None) 0) [1, 2]; (b, sp) = spool_write_data sp [3, 4];
       (_, sp) = read_all sp (projr a); (c, sp) = spool_write_data sp [5, 6]
   in fst (read_all sp (projr b)) = Some [5, 6] \<and> fst (read_all sp (projr c)) = None"
  by code_simp

section \<open>Concrete trees\<close>

definition sample_file :: "nat \<Rightarrow> TreeNode" where
  "sample_file i = RegularFile \<lparr>rf_id = i, rf_metadata = default_metadata, rf_xattrs = [], rf_data = Memory [7], rf_nlink = 9\<rparr>"

definition whiteout :: TreeNode where
  "whiteout = CharDevice \<lparr>dv_metadata = default_metadata, dv_major = 0, dv_minor = 0\<rparr>"

definition dir_of :: "entries \<Rightarrow> DirectoryNode" where
  "dir_of es = Dir default_metadata [] es"

definition lower_layer :: DirectoryNode where
  "lower_layer = dir_of [([97], sample_file 1), ([98], Directory (dir_of [([99], sample_file 2), ([100], sample_file 2)]))]"

definition upper_layer :: DirectoryNode where
  "upper_layer = dir_of [([97], whiteout), ([98], Directory (dir_of [([99], whiteout), ([101], sample_file 3)]))]"

lemmas sample_simps = lower_layer_def upper_layer_def dir_of_def sample_file_def whiteout_def is_whiteout_device_def
  WHITEOUT_MAJOR_def WHITEOUT_MINOR_def has_opaque_xattr_def lower_entries_def bt_remove_def

lemma sample_layers_ok: "layers_ok [lower_layer, upper_layer]" "layers_dotless [lower_layer, upper_layer]"
  by (simp_all add: layers_ok_def layers_dotless_def sample_simps)

lemma sample_not_left: "left_behind [lower_layer, upper_layer] [[98], [99]] w \<Longrightarrow> \<not> is_whiteout_device w"
proof -
  have f: "fresh_device es below [[98], [99]] w \<longleftrightarrow>
      get_at es [[98], [99]] = Some w \<and> (shows_dir below [[98]] \<longrightarrow> opaque_above es [[98]])" for es below
    by (auto simp: fresh_device_def append_eq_Cons_conv)
  show "left_behind [lower_layer, upper_layer] [[98], [99]] w \<Longrightarrow> \<not> is_whiteout_device w"
    by (auto simp: left_behind_def less_Suc_eq f stacked_def shows_dir_def sample_simps shape_def)
qed

theorem layers_overlaid_witness:
  "view (dir_entries (fst (merge_layers_with_provenance [lower_layer, upper_layer]))) [[98], [99]] = None \<and>
   consumed (view (dir_entries (fst (merge_layers_with_provenance [lower_layer, upper_layer])))) [[98], [101]] \<noteq> None"
proof -
  note o = layers_overlaid [OF sample_layers_ok(1) refl]
  have "stacked [lower_layer, upper_layer] [[98], [99]] = None" "stacked [lower_layer, upper_layer] [[98], [101]] \<noteq> None"
    by (simp_all add: stacked_def sample_simps shape_def)
  then show ?thesis using o [of "[[98], [99]]"] o [of "[[98], [101]]"] sample_not_left
    by (fastforce simp: consumed_def split: option.splits if_splits)
qed

lemma sample_merge:
  "get_at (dir_entries (fst (merge_layers_with_provenance [lower_layer, upper_layer]))) [[98], [100]] =
     Some (linked [2 \<mapsto> 1, 3 \<mapsto> 1] (sample_file 2))"
  by (simp add: merge_layers_with_provenance_def new_tree_def new_directory_def sample_simps merge_prov.simps(2) record_provenance.simps(2) Let_def
    strip_opaque_xattrs_def refresh_regular_nlinks_def regular_file_link_counts_def linked_def drop_under_def path_key_def)


lemma sample_link:
  "get_at (dir_entries (merge_layer (dir_of []) lower_layer)) [[98], [99]] = Some (linked [1 \<mapsto> 1, 2 \<mapsto> 2] (sample_file 2))"
  by (simp add: merge_layer_def merge_directory_def sample_simps merge_entries.simps(2) refresh_regular_nlinks_def
    regular_file_link_counts_def linked_def)

theorem link_counts_exact_witness:
  "of_nat (card (links (dir_entries (merge_layer (dir_of []) lower_layer)) 2)) = (2 :: u32)"
  using link_counts_exact [of "dir_of []" lower_layer "[[98], [99]]"] sample_link
  by (simp add: linked_def sample_simps)

theorem tree_insert_exact_witness:
  "view (dir_entries (snd (tree_insert lower_layer [98, 47, 120, 47, 121] (sample_file 5)))) [[98], [120]] =
     Some (Directory (new_directory default_metadata))"
  using tree_insert_exact [of lower_layer "[98, 47, 120, 47, 121]" "sample_file 5"]
  by (simp add: tree_insert_def split_path_def insert_final_def sample_simps inserted_def view_Cons new_directory_def)

text \<open>A directory that is new to the merge keeps the whiteouts inside it: they are in the result.\<close>

lemma nested_whiteout_kept:
  "get_at (dir_entries (fst (merge_layers_with_provenance [dir_of [([98], Directory (dir_of [([99], whiteout)]))]]))) [[98], [99]] =
     Some whiteout"
  by (simp add: merge_layers_with_provenance_def new_tree_def new_directory_def sample_simps merge_prov.simps(2) record_provenance.simps(2) Let_def
    strip_opaque_xattrs_def refresh_regular_nlinks_def regular_file_link_counts_def)

text \<open>A file that replaces a directory leaves the provenance of the directory's files behind.\<close>

lemma replaced_directory_provenance:
  "let (t, prov) = merge_layers_with_provenance [lower_layer, dir_of [([98], sample_file 4)]]
   in prov [[98], [99]] = Some 0 \<and> get_at (dir_entries t) [[98], [99]] = None"
  by (simp add: merge_layers_with_provenance_def new_tree_def new_directory_def sample_simps merge_prov.simps(2) record_provenance.simps(2) Let_def
    strip_opaque_xattrs_def refresh_regular_nlinks_def regular_file_link_counts_def drop_under_def path_key_def)

text \<open>A whiteout called \<^verbatim>\<open>.\<close> (from a tar entry \<^verbatim>\<open>.wh..\<close>) hides nothing, but the provenance of every file of
  its directory is dropped: \<^verbatim>\<open>a/.\<close> and \<^verbatim>\<open>a\<close> are the same \<^verbatim>\<open>PathBuf\<close>.\<close>

lemma dot_whiteout_provenance:
  "let (t, prov) = merge_layers_with_provenance
         [dir_of [([97], Directory (dir_of [([98], sample_file 1)]))], dir_of [([97], Directory (dir_of [([46], whiteout)]))]]
   in get_at (dir_entries t) [[97], [98]] \<noteq> None \<and> prov [[97], [98]] = None"
  by (simp add: merge_layers_with_provenance_def new_tree_def new_directory_def sample_simps merge_prov.simps(2) record_provenance.simps(2) Let_def
    strip_opaque_xattrs_def refresh_regular_nlinks_def regular_file_link_counts_def drop_under_def path_key_def)

end
