(* ===== verification/Image_Ingest.thy ===== *)
theory Image_Ingest
  imports Image_Merge
begin

text \<open>
  Reading a layer's tar stream into a file tree (\<^verbatim>\<open>crates/image/lib/tar/ingest.rs\<close>). The tar reader is a
  third-party library: an archive is the list of what it yields, each entry with the results of its
  accessors, its body and what each poll of the body does: fail, or deliver a number of bytes. A size
  fits the 64-bit \<^verbatim>\<open>usize\<close>.
  Text in errors is kept as the bytes it is made from, and \<^verbatim>\<open>HardlinkNotRegular\<close> is \<^verbatim>\<open>HardlinkTarget\<close>
  with the message for a target that is no regular file.
\<close>

section \<open>Types\<close>

datatype Compression = Uncompressed | Gzip | Zstd

datatype IngestError =
    Io IoError
  | PathTraversal "u8 list"
  | PathTooLong "u8 list"
  | PathTooDeep "u8 list"
  | FileTooLarge "u8 list"
  | TotalSizeExceeded
  | EntryCountExceeded
  | SymlinkTargetTooLong "u8 list"
  | HardlinkTarget "u8 list"
  | HardlinkNotRegular "u8 list"
  | InvalidEntry string
  | Tree FileTreeError

datatype WhiteoutKind = NoWhiteout | Opaque | FileWhiteout "u8 list"

record ResourceLimits =
  max_total_size :: nat
  max_file_size :: nat
  max_entry_count :: nat
  max_path_length :: nat
  max_path_depth :: nat
  max_symlink_target :: nat

definition default_limits :: ResourceLimits where
  "default_limits = \<lparr>max_total_size = 10 * 1024 * 1024 * 1024, max_file_size = 5 * 1024 * 1024 * 1024,
     max_entry_count = 1000000, max_path_length = 4096, max_path_depth = 128, max_symlink_target = 4096\<rparr>"

datatype EntryType =
    TRegular | TContinuous | TLink | TSymlink | TChar | TBlock | TDirectory | TFifo
  | TGNULongName | TGNULongLink | TGNUSparse | TXGlobalHeader | TXHeader | TOther u8

record TarEntry =
  te_path :: "IoError + u8 list"
  te_type :: EntryType
  te_uid :: "IoError + nat"
  te_gid :: "IoError + nat"
  te_mode :: "IoError + u32"
  te_mtime :: "IoError + nat"
  te_link :: "IoError + u8 list option"
  te_size :: "IoError + nat"
  te_major :: "IoError + u32 option"
  te_minor :: "IoError + u32 option"
  te_body :: "u8 list"
  te_polls :: "nat \<Rightarrow> IoError + nat"

definition SPOOL_THRESHOLD :: nat where "SPOOL_THRESHOLD = 64 * 1024"
definition ENTRY_READ_CHUNK_SIZE :: nat where "ENTRY_READ_CHUNK_SIZE = 64 * 1024"
definition SPOOL_WRITE_BUFFER_SIZE :: nat where "SPOOL_WRITE_BUFFER_SIZE = 1024 * 1024"

text \<open>\<^verbatim>\<open>.wh.\<close> and \<^verbatim>\<open>.wh..wh..opq\<close>.\<close>

definition WHITEOUT_PREFIX :: "u8 list" where "WHITEOUT_PREFIX = [46, 119, 104, 46]"
definition OPAQUE_WHITEOUT :: "u8 list" where
  "OPAQUE_WHITEOUT = [46, 119, 104, 46, 46, 119, 104, 46, 46, 111, 112, 113]"

definition GZIP_MAGIC :: "u8 list" where "GZIP_MAGIC = [0x1F, 0x8B]"
definition ZSTD_MAGIC :: "u8 list" where "ZSTD_MAGIC = [0x28, 0xB5, 0x2F, 0xFD]"

definition from_media_type :: "string \<Rightarrow> Compression" where
  "from_media_type media_type =
     (if sublist ''gzip'' media_type then Gzip else if sublist ''zstd'' media_type then Zstd else Uncompressed)"

definition detect :: "u8 list \<Rightarrow> Compression" where
  "detect magic =
     (if 4 \<le> length magic \<and> take 4 magic = ZSTD_MAGIC then Zstd
      else if 2 \<le> length magic \<and> take 2 magic = GZIP_MAGIC then Gzip
      else Uncompressed)"

text \<open>The question mark, where an error ends the ingestion and nothing of its state is kept.\<close>

definition and_then :: "'e + 'a \<Rightarrow> ('a \<Rightarrow> 'e + 'b) \<Rightarrow> 'e + 'b" where
  "and_then r k = (case r of Inl e \<Rightarrow> Inl e | Inr a \<Rightarrow> k a)"

definition map_err :: "('e \<Rightarrow> 'f) \<Rightarrow> 'e + 'a \<Rightarrow> 'f + 'a" where
  "map_err f r = (case r of Inl e \<Rightarrow> Inl (f e) | Inr a \<Rightarrow> Inr a)"

definition unwrap_or :: "'e + 'a \<Rightarrow> 'a \<Rightarrow> 'a" where
  "unwrap_or r d = (case r of Inl _ \<Rightarrow> d | Inr a \<Rightarrow> a)"

section \<open>Paths\<close>

definition strip_dot_slash :: "u8 list \<Rightarrow> u8 list" where
  "strip_dot_slash path = (if prefix [46, 47] path then drop 2 path else if path = [46] then [] else path)"

definition strip_leading_slashes :: "u8 list \<Rightarrow> u8 list" where
  "strip_leading_slashes path = dropWhile (\<lambda>b. b = 47) path"

definition strip_trailing_slashes :: "u8 list \<Rightarrow> u8 list" where
  "strip_trailing_slashes path = rev (dropWhile (\<lambda>b. b = 47) (rev path))"

text \<open>The loop over the components: a parent reference ends it, the others are counted.\<close>

fun count_depth :: "u8 list list \<Rightarrow> nat \<Rightarrow> nat option" where
  "count_depth [] depth = Some depth"
| "count_depth (component # rest) depth =
     (if component = [] then count_depth rest depth
      else if component = [46, 46] then None
      else count_depth rest (depth + 1))"

definition normalize_path :: "u8 list \<Rightarrow> ResourceLimits \<Rightarrow> IngestError + u8 list option" where
  "normalize_path raw limits =
     (let path = strip_trailing_slashes (strip_leading_slashes (strip_dot_slash raw)) in
      if path = [] then Inr None
      else case count_depth (split_slash [] path) 0 of
             None \<Rightarrow> Inl (PathTraversal path)
           | Some depth \<Rightarrow>
               if max_path_length limits < length path then Inl (PathTooLong path)
               else if max_path_depth limits < depth then Inl (PathTooDeep path)
               else Inr (Some path))"

text \<open>\<^verbatim>\<open>rposition\<close> of the slash.\<close>

fun rposition_slash :: "u8 list \<Rightarrow> nat option" where
  "rposition_slash [] = None"
| "rposition_slash (b # bs) =
     (case rposition_slash bs of Some pos \<Rightarrow> Some (Suc pos) | None \<Rightarrow> if b = 47 then Some 0 else None)"

definition path_filename :: "u8 list \<Rightarrow> u8 list" where
  "path_filename path = (case rposition_slash path of Some pos \<Rightarrow> drop (pos + 1) path | None \<Rightarrow> path)"

definition path_parent :: "u8 list \<Rightarrow> u8 list" where
  "path_parent path = (case rposition_slash path of Some pos \<Rightarrow> take pos path | None \<Rightarrow> [])"

definition replace_filename :: "u8 list \<Rightarrow> u8 list \<Rightarrow> u8 list" where
  "replace_filename path new_name =
     (let parent = path_parent path in if parent = [] then new_name else parent @ [47] @ new_name)"

definition classify_whiteout :: "u8 list \<Rightarrow> WhiteoutKind" where
  "classify_whiteout filename =
     (if filename = OPAQUE_WHITEOUT then Opaque
      else if prefix WHITEOUT_PREFIX filename then
        let real_name = drop (length WHITEOUT_PREFIX) filename
        in if real_name = [] then NoWhiteout else FileWhiteout real_name
      else NoWhiteout)"

definition extract_metadata :: "TarEntry \<Rightarrow> InodeMetadata" where
  "extract_metadata entry =
     \<lparr>md_uid = of_nat (unwrap_or (te_uid entry) 0), md_gid = of_nat (unwrap_or (te_gid entry) 0),
      md_mode = ucast (unwrap_or (te_mode entry) 0x1A4 AND 0xFFF), md_mtime = unwrap_or (te_mtime entry) 0,
      md_mtime_nsec = 0\<rparr>"

section \<open>Reading bodies\<close>

lemma and_then_cong [fundef_cong]:
  "r = r' \<Longrightarrow> (\<And>a. r' = Inr a \<Longrightarrow> k a = k' a) \<Longrightarrow> and_then r k = and_then r' k'"
  by (cases r') (simp_all add: and_then_def)

text \<open>A poll that does not fail delivers at least a byte while the body has any, and at most what was
  asked for.\<close>

definition poll_read :: "(nat \<Rightarrow> IoError + nat) \<Rightarrow> nat \<Rightarrow> nat \<Rightarrow> u8 list \<Rightarrow> IoError + u8 list" where
  "poll_read polls k to_read body = and_then (polls k) (\<lambda>m. Inr (take (min to_read (max 1 m)) body))"

function read_loop :: "(nat \<Rightarrow> IoError + nat) \<Rightarrow> nat \<Rightarrow> u8 list \<Rightarrow> nat \<Rightarrow> u8 list \<Rightarrow> IngestError + u8 list" where
  "read_loop polls k body remaining data =
     (if remaining = 0 then Inr data
      else let to_read = min remaining ENTRY_READ_CHUNK_SIZE in
           and_then (map_err Io (poll_read polls k to_read body)) (\<lambda>got.
             if got = [] then Inl (Io UnexpectedEof)
             else read_loop polls (k + 1) (drop (length got) body) (remaining - length got) (data @ got)))"
  by pat_completeness auto
termination by (relation "measure (\<lambda>(polls, k, body, remaining, data). remaining)") auto

declare read_loop.simps [simp del]

definition read_entry_to_memory :: "TarEntry \<Rightarrow> nat \<Rightarrow> IngestError + u8 list" where
  "read_entry_to_memory entry n = read_loop (te_polls entry) 0 (te_body entry) n []"

text \<open>\<^verbatim>\<open>read_exact\<close> polls until the buffer is full; it returns the bytes, the next poll and the rest of the
  body.\<close>

function read_exact :: "(nat \<Rightarrow> IoError + nat) \<Rightarrow> nat \<Rightarrow> u8 list \<Rightarrow> nat \<Rightarrow> u8 list \<Rightarrow> IoError + u8 list \<times> nat \<times> u8 list" where
  "read_exact polls k body n data =
     (if n = 0 then Inr (data, k, body)
      else and_then (poll_read polls k n body) (\<lambda>got.
             if got = [] then Inl UnexpectedEof
             else read_exact polls (k + 1) (drop (length got) body) (n - length got) (data @ got)))"
  by pat_completeness auto
termination by (relation "measure (\<lambda>(polls, k, body, n, data). n)") auto

declare read_exact.simps [simp del]

text \<open>A flush of the write buffer to the spool.\<close>

definition flush_chunk :: "DataSpool \<Rightarrow> u8 list \<Rightarrow> IngestError + DataSpool" where
  "flush_chunk sp write_buf = (case write_chunk sp write_buf of (Inl e, _) \<Rightarrow> Inl (Io e) | (Inr _, sp) \<Rightarrow> Inr sp)"

function stream_loop ::
  "(nat \<Rightarrow> IoError + nat) \<Rightarrow> nat \<Rightarrow> u8 list \<Rightarrow> nat \<Rightarrow> DataSpool \<Rightarrow> u8 list \<Rightarrow> IngestError + u8 list \<times> DataSpool" where
  "stream_loop polls k body remaining sp write_buf =
     (if remaining = 0 then Inr (write_buf, sp)
      else let to_read = min remaining ENTRY_READ_CHUNK_SIZE in
           and_then (map_err Io (read_exact polls k body to_read [])) (\<lambda>(read_buf, k, body).
           and_then (if SPOOL_WRITE_BUFFER_SIZE < length write_buf + to_read \<and> write_buf \<noteq> []
                     then and_then (flush_chunk sp write_buf) (\<lambda>sp. Inr (sp, [])) else Inr (sp, write_buf)) (\<lambda>(sp, write_buf).
             stream_loop polls k body (remaining - to_read) sp (write_buf @ read_buf))))"
  by pat_completeness auto
termination
  by (relation "measure (\<lambda>(polls, k, body, remaining, sp, write_buf). remaining)") (auto simp: ENTRY_READ_CHUNK_SIZE_def)

declare stream_loop.simps [simp del]

definition stream_entry_to_spool :: "TarEntry \<Rightarrow> nat \<Rightarrow> DataSpool \<Rightarrow> IngestError + FileData \<times> DataSpool" where
  "stream_entry_to_spool entry n sp =
     (let offset = sp_offset sp in
      and_then (stream_loop (te_polls entry) 0 (te_body entry) n sp []) (\<lambda>(write_buf, sp).
      and_then (if write_buf \<noteq> [] then flush_chunk sp write_buf else Inr sp) (\<lambda>sp.
        Inr (data_ref sp offset n, sp))))"

section \<open>Changing the tree\<close>

text \<open>What \<^verbatim>\<open>get_mut\<close> gives access to, changed by a function.\<close>

fun update_at :: "entries \<Rightarrow> u8 list list \<Rightarrow> (TreeNode \<Rightarrow> TreeNode) \<Rightarrow> entries" where
  "update_at es [] f = es"
| "update_at es (n # p) f =
     (case map_of es n of
        None \<Rightarrow> es
      | Some node \<Rightarrow>
          if p = [] then bt_insert n (f node) es
          else case node of
                 Directory d \<Rightarrow> bt_insert n (Directory (Dir (dir_metadata d) (dir_xattrs d) (update_at (dir_entries d) p f))) es
               | _ \<Rightarrow> es)"

definition tree_update :: "DirectoryNode \<Rightarrow> u8 list \<Rightarrow> (TreeNode \<Rightarrow> TreeNode) \<Rightarrow> DirectoryNode" where
  "tree_update root path f =
     (case split_path path of
        Inl _ \<Rightarrow> root
      | Inr p \<Rightarrow> Dir (dir_metadata root) (dir_xattrs root) (update_at (dir_entries root) p f))"

text \<open>An insertion whose error ends the ingestion.\<close>

definition insert_node :: "DirectoryNode \<Rightarrow> u8 list \<Rightarrow> TreeNode \<Rightarrow> IngestError + DirectoryNode" where
  "insert_node tree path node =
     (case tree_insert tree path node of (Inl e, _) \<Rightarrow> Inl (Tree e) | (Inr _, tree) \<Rightarrow> Inr tree)"

definition add_opaque :: "DirectoryNode \<Rightarrow> DirectoryNode" where
  "add_opaque d =
     (if has_opaque_xattr d then d
      else Dir (dir_metadata d) (dir_xattrs d @ [\<lparr>xa_name = OPAQUE_XATTR_NAME, xa_value = OPAQUE_XATTR_VALUE\<rparr>]) (dir_entries d))"

definition opaque_node :: "TreeNode \<Rightarrow> TreeNode" where
  "opaque_node node = (case node of Directory d \<Rightarrow> Directory (add_opaque d) | _ \<Rightarrow> node)"

definition apply_opaque_xattr :: "DirectoryNode \<Rightarrow> u8 list \<Rightarrow> IngestError + DirectoryNode" where
  "apply_opaque_xattr tree path =
     (let parent = path_parent path in
      if parent = [] then Inr (add_opaque tree)
      else case tree_get tree parent of
             Some (Directory _) \<Rightarrow> Inr (tree_update tree parent opaque_node)
           | _ \<Rightarrow>
               and_then (insert_node tree parent (Directory (new_directory default_metadata))) (\<lambda>tree.
                 case tree_get tree parent of
                   Some (Directory _) \<Rightarrow> Inr (tree_update tree parent opaque_node)
                 | _ \<Rightarrow> Inl (InvalidEntry ''failed to create parent for opaque whiteout'')))"

text \<open>\<^verbatim>\<open>f.nlink + 1\<close> as it wraps in a release build.\<close>

definition share_file :: "RegularFileNode \<Rightarrow> RegularFileNode" where
  "share_file f = f\<lparr>rf_data := fst (clone_ref (rf_data f)), rf_nlink := rf_nlink f + 1\<rparr>"

definition share_node :: "TreeNode \<Rightarrow> TreeNode" where
  "share_node node = (case node of RegularFile f \<Rightarrow> RegularFile (share_file f) | _ \<Rightarrow> node)"

definition handle_hardlink :: "DirectoryNode \<Rightarrow> u8 list \<Rightarrow> u8 list \<Rightarrow> IngestError + DirectoryNode" where
  "handle_hardlink tree link_path target_path =
     (case tree_get tree target_path of
        Some (RegularFile f) \<Rightarrow>
          let new_nlink = rf_nlink f + 1;
              node = RegularFile \<lparr>rf_id = rf_id f, rf_metadata = rf_metadata f, rf_xattrs = rf_xattrs f,
                       rf_data = snd (clone_ref (rf_data f)), rf_nlink = new_nlink\<rparr>
          in insert_node (tree_update tree target_path share_node) link_path node
      | Some _ \<Rightarrow> Inl (HardlinkNotRegular target_path)
      | None \<Rightarrow> Inl (HardlinkTarget target_path))"

section \<open>The ingestion\<close>

record ingest_state =
  is_tree :: DirectoryNode
  is_count :: nat
  is_total :: nat
  is_saw_hardlink :: bool
  is_spool :: "DataSpool option"
  is_next_id :: nat

definition whiteout_node :: "InodeMetadata \<Rightarrow> TreeNode" where
  "whiteout_node metadata = CharDevice \<lparr>dv_metadata = metadata, dv_major = WHITEOUT_MAJOR, dv_minor = WHITEOUT_MINOR\<rparr>"

definition put_tree :: "ingest_state \<Rightarrow> IngestError + DirectoryNode \<Rightarrow> IngestError + ingest_state" where
  "put_tree st r = map_sum id (\<lambda>tree. st\<lparr>is_tree := tree\<rparr>) r"

definition ingest_link :: "ResourceLimits \<Rightarrow> TarEntry \<Rightarrow> u8 list \<Rightarrow> ingest_state \<Rightarrow> IngestError + ingest_state" where
  "ingest_link limits entry path st =
     and_then (map_err Io (te_link entry)) (\<lambda>link.
     and_then (ok_or link (InvalidEntry ''hardlink with no target'')) (\<lambda>link_target_bytes.
     and_then (normalize_path link_target_bytes limits) (\<lambda>target_path.
       case target_path of
         None \<Rightarrow> Inl (HardlinkTarget link_target_bytes)
       | Some target_path \<Rightarrow>
           and_then (put_tree st (handle_hardlink (is_tree st) path target_path)) (\<lambda>st.
             Inr (st\<lparr>is_saw_hardlink := True\<rparr>)))))"

definition ingest_symlink :: "ResourceLimits \<Rightarrow> TarEntry \<Rightarrow> u8 list \<Rightarrow> ingest_state \<Rightarrow> IngestError + ingest_state" where
  "ingest_symlink limits entry path st =
     and_then (map_err Io (te_link entry)) (\<lambda>link.
     and_then (ok_or link (InvalidEntry ''symlink with no target'')) (\<lambda>link_target.
       if max_symlink_target limits < length link_target then Inl (SymlinkTargetTooLong path)
       else put_tree st
         (case classify_whiteout (path_filename path) of
            Opaque \<Rightarrow> apply_opaque_xattr (is_tree st) path
          | FileWhiteout real_name \<Rightarrow>
              insert_node (is_tree st) (replace_filename path real_name) (whiteout_node (extract_metadata entry))
          | NoWhiteout \<Rightarrow>
              insert_node (is_tree st) path (Symlink \<lparr>sl_metadata = extract_metadata entry, sl_target = link_target\<rparr>))))"

definition file_data :: "TarEntry \<Rightarrow> nat \<Rightarrow> ingest_state \<Rightarrow> IngestError + FileData \<times> ingest_state" where
  "file_data entry n st =
     (case (SPOOL_THRESHOLD \<le> n, is_spool st) of
        (True, Some sp) \<Rightarrow>
          and_then (stream_entry_to_spool entry n sp) (\<lambda>(d, sp). Inr (d, st\<lparr>is_spool := Some sp\<rparr>))
      | _ \<Rightarrow> and_then (read_entry_to_memory entry n) (\<lambda>bytes. Inr (Memory bytes, st)))"

definition ingest_file :: "ResourceLimits \<Rightarrow> TarEntry \<Rightarrow> u8 list \<Rightarrow> ingest_state \<Rightarrow> IngestError + ingest_state" where
  "ingest_file limits entry path st =
     and_then (map_err Io (te_size entry)) (\<lambda>n.
       if max_file_size limits < n then Inl (FileTooLarge path)
       else let st = st\<lparr>is_total := saturating_add64 (is_total st) n\<rparr> in
         if max_total_size limits < is_total st then Inl TotalSizeExceeded
         else case classify_whiteout (path_filename path) of
                Opaque \<Rightarrow> put_tree st (apply_opaque_xattr (is_tree st) path)
              | FileWhiteout real_name \<Rightarrow>
                  put_tree st (insert_node (is_tree st) (replace_filename path real_name) (whiteout_node (extract_metadata entry)))
              | NoWhiteout \<Rightarrow>
                  and_then (file_data entry n st) (\<lambda>(data, st).
                    let node = RegularFile \<lparr>rf_id = is_next_id st, rf_metadata = extract_metadata entry, rf_xattrs = [],
                                 rf_data = data, rf_nlink = 1\<rparr>;
                        st = st\<lparr>is_next_id := fetch_add64 (is_next_id st) 1\<rparr>
                    in put_tree st (insert_node (is_tree st) path node)))"

definition device_numbers :: "TarEntry \<Rightarrow> IngestError + u32 \<times> u32" where
  "device_numbers entry =
     and_then (map_err Io (te_major entry)) (\<lambda>major.
     and_then (map_err Io (te_minor entry)) (\<lambda>minor.
       Inr (case major of None \<Rightarrow> 0 | Some m \<Rightarrow> m, case minor of None \<Rightarrow> 0 | Some m \<Rightarrow> m)))"

definition ingest_device :: "(DeviceNode \<Rightarrow> TreeNode) \<Rightarrow> TarEntry \<Rightarrow> u8 list \<Rightarrow> ingest_state \<Rightarrow> IngestError + ingest_state" where
  "ingest_device kind entry path st =
     and_then (device_numbers entry) (\<lambda>(major, minor).
       put_tree st (insert_node (is_tree st) path
         (kind \<lparr>dv_metadata = extract_metadata entry, dv_major = major, dv_minor = minor\<rparr>)))"

definition ingest_kind :: "ResourceLimits \<Rightarrow> TarEntry \<Rightarrow> u8 list \<Rightarrow> ingest_state \<Rightarrow> IngestError + ingest_state" where
  "ingest_kind limits entry path st =
     (case te_type entry of
        TLink \<Rightarrow> ingest_link limits entry path st
      | TDirectory \<Rightarrow> put_tree st (insert_node (is_tree st) path (Directory (Dir (extract_metadata entry) [] [])))
      | TSymlink \<Rightarrow> ingest_symlink limits entry path st
      | TRegular \<Rightarrow> ingest_file limits entry path st
      | TContinuous \<Rightarrow> ingest_file limits entry path st
      | TChar \<Rightarrow> ingest_device CharDevice entry path st
      | TBlock \<Rightarrow> ingest_device BlockDevice entry path st
      | TFifo \<Rightarrow> put_tree st (insert_node (is_tree st) path (Fifo (extract_metadata entry)))
      | TOther b \<Rightarrow>
          if b = 0x60 then put_tree st (insert_node (is_tree st) path (Socket (extract_metadata entry))) else Inr st
      | _ \<Rightarrow> Inr st)"

definition ingest_entry :: "ResourceLimits \<Rightarrow> IoError + TarEntry \<Rightarrow> ingest_state \<Rightarrow> IngestError + ingest_state" where
  "ingest_entry limits entry_result st =
     and_then (map_err Io entry_result) (\<lambda>entry.
       let st = st\<lparr>is_count := is_count st + 1\<rparr> in
       if max_entry_count limits < is_count st then Inl EntryCountExceeded
       else and_then (map_err Io (te_path entry)) (\<lambda>raw_path.
            and_then (normalize_path raw_path limits) (\<lambda>path.
              case path of None \<Rightarrow> Inr st | Some path \<Rightarrow> ingest_kind limits entry path st)))"

fun ingest_entries :: "ResourceLimits \<Rightarrow> (IoError + TarEntry) list \<Rightarrow> ingest_state \<Rightarrow> IngestError + ingest_state" where
  "ingest_entries limits [] st = Inr st"
| "ingest_entries limits (entry # rest) st = and_then (ingest_entry limits entry st) (ingest_entries limits rest)"

definition ingest_start :: "DataSpool option \<Rightarrow> nat \<Rightarrow> ingest_state" where
  "ingest_start spool next_id =
     \<lparr>is_tree = new_tree, is_count = 0, is_total = 0, is_saw_hardlink = False, is_spool = spool, is_next_id = next_id\<rparr>"

text \<open>\<^verbatim>\<open>next_id\<close> is the value of the process-wide file identity counter.\<close>

definition ingest_tar :: "ResourceLimits \<Rightarrow> (IoError + TarEntry) list \<Rightarrow> DataSpool option \<Rightarrow> nat \<Rightarrow> IngestError + DirectoryNode \<times> ingest_state" where
  "ingest_tar limits archive spool next_id =
     and_then (ingest_entries limits archive (ingest_start spool next_id)) (\<lambda>st.
       Inr (if is_saw_hardlink st then refresh_regular_nlinks (is_tree st) else is_tree st, st))"

end
