(* ===== verification/Ingest_Tree.thy ===== *)
theory Ingest_Tree
  imports Image_Ingest
begin

text \<open>
  What the ingestion of a layer's tar stream guarantees: exact path normalisation, bodies stored
  byte for byte, names, sizes and counts within the limits, whiteouts in the form the merge reads,
  and exact link counts.
\<close>

unbundle bit_operations_syntax

section \<open>Components of paths\<close>

definition comps :: "u8 list \<Rightarrow> u8 list list" where
  "comps path = filter (\<lambda>c. c \<noteq> []) (split_slash [] path)"

lemma split_slash_append: "split_slash acc (x @ 47 # y) = split_slash acc x @ split_slash [] y"
  by (induction acc x rule: split_slash.induct) auto

lemma split_slash_no: "47 \<notin> set x \<Longrightarrow> split_slash acc x = [acc @ x]"
  by (induction acc x rule: split_slash.induct) auto

lemma split_slash_free: "47 \<notin> set acc \<Longrightarrow> c \<in> set (split_slash acc x) \<Longrightarrow> 47 \<notin> set c"
  by (induction acc x rule: split_slash.induct) (auto split: if_splits)

lemma comps_join: "comps (x @ 47 # y) = comps x @ comps y"
  by (simp add: comps_def split_slash_append)

lemma comps_name: "47 \<notin> set x \<Longrightarrow> comps x = (if x = [] then [] else [x])"
  by (simp add: comps_def split_slash_no)

lemma comps_Nil [simp]: "comps [] = []"
  by (simp add: comps_def)

lemma comps_slash [simp]: "comps (47 # x) = comps x"
  by (simp add: comps_def)

lemma comps_names: "c \<in> set (comps x) \<Longrightarrow> c \<noteq> [] \<and> 47 \<notin> set c"
  using split_slash_free [of "[]" c x] by (auto simp: comps_def)

lemma comps_lead: "comps (strip_leading_slashes x) = comps x"
  unfolding strip_leading_slashes_def by (induction x) auto

lemma comps_trail: "comps (strip_trailing_slashes x) = comps x"
  unfolding strip_trailing_slashes_def
proof (induction x rule: rev_induct)
  case (snoc b x)
  then show ?case using comps_join [of x "[]"] by simp
qed simp

text \<open>The length of the path that joins the components with single slashes.\<close>

definition path_len :: "u8 list list \<Rightarrow> nat" where
  "path_len p = sum_list (map length p) + (length p - 1)"

lemma split_slash_len: "sum_list (map length (split_slash acc x)) + length (split_slash acc x) = length acc + length x + 1"
  by (induction acc x rule: split_slash.induct) auto

lemma filter_len: "sum_list (map length (filter (\<lambda>c. c \<noteq> []) cs)) = sum_list (map length cs)"
  by (induction cs) auto

lemma comps_len: "path_len (comps x) \<le> length x"
proof -
  have "length (comps x) \<le> length (split_slash [] x)" "sum_list (map length (comps x)) = sum_list (map length (split_slash [] x))"
    by (simp_all add: comps_def filter_len)
  then show ?thesis using split_slash_len [of "[]" x] by (cases "length (comps x)") (simp_all add: path_len_def)
qed

lemma path_len_prefix: "prefix q p \<Longrightarrow> path_len q \<le> path_len p"
  by (auto simp: path_len_def prefix_def)

lemma split_slash_some: "x \<noteq> [] \<Longrightarrow> hd x \<noteq> 47 \<or> acc \<noteq> [] \<Longrightarrow> filter (\<lambda>c. c \<noteq> []) (split_slash acc x) \<noteq> []"
proof (induction acc x rule: split_slash.induct)
  case (2 acc b bs)
  then show ?case by (cases bs) auto
qed simp

lemma comps_empty: "x = [] \<or> hd x \<noteq> 47 \<Longrightarrow> comps x = [] \<longleftrightarrow> x = []"
  using split_slash_some [of x "[]"] by (auto simp: comps_def)

lemma stripped_hd:
  "strip_trailing_slashes (strip_leading_slashes x) = [] \<or> hd (strip_trailing_slashes (strip_leading_slashes x)) \<noteq> 47"
proof -
  let ?y = "strip_leading_slashes x"
  have "?y = strip_trailing_slashes ?y @ rev (takeWhile (\<lambda>b. b = 47) (rev ?y))"
    using takeWhile_dropWhile_id [of "\<lambda>b. b = 47" "rev ?y"] unfolding strip_trailing_slashes_def
    by (metis rev_append rev_rev_ident)
  moreover have "?y = [] \<or> hd ?y \<noteq> 47" using hd_dropWhile [of "\<lambda>b. b = 47" x] by (auto simp: strip_leading_slashes_def)
  ultimately show ?thesis by (metis append_is_Nil_conv hd_append2)
qed

lemma count_depth_eq:
  "count_depth cs d = (if [46, 46] \<in> set cs then None else Some (d + length (filter (\<lambda>c. c \<noteq> []) cs)))"
  by (induction cs d rule: count_depth.induct) auto

lemma split_path_comps:
  "split_path path = (if comps path = [] then Inl PathEmpty
     else if [46, 46] \<in> set (comps path) then Inl (FileTreeError.PathTraversal path) else Inr (comps path))"
  by (simp add: split_path_def comps_def Let_def)

text \<open>C15. Path normalisation, on every input: a path is refused for a parent reference, its length or its
  depth exactly when it has one, and otherwise yields the same components as the raw path (less a
  leading \<^verbatim>\<open>./\<close>), free of slashes, empty names and parent references; a root entry yields nothing.\<close>

theorem normalize_path_exact:
  "let cs = comps (strip_dot_slash raw) in
   case normalize_path raw limits of
     Inr None \<Rightarrow> cs = []
   | Inr (Some path) \<Rightarrow> split_path path = Inr cs \<and> length cs \<le> max_path_depth limits \<and> length path \<le> max_path_length limits
   | Inl e \<Rightarrow>
       cs \<noteq> [] \<and> (\<exists>path. comps path = cs \<and>
         (e = PathTraversal path \<and> [46, 46] \<in> set cs \<or>
          e = PathTooLong path \<and> [46, 46] \<notin> set cs \<and> max_path_length limits < length path \<or>
          e = PathTooDeep path \<and> [46, 46] \<notin> set cs \<and> length path \<le> max_path_length limits \<and> max_path_depth limits < length cs))"
proof -
  let ?p = "strip_trailing_slashes (strip_leading_slashes (strip_dot_slash raw))"
  have c: "comps ?p = comps (strip_dot_slash raw)" by (simp add: comps_trail comps_lead)
  have e: "comps ?p = [] \<longleftrightarrow> ?p = []" by (rule comps_empty [OF stripped_hd])
  have d: "count_depth (split_slash [] ?p) 0 = (if [46, 46] \<in> set (comps ?p) then None else Some (length (comps ?p)))"
    by (simp add: count_depth_eq comps_def)
  show ?thesis using c e by (auto simp: normalize_path_def Let_def d split_path_comps)
qed

lemma normalized:
  assumes "normalize_path raw limits = Inr (Some path)"
  shows "split_path path = Inr (comps path)" "comps path \<noteq> []" "length (comps path) \<le> max_path_depth limits"
    "path \<noteq> []" "last path \<noteq> 47" "[46, 46] \<notin> set (comps path)" "length path \<le> max_path_length limits"
proof -
  let ?p = "strip_trailing_slashes (strip_leading_slashes (strip_dot_slash raw))"
  have p: "path = ?p" using assms by (auto simp: normalize_path_def Let_def split: if_splits option.splits)
  have e: "comps ?p = [] \<longleftrightarrow> ?p = []" by (rule comps_empty [OF stripped_hd])
  have d: "count_depth (split_slash [] ?p) 0 = (if [46, 46] \<in> set (comps ?p) then None else Some (length (comps ?p)))"
    by (simp add: count_depth_eq comps_def)
  from assms e show "split_path path = Inr (comps path)" "comps path \<noteq> []" "length (comps path) \<le> max_path_depth limits"
    "path \<noteq> []" "[46, 46] \<notin> set (comps path)" "length path \<le> max_path_length limits"
    by (auto simp: normalize_path_def Let_def d split_path_comps split: if_splits)
  then show "last path \<noteq> 47" unfolding p strip_trailing_slashes_def
    by (simp add: last_rev hd_dropWhile [of "\<lambda>b. b = 47"])
qed

lemma rposition_slash_eq:
  "case rposition_slash p of
     None \<Rightarrow> 47 \<notin> set p
   | Some i \<Rightarrow> p = take i p @ 47 # drop (i + 1) p \<and> 47 \<notin> set (drop (i + 1) p)"
proof (induction p)
  case (Cons b p)
  then show ?case by (cases "rposition_slash p") auto
qed simp

lemma path_parts:
  "47 \<notin> set (path_filename path)"
  "comps path = comps (path_parent path) @ comps (path_filename path)"
  using rposition_slash_eq [of path] comps_join [of "path_parent path" "path_filename path"]
  by (auto simp: path_filename_def path_parent_def split: option.splits)

lemma filename_nonempty: "path \<noteq> [] \<Longrightarrow> last path \<noteq> 47 \<Longrightarrow> path_filename path \<noteq> []"
  using rposition_slash_eq [of path] by (auto simp: path_filename_def split: option.splits dest: arg_cong [where f = last])

lemma path_comps:
  assumes "path \<noteq> []" "last path \<noteq> 47"
  shows "comps path = comps (path_parent path) @ [path_filename path]"
  using path_parts [of path] filename_nonempty [OF assms] by (simp add: comps_name)

lemma replace_comps: "47 \<notin> set name \<Longrightarrow> name \<noteq> [] \<Longrightarrow> comps (replace_filename path name) = comps (path_parent path) @ [name]"
  by (simp add: replace_filename_def Let_def comps_join comps_name)

section \<open>Changes of the tree\<close>

definition bare :: "TreeNode \<Rightarrow> bool" where
  "bare node = (case node of Directory d \<Rightarrow> dir_entries d = [] | _ \<Rightarrow> True)"

lemma bare_ok: "bare node \<Longrightarrow> subtree_ok node"
  by (cases node) (simp_all add: bare_def)

lemma inserted_cases:
  assumes "inserted before p node q = Some v" and "bare node"
  shows "q = p \<and> v = shape node \<or> strict_prefix q p \<and> q \<noteq> [] \<and> v = Directory (new_directory default_metadata) \<or> q \<noteq> p \<and> before q = Some v"
  using assms by (auto simp: inserted_def bare_def split: if_splits TreeNode.splits)

lemma insert_final_ok: "ents_ok es \<Longrightarrow> subtree_ok node \<Longrightarrow> ents_ok (snd (insert_final es n node))"
  by (cases "map_of es n"; cases "the (map_of es n)"; cases node)
    (auto simp: insert_final_def intro!: ents_ok_insert dest: ents_ok_get)

lemma insert_at_ok: "ents_ok es \<Longrightarrow> subtree_ok node \<Longrightarrow> ents_ok (snd (insert_at es p node))"
proof (induction p arbitrary: es)
  case (Cons n p)
  have "ents_ok (snd (insert_at (dir_entries d) p node))" if "map_of es n = Some (Directory d)" for d
    using Cons ents_ok_get [OF Cons.prems(1) that] by simp
  then show ?case using Cons
    by (auto simp: insert_at_Cons insert_final_ok intro!: ents_ok_insert split: option.split TreeNode.split)
qed simp

lemma insert_node_view:
  assumes "insert_node t path node = Inr t'" and "ents_ok (dir_entries t)" and "subtree_ok node"
  shows "split_path path = Inr (comps path)" "view (dir_entries t') = inserted (view (dir_entries t)) (comps path) node"
    "ents_ok (dir_entries t')" "dir_metadata t' = dir_metadata t" "dir_xattrs t' = dir_xattrs t"
proof -
  obtain p es where p: "split_path path = Inr p" "insert_at (dir_entries t) p node = (Inr (), es)"
      "t' = Dir (dir_metadata t) (dir_xattrs t) es"
    using assms(1) by (auto simp: insert_node_def tree_insert_def split: sum.splits prod.splits)
  then have c: "p = comps path" by (simp add: split_path_comps split: if_splits)
  show "split_path path = Inr (comps path)" "view (dir_entries t') = inserted (view (dir_entries t)) (comps path) node"
    "dir_metadata t' = dir_metadata t" "dir_xattrs t' = dir_xattrs t"
    using p insert_at_view [OF p(2)] by (auto simp: c)
  show "ents_ok (dir_entries t')" using insert_at_ok [OF assms(2,3), of p] by (simp add: p)
qed

text \<open>Changes in place keep the entries of directories.\<close>

definition in_place :: "(TreeNode \<Rightarrow> TreeNode) \<Rightarrow> bool" where
  "in_place f \<longleftrightarrow> (\<forall>d. \<exists>d'. f (Directory d) = Directory d' \<and> dir_entries d' = dir_entries d) \<and> (\<forall>node. \<not> is_directory node \<longrightarrow> \<not> is_directory (f node))"

lemma in_place_opaque: "in_place opaque_node"
  by (auto simp: in_place_def opaque_node_def add_opaque_def elim!: is_dirE split: TreeNode.split)

lemma in_place_share: "in_place share_node"
  by (auto simp: in_place_def share_node_def split: TreeNode.split)

lemma in_place_ok: "in_place f \<Longrightarrow> subtree_ok node \<Longrightarrow> subtree_ok (f node)"
proof (cases "is_directory node")
  case True
  assume "in_place f" "subtree_ok node"
  then show ?thesis using True unfolding in_place_def by (auto elim!: is_dirE) (metis node_ok_simps(1))
next
  case False
  assume "in_place f"
  then have "\<not> is_directory (f node)" using False by (simp add: in_place_def)
  then show ?thesis by (cases "f node") simp_all
qed

lemma update_at_ok: "in_place f \<Longrightarrow> ents_ok es \<Longrightarrow> ents_ok (update_at es p f)"
proof (induction es p f rule: update_at.induct)
  case (2 es n p f)
  then show ?case
    by (auto intro!: ents_ok_insert dest: ents_ok_get intro: in_place_ok split: option.split TreeNode.split)
qed simp

lemma view_update:
  assumes "in_place f"
  shows "view (update_at es p f) q =
    (if q = p \<and> p \<noteq> [] then map_option (\<lambda>node. shape (f node)) (get_at es p) else view es q)"
proof (induction p arbitrary: es q)
  case (Cons n p)
  show ?case
  proof (cases "map_of es n")
    case None
    then show ?thesis by (simp add: get_at_Cons view_Cons)
  next
    case (Some node)
    show ?thesis
    proof (cases "p = []")
      case True
      show ?thesis
      proof (cases "is_directory node")
        case True
        then obtain d d' where d: "node = Directory d" "f node = Directory d'" "dir_entries d' = dir_entries d"
          using assms unfolding in_place_def by (metis is_dirE)
        then show ?thesis using Some \<open>p = []\<close> by (cases q) (auto simp: view_Cons)
      next
        case False
        then have "\<not> is_directory (f node)" using assms by (simp add: in_place_def)
        then show ?thesis using Some \<open>p = []\<close> False by (cases q; cases node; cases "f node") (auto simp: view_Cons)
      qed
    next
      case False
      then show ?thesis using Some
        by (cases q; cases node) (auto simp: view_Cons get_at_Cons Cons.IH shape_def)
    qed
  qed
qed simp

lemma tree_update_view:
  assumes "in_place f" and "tree_get t path = Some node"
  shows "split_path path = Inr (comps path)" "get_at (dir_entries t) (comps path) = Some node"
    "view (dir_entries (tree_update t path f)) q = (if q = comps path then Some (shape (f node)) else view (dir_entries t) q)"
    "dir_metadata (tree_update t path f) = dir_metadata t" "dir_xattrs (tree_update t path f) = dir_xattrs t"
proof -
  show p: "split_path path = Inr (comps path)" and g: "get_at (dir_entries t) (comps path) = Some node"
    using assms(2) by (auto simp: tree_get_def split_path_comps split: if_splits)
  then have "comps path \<noteq> []" by auto
  then show "view (dir_entries (tree_update t path f)) q = (if q = comps path then Some (shape (f node)) else view (dir_entries t) q)"
    "dir_metadata (tree_update t path f) = dir_metadata t" "dir_xattrs (tree_update t path f) = dir_xattrs t"
    using view_update [OF assms(1), of "dir_entries t" "comps path" q] by (simp_all add: tree_update_def p g)
qed

lemma tree_update_ok: "in_place f \<Longrightarrow> ents_ok (dir_entries t) \<Longrightarrow> ents_ok (dir_entries (tree_update t path f))"
  by (simp add: tree_update_def update_at_ok split: sum.split)

section \<open>Results\<close>

lemma and_then_Inr [simp]: "and_then r k = Inr b \<longleftrightarrow> (\<exists>a. r = Inr a \<and> k a = Inr b)"
  by (cases r) (simp_all add: and_then_def)

lemma map_err_Inr [simp]: "map_err f r = Inr a \<longleftrightarrow> r = Inr a"
  by (cases r) (simp_all add: map_err_def)

lemma put_tree_Inr [simp]: "put_tree st r = Inr st' \<longleftrightarrow> (\<exists>t. r = Inr t \<and> st' = st\<lparr>is_tree := t\<rparr>)"
  by (cases r) (auto simp: put_tree_def)

section \<open>Properties of everything in a tree\<close>

definition all_at :: "(u8 list list \<Rightarrow> TreeNode \<Rightarrow> bool) \<Rightarrow> DirectoryNode \<Rightarrow> bool" where
  "all_at P t \<longleftrightarrow> (\<forall>q v. view (dir_entries t) q = Some v \<longrightarrow> P q v)"

lemma all_at_get: "all_at P t \<Longrightarrow> get_at (dir_entries t) q = Some node \<Longrightarrow> P q (shape node)"
  by (simp add: all_at_def view_def)

text \<open>The names, the depth and the length of a path that the limits allow.\<close>

definition path_ok :: "ResourceLimits \<Rightarrow> u8 list list \<Rightarrow> bool" where
  "path_ok limits p \<longleftrightarrow> length p \<le> max_path_depth limits \<and> path_len p \<le> max_path_length limits \<and>
     (\<forall>c \<in> set p. c \<noteq> [] \<and> 47 \<notin> set c \<and> c \<noteq> [46, 46])"

lemma path_ok_prefix: "path_ok limits p \<Longrightarrow> prefix q p \<Longrightarrow> path_ok limits q"
  unfolding path_ok_def by (meson le_trans path_len_prefix prefix_length_le set_mono_prefix subsetD)

lemma normalized_ok: "normalize_path raw limits = Inr (Some path) \<Longrightarrow> path_ok limits (comps path)"
  using normalized [of raw limits path] comps_names [of _ path] comps_len [of path] by (auto simp: path_ok_def)

text \<open>A property of nodes that the default directories of allowed paths have, and that marking a directory
  opaque keeps.\<close>

definition robust :: "ResourceLimits \<Rightarrow> (u8 list list \<Rightarrow> TreeNode \<Rightarrow> bool) \<Rightarrow> bool" where
  "robust limits P \<longleftrightarrow>
     (\<forall>q. path_ok limits q \<longrightarrow> P q (Directory (new_directory default_metadata))) \<and>
     (\<forall>q node. P q (shape node) \<longrightarrow> P q (shape (opaque_node node)))"

lemma insert_all_at:
  assumes "insert_node t path node = Inr t'" and "ents_ok (dir_entries t)" and "bare node"
    and "all_at P t" and "robust limits P" and "path_ok limits (comps path)" and "P (comps path) (shape node)"
  shows "ents_ok (dir_entries t') \<and> all_at P t'"
proof -
  note v = insert_node_view [OF assms(1,2) bare_ok [OF assms(3)]]
  have "P q w" if w: "view (dir_entries t') q = Some w" for q w
  proof -
    from w have "inserted (view (dir_entries t)) (comps path) node q = Some w" by (simp only: v(2))
    from inserted_cases [OF this assms(3)] show ?thesis
    proof (elim disjE conjE)
      assume "strict_prefix q (comps path)" "w = Directory (new_directory default_metadata)"
      then show ?thesis using assms(5) path_ok_prefix [OF assms(6)] unfolding robust_def by (metis prefix_order.less_imp_le)
    next
      assume "view (dir_entries t) q = Some w"
      then show ?thesis using assms(4) unfolding all_at_def by blast
    qed (simp add: assms(7))
  qed
  then show ?thesis using v(3) by (simp add: all_at_def)
qed

lemma update_all_at:
  assumes "in_place f" and "tree_get t path = Some node" and "ents_ok (dir_entries t)"
    and "all_at P t" and "P (comps path) (shape (f node))"
  shows "ents_ok (dir_entries (tree_update t path f)) \<and> all_at P (tree_update t path f)"
  using tree_update_view [OF assms(1,2)] tree_update_ok [OF assms(1,3)] assms(4,5) by (auto simp: all_at_def)

lemma opaque_update_all_at:
  assumes "tree_get t path = Some (Directory d)" and "ents_ok (dir_entries t)" and "all_at P t" and "robust limits P"
  shows "ents_ok (dir_entries (tree_update t path opaque_node)) \<and> all_at P (tree_update t path opaque_node)"
proof (rule update_all_at [OF in_place_opaque assms(1-3)])
  have "P (comps path) (shape (Directory d))"
    using all_at_get [OF assms(3)] tree_update_view(2) [OF in_place_opaque assms(1)] by blast
  then show "P (comps path) (shape (opaque_node (Directory d)))" using assms(4) unfolding robust_def by blast
qed

lemma bare_default: "bare (Directory (new_directory default_metadata))"
  by (simp add: bare_def new_directory_def)

lemma dir_case: "(case x of Some (Directory _) \<Rightarrow> a | _ \<Rightarrow> b) = (if \<exists>d. x = Some (Directory d) then a else b)"
  by (cases x; cases "the x") auto

lemma opaque_all_at:
  assumes "apply_opaque_xattr t path = Inr t'" and "ents_ok (dir_entries t)"
    and "all_at P t" and "robust limits P" and "path_ok limits (comps (path_parent path))"
  shows "ents_ok (dir_entries t') \<and> all_at P t'"
proof (cases "path_parent path = []")
  case True
  then show ?thesis using assms(1-3) by (auto simp: apply_opaque_xattr_def add_opaque_def all_at_def split: if_splits)
next
  case False
  show ?thesis
  proof (cases "\<exists>d. tree_get t (path_parent path) = Some (Directory d)")
    case True
    then show ?thesis using assms(1) False opaque_update_all_at [OF _ assms(2-4)] by (auto simp: apply_opaque_xattr_def Let_def dir_case)
  next
    case no: False
    then obtain t1 d where t1: "insert_node t (path_parent path) (Directory (new_directory default_metadata)) = Inr t1"
        "tree_get t1 (path_parent path) = Some (Directory d)" "t' = tree_update t1 (path_parent path) opaque_node"
      using assms(1) False by (auto simp: apply_opaque_xattr_def Let_def dir_case split: if_splits)
    have "ents_ok (dir_entries t1) \<and> all_at P t1"
      using assms(4,5) by (intro insert_all_at [OF t1(1) assms(2) bare_default assms(3-5)])
        (auto simp: robust_def shape_def new_directory_def)
    then show ?thesis using opaque_update_all_at [OF t1(2) _ _ assms(4)] t1(3) by simp
  qed
qed

section \<open>Bodies\<close>

lemma poll_readD:
  assumes "poll_read polls k n body = Inr got"
  obtains m where "got = take m body" "m \<le> n" "0 < n \<Longrightarrow> 0 < m"
  using assms by (auto simp: poll_read_def intro: that [of "min n (max 1 m)" for m])

lemma poll_readE: "poll_read polls k n body = Inl e \<Longrightarrow> polls k = Inl e"
  by (cases "polls k") (simp_all add: poll_read_def and_then_def)

text \<open>A loop that reads \<open>n\<close> bytes gets the first \<open>n\<close> bytes of the body; it fails when the body is too
  short or with the error of a poll.\<close>

definition poll_fails :: "(nat \<Rightarrow> IoError + nat) \<Rightarrow> IoError \<Rightarrow> bool" where
  "poll_fails polls e \<longleftrightarrow> (\<exists>k. polls k = Inl e)"

lemma read_loop_exact:
  "case read_loop polls k body remaining data of
     Inr all \<Rightarrow> remaining \<le> length body \<and> all = data @ take remaining body
   | Inl e \<Rightarrow> e = Io UnexpectedEof \<and> length body < remaining \<or> (\<exists>io. e = Io io \<and> poll_fails polls io)"
proof (induction polls k body remaining data rule: read_loop.induct)
  case (1 polls k body remaining data)
  define n where "n = min remaining ENTRY_READ_CHUNK_SIZE"
  show ?case
  proof (cases "remaining = 0")
    case False
    then have n: "0 < n" "n \<le> remaining" by (simp_all add: n_def ENTRY_READ_CHUNK_SIZE_def)
    show ?thesis
    proof (cases "poll_read polls k n body")
      case (Inl e)
      then show ?thesis using False poll_readE [OF Inl]
        by (subst read_loop.simps) (auto simp: n_def [symmetric] map_err_def and_then_def poll_fails_def)
    next
      case (Inr got)
      obtain m where m: "got = take m body" "m \<le> n" "0 < m" using poll_readD [OF Inr] n(1) by metis
      have step: "read_loop polls k body remaining data = (if got = [] then Inl (Io UnexpectedEof)
          else read_loop polls (k + 1) (drop (length got) body) (remaining - length got) (data @ got))"
        using False Inr by (subst read_loop.simps) (simp add: n_def [symmetric] map_err_def and_then_def)
      have ih: "got \<noteq> [] \<Longrightarrow>
          case read_loop polls (k + 1) (drop (length got) body) (remaining - length got) (data @ got) of
            Inr all \<Rightarrow> remaining - length got \<le> length (drop (length got) body) \<and>
              all = (data @ got) @ take (remaining - length got) (drop (length got) body)
          | Inl e \<Rightarrow> e = Io UnexpectedEof \<and> length (drop (length got) body) < remaining - length got \<or>
              (\<exists>io. e = Io io \<and> poll_fails polls io)"
        by (rule 1 [OF False n_def]) (simp_all add: Inr map_err_def)
      have l: "length got \<le> remaining" "length got \<le> length body" "take remaining body = got @ take (remaining - length got) (drop (length got) body)"
        using m n(2) take_add [of "length got" "remaining - length got" body] by (auto simp: min_def split: if_splits)
      show ?thesis using ih l m n False unfolding step
        by (auto split: sum.splits)
    qed
  qed (simp add: read_loop.simps)
qed

lemma read_exact_exact:
  "case read_exact polls k body n data of
     Inr (all, k', rest) \<Rightarrow> n \<le> length body \<and> all = data @ take n body \<and> rest = drop n body
   | Inl e \<Rightarrow> e = UnexpectedEof \<and> length body < n \<or> poll_fails polls e"
proof (induction polls k body n data rule: read_exact.induct)
  case (1 polls k body n data)
  show ?case
  proof (cases "n = 0")
    case False
    show ?thesis
    proof (cases "poll_read polls k n body")
      case (Inl e)
      then show ?thesis using False poll_readE [OF Inl]
        by (subst read_exact.simps) (auto simp: and_then_def poll_fails_def)
    next
      case (Inr got)
      obtain m where m: "got = take m body" "m \<le> n" "0 < m" using poll_readD [OF Inr] False by blast
      have step: "read_exact polls k body n data = (if got = [] then Inl UnexpectedEof
          else read_exact polls (k + 1) (drop (length got) body) (n - length got) (data @ got))"
        using False Inr by (subst read_exact.simps) (simp add: and_then_def)
      have l: "length got \<le> n" "length got \<le> length body" "take n body = got @ take (n - length got) (drop (length got) body)"
        "drop n body = drop (n - length got) (drop (length got) body)"
        using m take_add [of "length got" "n - length got" body] by (auto simp: min_def split: if_splits)
      show ?thesis using 1 [OF False Inr] l m False unfolding step
        by (auto split: sum.splits)
    qed
  qed (simp add: read_exact.simps)
qed

lemma flush_exact:
  assumes "tidy sp"
  shows "case flush_chunk sp data of
      Inr sp' \<Rightarrow> tidy sp' \<and> sp_bytes sp' = sp_bytes sp @ data \<and> sp_id sp' = sp_id sp \<and> sp_host sp' = sp_host sp
    | Inl e \<Rightarrow> \<exists>io k n. e = Io io \<and> sp_host sp k = Some (io, n)"
  using assms
  by (auto simp: tidy_def flush_chunk_def write_chunk_def spool_write_all_def spool_put_def split: option.split)

text \<open>Why reading or spooling a body can fail.\<close>

definition body_error :: "(nat \<Rightarrow> IoError + nat) \<Rightarrow> DataSpool option \<Rightarrow> u8 list \<Rightarrow> nat \<Rightarrow> IngestError \<Rightarrow> bool" where
  "body_error polls spool body n e \<longleftrightarrow> e = Io UnexpectedEof \<and> length body < n \<or> (\<exists>io. e = Io io \<and> poll_fails polls io) \<or>
     (\<exists>sp io k m. spool = Some sp \<and> e = Io io \<and> sp_host sp k = Some (io, m))"

definition streamed :: "(nat \<Rightarrow> IoError + nat) \<Rightarrow> u8 list \<Rightarrow> nat \<Rightarrow> DataSpool \<Rightarrow> u8 list \<Rightarrow> IngestError + u8 list \<times> DataSpool \<Rightarrow> bool" where
  "streamed polls body n sp write_buf r =
     (case r of
        Inl e \<Rightarrow> body_error polls (Some sp) body n e
      | Inr (write_buf', sp') \<Rightarrow> n \<le> length body \<and> tidy sp' \<and> sp_id sp' = sp_id sp \<and> sp_host sp' = sp_host sp \<and>
          sp_bytes sp' @ write_buf' = sp_bytes sp @ write_buf @ take n body)"

lemma streamed_step:
  assumes "streamed polls (drop n body) (remaining - n) sp' (wb @ take n body) r"
    and "n \<le> remaining" and "n \<le> length body" and "sp_id sp' = sp_id sp" and "sp_host sp' = sp_host sp"
    and "sp_bytes sp' @ wb = sp_bytes sp @ write_buf"
  shows "streamed polls body remaining sp write_buf r"
proof -
  have t: "take remaining body = take n body @ take (remaining - n) (drop n body)"
    using take_add [of n "remaining - n" body] assms(2) by simp
  have "sp_bytes sp' @ (wb @ take n body) @ x = sp_bytes sp @ write_buf @ take n body @ x" for x
    using assms(6) by (metis append.assoc)
  then show ?thesis using assms(1-5) unfolding streamed_def t by (auto simp: body_error_def split: sum.splits)
qed

lemma stream_loop_exact: "tidy sp \<Longrightarrow> streamed polls body remaining sp write_buf (stream_loop polls k body remaining sp write_buf)"
proof (induction polls k body remaining sp write_buf rule: stream_loop.induct)
  case (1 polls k body remaining sp write_buf)
  define n where "n = min remaining ENTRY_READ_CHUNK_SIZE"
  have le: "n \<le> remaining" by (simp add: n_def)
  define flushed where "flushed = (if SPOOL_WRITE_BUFFER_SIZE < length write_buf + n \<and> write_buf \<noteq> []
    then and_then (flush_chunk sp write_buf) (\<lambda>sp. Inr (sp, [])) else Inr (sp, write_buf))"
  have fl: "case flushed of
      Inl e \<Rightarrow> body_error polls (Some sp) body remaining e
    | Inr (sp', wb) \<Rightarrow> tidy sp' \<and> sp_id sp' = sp_id sp \<and> sp_host sp' = sp_host sp \<and> sp_bytes sp' @ wb = sp_bytes sp @ write_buf"
    using flush_exact [OF 1(2), of write_buf] 1(2) unfolding flushed_def body_error_def
    by (cases "flush_chunk sp write_buf") (auto simp: and_then_def)
  show ?case
  proof (cases "remaining = 0")
    case True
    then show ?thesis using 1(2) by (simp add: stream_loop.simps streamed_def)
  next
    case False
    note r = read_exact_exact [where polls = polls and k = k and body = body and n = n and data = "[]"]
    have step: "stream_loop polls k body remaining sp write_buf =
        and_then (map_err Io (read_exact polls k body n [])) (\<lambda>(read_buf, k, body). and_then flushed (\<lambda>(sp, write_buf).
          stream_loop polls k body (remaining - n) sp (write_buf @ read_buf)))"
      using False by (subst stream_loop.simps) (simp add: n_def [symmetric] flushed_def [symmetric])
    show ?thesis
    proof (cases "read_exact polls k body n []")
      case (Inl e)
      then show ?thesis using r le unfolding step by (auto simp: map_err_def and_then_def streamed_def body_error_def)
    next
      case read: (Inr x)
      obtain k' where x: "x = (take n body, k', drop n body)" "n \<le> length body" using r read by (cases x) auto
      show ?thesis
      proof (cases flushed)
        case (Inl e)
        then show ?thesis using fl unfolding step by (simp add: read x map_err_def and_then_def streamed_def)
      next
        case (Inr y)
        obtain sp' wb where y: "y = (sp', wb)" by (cases y)
        have f: "tidy sp'" "sp_id sp' = sp_id sp" "sp_host sp' = sp_host sp" "sp_bytes sp' @ wb = sp_bytes sp @ write_buf"
          using fl by (simp_all add: Inr y)
        have "streamed polls (drop n body) (remaining - n) sp' (wb @ take n body)
            (stream_loop polls k' (drop n body) (remaining - n) sp' (wb @ take n body))"
          by (rule 1(1) [OF False n_def _ _ _ _ _ f(1)])
            (simp_all add: read x map_err_def flushed_def [symmetric] n_def [symmetric] Inr y)
        then show ?thesis unfolding step using streamed_step [OF _ le x(2) f(2-4)]
          by (simp add: read x(1) map_err_def and_then_def Inr y)
      qed
    qed
  qed
qed

text \<open>The bytes a file's data stands for.\<close>

definition stored :: "DataSpool option \<Rightarrow> FileData \<Rightarrow> u8 list \<Rightarrow> bool" where
  "stored spool d bytes =
     (case d of
        Memory v \<Rightarrow> v = bytes
      | SharedMemory v \<Rightarrow> v = bytes
      | Spool s off len \<Rightarrow> \<exists>sp. spool = Some sp \<and> s = sp_id sp \<and> len = length bytes \<and>
          off + len \<le> length (sp_bytes sp) \<and> take len (drop off (sp_bytes sp)) = bytes)"

lemma stored_len: "stored spool d bytes \<Longrightarrow> file_data_len d = length bytes"
  by (cases d) (auto simp: stored_def)

lemma stored_clone: "stored spool (fst (clone_ref d)) = stored spool d" "stored spool (snd (clone_ref d)) = stored spool d"
  by (cases d; auto simp: stored_def)+

definition contents :: "DataSpool option \<Rightarrow> FileData \<Rightarrow> u8 list option" where
  "contents spool d = (case spool of None \<Rightarrow> as_bytes d | Some sp \<Rightarrow> fst (read_all sp d))"

lemma stored_contents: "stored spool d bytes \<Longrightarrow> contents spool d = Some bytes"
  by (cases d; cases spool) (auto simp: stored_def contents_def spool_read_exact_def Let_def)

text \<open>The spool grows at its end.\<close>

definition spool_ok :: "DataSpool option \<Rightarrow> bool" where
  "spool_ok spool = (case spool of None \<Rightarrow> True | Some sp \<Rightarrow> tidy sp)"

definition grown :: "DataSpool option \<Rightarrow> DataSpool option \<Rightarrow> bool" where
  "grown a b \<longleftrightarrow> a = b \<or> (\<exists>sp sp' more. a = Some sp \<and> b = Some sp' \<and> sp_id sp' = sp_id sp \<and> sp_bytes sp' = sp_bytes sp @ more)"

lemma stored_grown: "stored a d bytes \<Longrightarrow> grown a b \<Longrightarrow> stored b d bytes"
  by (cases d) (auto simp: stored_def grown_def)

text \<open>Large bodies go to the spool when there is one.\<close>

definition spooled :: "nat \<Rightarrow> ingest_state \<Rightarrow> bool" where
  "spooled n st \<longleftrightarrow> SPOOL_THRESHOLD \<le> n \<and> is_spool st \<noteq> None"

definition kept :: "TarEntry \<Rightarrow> nat \<Rightarrow> ingest_state \<Rightarrow> IngestError + FileData \<times> ingest_state \<Rightarrow> bool" where
  "kept entry n st r =
     (case r of
        Inl e \<Rightarrow> body_error (te_polls entry) (if spooled n st then is_spool st else None) (te_body entry) n e
      | Inr (d, st') \<Rightarrow> n \<le> length (te_body entry) \<and> stored (is_spool st') d (take n (te_body entry)) \<and>
          spool_ok (is_spool st') \<and> grown (is_spool st) (is_spool st') \<and> st' = st\<lparr>is_spool := is_spool st'\<rparr> \<and>
          (\<forall>v. d \<noteq> SharedMemory v) \<and> ((\<exists>v. d = Memory v) \<longleftrightarrow> \<not> spooled n st))"

lemma streamed_kept:
  assumes "is_spool st = Some sp" and "tidy sp" and "spooled n st"
  shows "kept entry n st (and_then (stream_entry_to_spool entry n sp) (\<lambda>(d, sp). Inr (d, st\<lparr>is_spool := Some sp\<rparr>)))"
proof (cases "stream_loop (te_polls entry) 0 (te_body entry) n sp []")
  case (Inl e)
  then show ?thesis using stream_loop_exact [OF assms(2), of "te_polls entry" "te_body entry" n "[]" 0] assms(1,3)
    by (simp add: stream_entry_to_spool_def and_then_def kept_def streamed_def)
next
  case (Inr r)
  obtain wb sp1 where r: "r = (wb, sp1)" by (cases r)
  have s: "n \<le> length (te_body entry)" "tidy sp1" "sp_id sp1 = sp_id sp" "sp_host sp1 = sp_host sp"
      "sp_bytes sp1 @ wb = sp_bytes sp @ take n (te_body entry)"
    using stream_loop_exact [OF assms(2), of "te_polls entry" "te_body entry" n "[]" 0] by (simp_all add: Inr r streamed_def)
  let ?f = "if wb \<noteq> [] then flush_chunk sp1 wb else Inr sp1"
  have step: "stream_entry_to_spool entry n sp = and_then ?f (\<lambda>sp2. Inr (data_ref sp2 (sp_offset sp) n, sp2))"
    by (simp add: stream_entry_to_spool_def Inr r and_then_def)
  have "case ?f of
      Inl e \<Rightarrow> body_error (te_polls entry) (is_spool st) (te_body entry) n e
    | Inr sp2 \<Rightarrow> tidy sp2 \<and> sp_id sp2 = sp_id sp \<and> sp_bytes sp2 = sp_bytes sp @ take n (te_body entry)"
    using flush_exact [OF s(2), of wb] s by (cases "flush_chunk sp1 wb") (auto simp: body_error_def assms(1))
  moreover have "sp_offset sp = length (sp_bytes sp)" using assms(2) by (simp add: tidy_def)
  ultimately show ?thesis using assms(1,3) s(1) unfolding step
    by (cases ?f) (simp_all add: and_then_def kept_def data_ref_def stored_def spool_ok_def grown_def)
qed

lemma file_data_exact:
  assumes "spool_ok (is_spool st)"
  shows "kept entry n st (file_data entry n st)"
proof (cases "spooled n st")
  case False
  then have "file_data entry n st = and_then (read_entry_to_memory entry n) (\<lambda>bytes. Inr (Memory bytes, st))"
    by (auto simp: file_data_def spooled_def split: bool.split)
  then show ?thesis using assms False read_loop_exact [where polls = "te_polls entry" and k = 0 and body = "te_body entry" and remaining = n and data = "[]"]
    by (cases "read_entry_to_memory entry n")
      (auto simp: kept_def read_entry_to_memory_def and_then_def stored_def grown_def body_error_def)
next
  case True
  then obtain sp where sp: "is_spool st = Some sp" "tidy sp" using assms by (auto simp: spool_ok_def spooled_def)
  then have "file_data entry n st = and_then (stream_entry_to_spool entry n sp) (\<lambda>(d, sp). Inr (d, st\<lparr>is_spool := Some sp\<rparr>))"
    using True by (simp add: file_data_def spooled_def)
  then show ?thesis using streamed_kept [OF sp True] by simp
qed

text \<open>C17. A file's body is stored exactly: with however few bytes each poll delivers, in memory or through
  the buffered spool, the data kept for an entry of \<open>n\<close> bytes reads back as its first \<open>n\<close> bytes; it is
  kept in the spool exactly when there is one and the body has at least 64 KiB. Reading fails only
  when the body is too short, or with the error of a poll of the body, or, for a spooled body, with
  the error of a write to the spool.\<close>

theorem body_stored_exactly:
  assumes "spool_ok (is_spool st)"
  shows "case file_data entry n st of
      Inl e \<Rightarrow> \<exists>io. e = Io io \<and> (io = UnexpectedEof \<and> length (te_body entry) < n \<or> (\<exists>k. te_polls entry k = Inl io) \<or>
        65536 \<le> n \<and> (\<exists>sp k m. is_spool st = Some sp \<and> sp_host sp k = Some (io, m)))
    | Inr (d, st') \<Rightarrow> n \<le> length (te_body entry) \<and> contents (is_spool st') d = Some (take n (te_body entry)) \<and>
        file_data_len d = n \<and> spool_ok (is_spool st') \<and>
        ((\<exists>i off. d = Spool i off n) \<longleftrightarrow> 65536 \<le> n \<and> is_spool st \<noteq> None)"
proof (cases "file_data entry n st")
  case (Inl e)
  then show ?thesis using file_data_exact [OF assms, of entry n]
    by (auto simp: kept_def body_error_def poll_fails_def spooled_def SPOOL_THRESHOLD_def split: if_splits)
next
  case (Inr r)
  obtain d st' where r: "r = (d, st')" by (cases r)
  have k: "n \<le> length (te_body entry)" "stored (is_spool st') d (take n (te_body entry))" "spool_ok (is_spool st')"
      "\<forall>v. d \<noteq> SharedMemory v" "(\<exists>v. d = Memory v) \<longleftrightarrow> \<not> spooled n st"
    using file_data_exact [OF assms, of entry n] by (simp_all add: Inr r kept_def)
  have "file_data_len d = n" using stored_len [OF k(2)] k(1) by simp
  then have "(\<exists>i off. d = Spool i off n) \<longleftrightarrow> spooled n st" using k(4,5) by (cases d) auto
  then show ?thesis using k stored_contents [OF k(2)] \<open>file_data_len d = n\<close>
    by (simp add: Inr r spooled_def SPOOL_THRESHOLD_def)
qed

section \<open>What an ingestion keeps\<close>

definition good :: "ResourceLimits \<Rightarrow> nat set \<Rightarrow> (nat \<Rightarrow> u8 list) \<Rightarrow> DataSpool option \<Rightarrow> u8 list list \<Rightarrow> TreeNode \<Rightarrow> bool" where
  "good limits ids content spool q v \<longleftrightarrow> path_ok limits q \<and>
     (\<forall>l. v = Symlink l \<longrightarrow> length (sl_target l) \<le> max_symlink_target limits) \<and>
     (\<forall>f. v = RegularFile f \<longrightarrow> rf_id f \<in> ids \<and> stored spool (rf_data f) (content (rf_id f)))"

lemma robust_good: "robust limits (good limits ids content spool)"
proof -
  have "(shape (opaque_node node) = RegularFile f) = (shape node = RegularFile f)"
    "(shape (opaque_node node) = Symlink l) = (shape node = Symlink l)" for node f l
    by (cases node; simp add: shape_def opaque_node_def)+
  then show ?thesis by (simp add: robust_def good_def)
qed

definition body_of :: "ResourceLimits \<Rightarrow> (IoError + TarEntry) list \<Rightarrow> u8 list \<Rightarrow> bool" where
  "body_of limits archive bytes \<longleftrightarrow> (\<exists>entry n. Inr entry \<in> set archive \<and> te_type entry \<in> {TRegular, TContinuous} \<and>
     te_size entry = Inr n \<and> n \<le> max_file_size limits \<and> n \<le> length (te_body entry) \<and> bytes = take n (te_body entry))"

definition ingest_inv :: "ResourceLimits \<Rightarrow> (IoError + TarEntry) list \<Rightarrow> nat set \<Rightarrow> (nat \<Rightarrow> u8 list) \<Rightarrow> ingest_state \<Rightarrow> bool" where
  "ingest_inv limits seen ids content st \<longleftrightarrow>
     ents_ok (dir_entries (is_tree st)) \<and> all_at (good limits ids content (is_spool st)) (is_tree st) \<and>
     spool_ok (is_spool st) \<and> finite ids \<and> ids \<subseteq> {..<is_next_id st} \<and>
     (\<Sum>i \<in> ids. length (content i)) \<le> is_total st \<and> is_total st \<le> max_total_size limits \<and>
     (\<forall>i \<in> ids. body_of limits seen (content i))"

text \<open>A step that changes only the tree.\<close>

lemma inv_tree:
  assumes "ingest_inv limits seen ids content st"
    and "ents_ok (dir_entries t) \<and> all_at (good limits ids content (is_spool st)) t"
  shows "ingest_inv limits seen ids content (st\<lparr>is_tree := t\<rparr>)"
  using assms by (simp add: ingest_inv_def)

lemma inv_insert:
  assumes "ingest_inv limits seen ids content st" and "insert_node (is_tree st) path node = Inr t" and "bare node"
    and "path_ok limits (comps path)" and "good limits ids content (is_spool st) (comps path) (shape node)"
  shows "ingest_inv limits seen ids content (st\<lparr>is_tree := t\<rparr>)"
  using assms(1) by (intro inv_tree insert_all_at [OF assms(2) _ assms(3) _ robust_good assms(4,5)]) (simp_all add: ingest_inv_def)

lemma inv_opaque:
  assumes "ingest_inv limits seen ids content st" and "apply_opaque_xattr (is_tree st) path = Inr t"
    and "path_ok limits (comps (path_parent path))"
  shows "ingest_inv limits seen ids content (st\<lparr>is_tree := t\<rparr>)"
  using assms(1) by (intro inv_tree opaque_all_at [OF assms(2) _ _ robust_good assms(3)]) (simp_all add: ingest_inv_def)

text \<open>The paths of whiteouts.\<close>

lemma parent_ok:
  assumes "normalize_path raw limits = Inr (Some path)"
  shows "path_ok limits (comps (path_parent path))"
  using path_ok_prefix [OF normalized_ok [OF assms]] path_parts(2) [of path] by simp

lemma whiteout_name:
  assumes "classify_whiteout (path_filename path) = FileWhiteout real_name"
  shows "real_name \<noteq> []" "47 \<notin> set real_name" "path_filename path = WHITEOUT_PREFIX @ real_name"
  using assms path_parts(1) [of path]
  by (auto simp: classify_whiteout_def Let_def prefix_def WHITEOUT_PREFIX_def split: if_splits)

lemma whiteout_ok:
  assumes "normalize_path raw limits = Inr (Some path)" and "classify_whiteout (path_filename path) = FileWhiteout real_name"
    and "insert_node t (replace_filename path real_name) node = Inr t'"
  shows "path_ok limits (comps (replace_filename path real_name))"
proof -
  note n = normalized [OF assms(1)]
  have c: "comps (replace_filename path real_name) = comps (path_parent path) @ [real_name]"
    using replace_comps whiteout_name [OF assms(2)] by blast
  have "split_path (replace_filename path real_name) = Inr (comps (replace_filename path real_name))"
    using assms(3) by (auto simp: insert_node_def tree_insert_def split_path_comps split: if_splits)
  then have "real_name \<noteq> [46, 46]" by (auto simp: split_path_comps c split: if_splits)
  then show ?thesis
    using normalized_ok [OF assms(1)] whiteout_name [OF assms(2)] path_comps [OF n(4,5)] by (auto simp: c path_ok_def path_len_def)
qed

lemma leaf_good [simp]:
  "good limits ids content spool q (shape (CharDevice v)) = path_ok limits q"
  "good limits ids content spool q (shape (BlockDevice v)) = path_ok limits q"
  "good limits ids content spool q (shape (Fifo m)) = path_ok limits q"
  "good limits ids content spool q (shape (Socket m)) = path_ok limits q"
  "good limits ids content spool q (shape (Symlink s)) \<longleftrightarrow> path_ok limits q \<and> length (sl_target s) \<le> max_symlink_target limits"
  "good limits ids content spool q (shape (Directory d)) = path_ok limits q"
  by (simp_all add: good_def shape_def)

lemma leaf_bare [simp]:
  "bare (CharDevice v)" "bare (BlockDevice v)" "bare (Fifo m)" "bare (Socket m)" "bare (Symlink s)" "bare (RegularFile f)"
  "bare (Directory (Dir m x []))"
  by (simp_all add: bare_def)

lemma inv_whiteout:
  assumes "ingest_inv limits seen ids content st" and "normalize_path raw limits = Inr (Some path)"
    and "classify_whiteout (path_filename path) = FileWhiteout real_name"
    and "insert_node (is_tree st) (replace_filename path real_name) (whiteout_node m) = Inr t"
  shows "ingest_inv limits seen ids content (st\<lparr>is_tree := t\<rparr>)"
  using assms(1,4) whiteout_ok [OF assms(2,3,4)]
  by (intro inv_insert [OF assms(1,4)]) (simp_all add: whiteout_node_def)

lemma inv_hardlink:
  assumes "ingest_inv limits seen ids content st" and "handle_hardlink (is_tree st) path target = Inr t"
    and "path_ok limits (comps path)"
  shows "ingest_inv limits seen ids content (st\<lparr>is_tree := t\<rparr>)"
proof -
  obtain f where f: "tree_get (is_tree st) target = Some (RegularFile f)"
      "insert_node (tree_update (is_tree st) target share_node) path (RegularFile \<lparr>rf_id = rf_id f, rf_metadata = rf_metadata f,
         rf_xattrs = rf_xattrs f, rf_data = snd (clone_ref (rf_data f)), rf_nlink = rf_nlink f + 1\<rparr>) = Inr t"
    using assms(2) by (auto simp: handle_hardlink_def Let_def split: option.splits TreeNode.splits)
  let ?P = "good limits ids content (is_spool st)"
  have inv: "ents_ok (dir_entries (is_tree st))" "all_at ?P (is_tree st)" using assms(1) by (simp_all add: ingest_inv_def)
  have "?P (comps target) (RegularFile f)"
    using all_at_get [OF inv(2)] tree_update_view(2) [OF in_place_share f(1)] by (fastforce simp: shape_def)
  then have g: "?P (comps target) (shape (share_node (RegularFile f)))" "rf_id f \<in> ids" "stored (is_spool st) (rf_data f) (content (rf_id f))"
    by (auto simp: good_def share_node_def share_file_def shape_def stored_clone)
  have "ents_ok (dir_entries (tree_update (is_tree st) target share_node)) \<and> all_at ?P (tree_update (is_tree st) target share_node)"
    by (rule update_all_at [OF in_place_share f(1) inv g(1)])
  then show ?thesis using g(2,3) assms(1,3)
    by (intro inv_tree insert_all_at [OF f(2) _ _ _ robust_good assms(3)]) (auto simp: good_def shape_def stored_clone)
qed

lemma good_mono:
  assumes "good limits ids content spool q v" and "grown spool spool'" and "ids \<subseteq> ids'" and "\<And>i. i \<in> ids \<Longrightarrow> content' i = content i"
  shows "good limits ids' content' spool' q v"
  using assms stored_grown [OF _ assms(2)] unfolding good_def by (metis subsetD)

lemma saturating_room: "saturating_add64 a b \<le> m \<Longrightarrow> m < u64_max \<Longrightarrow> saturating_add64 a b = a + b"
  by (auto simp: saturating_add64_def split: if_splits)

lemma body_of_mono: "body_of limits seen bytes \<Longrightarrow> set seen \<subseteq> set seen' \<Longrightarrow> body_of limits seen' bytes"
  unfolding body_of_def by blast

lemma file_dataD:
  assumes "file_data entry n st = Inr (d, st')" and "spool_ok (is_spool st)"
  obtains spool where "st' = st\<lparr>is_spool := spool\<rparr>" "n \<le> length (te_body entry)" "stored spool d (take n (te_body entry))"
    "spool_ok spool" "grown (is_spool st) spool"
  using file_data_exact [OF assms(2), of entry n] that [of "is_spool st'"] by (simp add: assms(1) kept_def)

text \<open>A new file: its identity is fresh and its data is its entry's body.\<close>

lemma inv_new_file:
  assumes inv: "ingest_inv limits seen ids content st" and st1: "st1 = st\<lparr>is_total := saturating_add64 (is_total st) n\<rparr>"
    and room: "is_total st1 \<le> max_total_size limits" "max_total_size limits < u64_max" "is_next_id st + 1 < two64"
    and data: "file_data entry n st1 = Inr (d, st2)" and body: "body_of limits seen (take n (te_body entry))"
    and ins: "insert_node (is_tree st2) path (RegularFile f) = Inr t" and f: "rf_id f = is_next_id st2" "rf_data f = d"
    and path: "path_ok limits (comps path)"
  shows "\<exists>ids content. ingest_inv limits seen ids content (st2\<lparr>is_next_id := fetch_add64 (is_next_id st2) 1, is_tree := t\<rparr>)"
proof -
  let ?id = "is_next_id st" and ?body = "take n (te_body entry)"
  let ?ids = "Set.insert ?id ids" and ?content = "content(?id := ?body)"
  have ok: "spool_ok (is_spool st1)" using inv by (simp add: st1 ingest_inv_def)
  obtain spool where sp: "st2 = st1\<lparr>is_spool := spool\<rparr>" "n \<le> length (te_body entry)" "stored spool d ?body"
      "spool_ok spool" "grown (is_spool st1) spool" by (rule file_dataD [OF data ok])
  have total: "is_total st1 = is_total st + n" using room(1,2) saturating_room by (simp add: st1)
  have fresh: "?id \<notin> ids" "finite ids" using inv by (auto simp: ingest_inv_def)
  have old: "all_at (good limits ?ids ?content spool) (is_tree st)" unfolding all_at_def
  proof (intro allI impI)
    fix q v
    assume "view (dir_entries (is_tree st)) q = Some v"
    then have "good limits ids content (is_spool st) q v" using inv by (simp add: ingest_inv_def all_at_def)
    then show "good limits ?ids ?content spool q v"
      by (rule good_mono) (use sp(5) fresh in \<open>auto simp: st1\<close>)
  qed
  have "good limits ?ids ?content spool (comps path) (shape (RegularFile f))"
    using path f sp(3) by (simp add: good_def shape_def sp(1) st1)
  then have new: "ents_ok (dir_entries t) \<and> all_at (good limits ?ids ?content spool) t"
    using ins inv by (intro insert_all_at [OF ins _ _ _ robust_good path]) (simp_all add: sp(1) st1 ingest_inv_def old)
  have "(\<Sum>i \<in> ?ids. length (?content i)) = n + (\<Sum>i \<in> ids. length (content i))"
    using fresh sp(2) by (simp cong: if_cong) (intro sum.cong, auto)
  then have "ingest_inv limits seen ?ids ?content (st2\<lparr>is_next_id := fetch_add64 (is_next_id st2) 1, is_tree := t\<rparr>)"
    using inv new room sp(4) body total fresh by (auto simp: ingest_inv_def sp(1) st1 fetch_add64_lt)
  then show ?thesis by blast
qed

section \<open>One entry\<close>

lemma inv_file:
  assumes inv: "ingest_inv limits seen ids content st" and step: "ingest_file limits entry path st = Inr st'"
    and entry: "Inr entry \<in> set seen" "te_type entry \<in> {TRegular, TContinuous}"
    and room: "max_total_size limits < u64_max" "is_next_id st + 1 < two64" and path: "normalize_path raw limits = Inr (Some path)"
  shows "\<exists>ids content. ingest_inv limits seen ids content st'"
proof -
  obtain n where n: "te_size entry = Inr n" "n \<le> max_file_size limits"
      "saturating_add64 (is_total st) n \<le> max_total_size limits"
    using step by (auto simp: ingest_file_def Let_def not_less split: if_splits)
  let ?st = "st\<lparr>is_total := saturating_add64 (is_total st) n\<rparr>"
  have inv1: "ingest_inv limits seen ids content ?st"
    using inv n(3) saturating_room [OF n(3) room(1)] by (simp add: ingest_inv_def)
  show ?thesis
  proof (cases "classify_whiteout (path_filename path)")
    case NoWhiteout
    then obtain d st2 t where s: "file_data entry n ?st = Inr (d, st2)"
        "insert_node (is_tree st2) path (RegularFile \<lparr>rf_id = is_next_id st2, rf_metadata = extract_metadata entry,
           rf_xattrs = [], rf_data = d, rf_nlink = 1\<rparr>) = Inr t"
        "st' = st2\<lparr>is_next_id := fetch_add64 (is_next_id st2) 1, is_tree := t\<rparr>"
      using step n by (auto simp: ingest_file_def Let_def split: if_splits)
    have "spool_ok (is_spool ?st)" using inv by (simp add: ingest_inv_def)
    then have "n \<le> length (te_body entry)" by (rule file_dataD [OF s(1)])
    then have body: "body_of limits seen (take n (te_body entry))" using entry n by (auto simp: body_of_def)
    show ?thesis unfolding s(3)
      by (rule inv_new_file [OF inv refl _ room s(1) body s(2) _ _ normalized_ok [OF path]]) (simp_all add: n(3))
  next
    case Opaque
    then show ?thesis using step n inv_opaque [OF inv1 _ parent_ok [OF path]]
      by (auto simp: ingest_file_def Let_def split: if_splits)
  next
    case (FileWhiteout real_name)
    then show ?thesis using step n inv_whiteout [OF inv1 path FileWhiteout]
      by (fastforce simp: ingest_file_def Let_def split: if_splits)
  qed
qed

lemma inv_symlink:
  assumes inv: "ingest_inv limits seen ids content st" and step: "ingest_symlink limits entry path st = Inr st'"
    and path: "normalize_path raw limits = Inr (Some path)"
  shows "ingest_inv limits seen ids content st'"
proof (cases "classify_whiteout (path_filename path)")
  case NoWhiteout
  then show ?thesis using step inv_insert [OF inv, of path] normalized_ok [OF path]
    by (auto simp: ingest_symlink_def split: if_splits)
next
  case Opaque
  then show ?thesis using step inv_opaque [OF inv _ parent_ok [OF path]]
    by (auto simp: ingest_symlink_def split: if_splits)
next
  case (FileWhiteout real_name)
  then show ?thesis using step inv_whiteout [OF inv path FileWhiteout]
    by (fastforce simp: ingest_symlink_def split: if_splits)
qed

lemma inv_link:
  assumes inv: "ingest_inv limits seen ids content st" and step: "ingest_link limits entry path st = Inr st'"
    and path: "normalize_path raw limits = Inr (Some path)"
  shows "ingest_inv limits seen ids content st'"
proof -
  obtain target t where t: "handle_hardlink (is_tree st) path target = Inr t" "st' = st\<lparr>is_tree := t, is_saw_hardlink := True\<rparr>"
    using step by (auto simp: ingest_link_def split: option.splits)
  show ?thesis using inv_hardlink [OF inv t(1) normalized_ok [OF path]] by (simp add: t(2) ingest_inv_def)
qed

lemma inv_kind:
  assumes inv: "ingest_inv limits seen ids content st" and step: "ingest_kind limits entry path st = Inr st'"
    and entry: "Inr entry \<in> set seen"
    and room: "max_total_size limits < u64_max" "is_next_id st + 1 < two64" and path: "normalize_path raw limits = Inr (Some path)"
  shows "\<exists>ids content. ingest_inv limits seen ids content st'"
proof -
  note ins = inv_insert [OF inv, of path _ _] normalized_ok [OF path]
  show ?thesis
  proof (cases "te_type entry")
    case TRegular
    then show ?thesis using inv_file [OF inv _ entry _ room path] step by (simp add: ingest_kind_def)
  next
    case TContinuous
    then show ?thesis using inv_file [OF inv _ entry _ room path] step by (simp add: ingest_kind_def)
  next
    case TLink
    then show ?thesis using inv_link [OF inv _ path] step by (auto simp: ingest_kind_def)
  next
    case TSymlink
    then show ?thesis using inv_symlink [OF inv _ path] step by (auto simp: ingest_kind_def)
  next
    case (TOther b)
    then show ?thesis using ins step inv by (fastforce simp: ingest_kind_def split: if_splits)
  qed (use ins step inv in \<open>fastforce simp: ingest_kind_def ingest_device_def\<close>)+
qed

lemma file_data_frame:
  "file_data entry n st = Inr (d, st') \<Longrightarrow>
     is_next_id st' = is_next_id st \<and> is_count st' = is_count st \<and> is_tree st' = is_tree st \<and> is_saw_hardlink st' = is_saw_hardlink st"
  by (auto simp: file_data_def split: bool.splits option.splits)

lemma kind_counts:
  assumes "ingest_kind limits entry path st = Inr st'"
  shows "is_next_id st' \<le> is_next_id st + 1" "is_count st' = is_count st"
proof -
  have "fetch_add64 a 1 \<le> a + 1" for a by (simp add: fetch_add64_def)
  then have reg: "is_next_id st' \<le> is_next_id st + 1 \<and> is_count st' = is_count st" if "ingest_file limits entry path st = Inr st'"
    using that by (auto simp: ingest_file_def Let_def dest!: file_data_frame split: if_splits WhiteoutKind.splits)
  then have "is_next_id st' \<le> is_next_id st + 1 \<and> is_count st' = is_count st"
    using assms reg
    by (cases "te_type entry")
      (auto simp: ingest_kind_def ingest_device_def ingest_link_def ingest_symlink_def split: if_splits option.splits)
  then show "is_next_id st' \<le> is_next_id st + 1" "is_count st' = is_count st" by auto
qed

lemma inv_entry:
  assumes inv: "ingest_inv limits seen ids content st" and step: "ingest_entry limits (Inr entry) st = Inr st'"
    and entry: "Inr entry \<in> set seen"
    and room: "max_total_size limits < u64_max" "is_next_id st + 1 < two64"
  shows "\<exists>ids content. ingest_inv limits seen ids content st'"
    "is_next_id st' \<le> is_next_id st + 1" "is_count st' = is_count st + 1" "is_count st' \<le> max_entry_count limits"
proof -
  let ?st = "st\<lparr>is_count := is_count st + 1\<rparr>"
  have inv1: "ingest_inv limits seen ids content ?st" using inv by (simp add: ingest_inv_def)
  obtain raw path where p: "te_path entry = Inr raw" "normalize_path raw limits = Inr path" "\<not> max_entry_count limits < is_count st + 1"
      "case path of None \<Rightarrow> st' = ?st | Some path \<Rightarrow> ingest_kind limits entry path ?st = Inr st'"
    using step by (auto simp: ingest_entry_def Let_def map_err_def and_then_def split: if_splits sum.splits option.splits)
  have "(\<exists>ids content. ingest_inv limits seen ids content st') \<and> is_next_id st' \<le> is_next_id st + 1 \<and>
      is_count st' = is_count st + 1 \<and> is_count st' \<le> max_entry_count limits"
  proof (cases path)
    case None
    then show ?thesis using p(3,4) inv1 by auto
  next
    case (Some path')
    then have k: "ingest_kind limits entry path' ?st = Inr st'" and r: "normalize_path raw limits = Inr (Some path')"
      using p by auto
    show ?thesis using inv_kind [OF inv1 k entry room(1) _ r] kind_counts [OF k] room(2) p(3) by simp
  qed
  then show "\<exists>ids content. ingest_inv limits seen ids content st'" "is_next_id st' \<le> is_next_id st + 1"
    "is_count st' = is_count st + 1" "is_count st' \<le> max_entry_count limits" by auto
qed

lemma entry_read: "ingest_entry limits e st = Inr st' \<Longrightarrow> \<exists>entry. e = Inr entry"
  by (auto simp: ingest_entry_def)

lemma inv_entries:
  assumes "ingest_inv limits archive ids content st" and "ingest_entries limits rest st = Inr st'"
    and "set rest \<subseteq> set archive" and "max_total_size limits < u64_max" and "is_next_id st + length rest < two64"
    and "is_count st \<le> max_entry_count limits"
  shows "(\<exists>ids content. ingest_inv limits archive ids content st') \<and> is_count st' = is_count st + length rest \<and>
    is_count st' \<le> max_entry_count limits"
  using assms
proof (induction rest arbitrary: st ids content)
  case (Cons e rest)
  obtain st1 where s: "ingest_entry limits e st = Inr st1" "ingest_entries limits rest st1 = Inr st'"
    using Cons.prems(2) by auto
  obtain entry where e: "e = Inr entry" using entry_read [OF s(1)] by blast
  have room: "is_next_id st + 1 < two64" and mem: "Inr entry \<in> set archive" using Cons.prems(3,5) by (auto simp: e)
  note i = inv_entry [OF Cons.prems(1) s(1) [unfolded e] mem Cons.prems(4) room]
  from i(1) obtain ids1 content1 where inv1: "ingest_inv limits archive ids1 content1 st1" by blast
  show ?case
    using Cons.IH [OF inv1 s(2) _ Cons.prems(4)] Cons.prems(3,5) i(2-4) by auto
qed auto

lemma inv_start:
  "spool_ok spool \<Longrightarrow> ingest_inv limits archive {} (\<lambda>_. []) (ingest_start spool next_id)"
  by (simp add: ingest_inv_def ingest_start_def all_at_def new_tree_def new_directory_def)

section \<open>The size of a tree\<close>

definition files :: "(RegularFileNode \<Rightarrow> bool) \<Rightarrow> entries \<Rightarrow> bool" where
  "files P es \<longleftrightarrow> (\<forall>p f. get_at es p = Some (RegularFile f) \<longrightarrow> P f)"

lemma files_Cons:
  assumes "ents_ok ((name, node) # es)" and "files P ((name, node) # es)"
  shows "files P es" "node = RegularFile f \<Longrightarrow> P f" "node = Directory d \<Longrightarrow> files P (dir_entries d)"
proof -
  have m: "map_of es name = None" using assms(1) by (auto simp: map_of_eq_None_iff)
  have "get_at ((name, node) # es) p = Some (RegularFile f)" if "get_at es p = Some (RegularFile f)" for p f
    using that m by (cases p) (auto simp: get_at_Cons split: if_splits)
  then show "files P es" using assms(2) unfolding files_def by blast
  show "node = RegularFile f \<Longrightarrow> P f" using assms(2) [unfolded files_def, rule_format, of "[name]"] by simp
  assume "node = Directory d"
  then have "get_at ((name, node) # es) (name # p) = Some (RegularFile f)" if "get_at (dir_entries d) p = Some (RegularFile f)" for p f
    using that by (auto simp: get_at_Cons split: if_splits)
  then show "files P (dir_entries d)" using assms(2) unfolding files_def by blast
qed

lemma data_size_sum:
  assumes "ents_ok es" and "files (\<lambda>f. rf_id f \<in> ids \<and> file_data_len (rf_data f) = sz (rf_id f)) es"
    and "finite ids" and "data_size_once es seen = (n, seen')"
  shows "seen \<subseteq> seen' \<and> seen' \<subseteq> seen \<union> ids \<and> n = (\<Sum>i \<in> seen' - seen. sz i)"
  using assms
proof (induction es seen arbitrary: n seen' rule: data_size_once.induct)
  case (2 name node es seen)
  let ?Q = "\<lambda>f. rf_id f \<in> ids \<and> file_data_len (rf_data f) = sz (rf_id f)"
  let ?head = "case node of
      RegularFile file \<Rightarrow> if rf_id file \<in> seen then (0, seen) else (file_data_len (rf_data file), Set.insert (rf_id file) seen)
    | Directory d \<Rightarrow> data_size_once (dir_entries d) seen | _ \<Rightarrow> (0, seen)"
  obtain n1 seen1 where h: "?head = (n1, seen1)" by (cases ?head)
  obtain n2 where r: "data_size_once es seen1 = (n2, seen')" "n = n1 + n2"
    using 2(6) h by (auto simp: Let_def split: prod.splits)
  note fs = files_Cons [OF 2(3,4)]
  have head: "seen \<subseteq> seen1 \<and> seen1 \<subseteq> seen \<union> ids \<and> n1 = (\<Sum>i \<in> seen1 - seen. sz i)"
  proof (cases node)
    case (RegularFile f)
    then show ?thesis using h fs(2) [OF RegularFile] by (auto simp: insert_Diff_if split: if_splits)
  next
    case (Directory d)
    then show ?thesis using 2(1) [OF Directory _ fs(3) [OF Directory] 2(5)] 2(3) h by simp
  qed (use h in auto)
  have tail: "seen1 \<subseteq> seen' \<and> seen' \<subseteq> seen1 \<union> ids \<and> n2 = (\<Sum>i \<in> seen' - seen1. sz i)"
    using 2(2) [OF h [symmetric] refl _ fs(1) 2(5) r(1)] 2(3) by simp
  have "(\<Sum>i \<in> seen' - seen. sz i) = (\<Sum>i \<in> seen1 - seen. sz i) + (\<Sum>i \<in> seen' - seen1. sz i)"
  proof -
    have "seen' - seen = (seen1 - seen) \<union> (seen' - seen1)" "finite (seen1 - seen)" "finite (seen' - seen1)"
      using head tail 2(5) by (auto intro: finite_subset [of _ ids])
    then show ?thesis by (metis (no_types, lifting) Diff_disjoint Diff_eq inf_commute inf_left_commute inf_bot_right sum.union_disjoint)
  qed
  then show ?case using head tail r(2) by auto
qed simp


lemma inv_size:
  assumes "ents_ok es" and "finite ids" and "(\<Sum>i \<in> ids. length (content i)) \<le> m"
    and "files (\<lambda>f. rf_id f \<in> ids \<and> file_data_len (rf_data f) = length (content (rf_id f))) es"
  shows "fst (data_size_once es {}) \<le> m"
proof -
  obtain n seen where s: "data_size_once es {} = (n, seen)" by (cases "data_size_once es {}")
  have "seen \<subseteq> ids" "n = (\<Sum>i \<in> seen. length (content i))"
    using data_size_sum [OF assms(1,4,2) s] by auto
  then show ?thesis using sum_mono2 [OF assms(2), of seen "\<lambda>i. length (content i)"] assms(3) s by simp
qed

text \<open>The result tree is the state's tree up to link counts.\<close>

lemma ingest_tarD:
  assumes "ingest_tar limits archive spool next_id = Inr (t, st)"
  obtains "ingest_entries limits archive (ingest_start spool next_id) = Inr st"
    "t = (if is_saw_hardlink st then refresh_regular_nlinks (is_tree st) else is_tree st)"
  using assms by (auto simp: ingest_tar_def)

lemma relinked:
  assumes "t = (if b then refresh_regular_nlinks t0 else t0)"
  shows "ents_ok (dir_entries t) = ents_ok (dir_entries t0)"
    "get_at (dir_entries t) p = Some node \<Longrightarrow> \<exists>node0. get_at (dir_entries t0) p = Some node0 \<and>
      (\<forall>f. node = RegularFile f \<longrightarrow> (\<exists>g. node0 = RegularFile g \<and> rf_id g = rf_id f \<and> rf_data g = rf_data f)) \<and>
      (\<forall>l. node = Symlink l \<longrightarrow> node0 = Symlink l)"
proof -
  show "ents_ok (dir_entries t) = ents_ok (dir_entries t0)"
    using assms by (simp add: refresh_regular_nlinks_def refresh_ok)
  assume "get_at (dir_entries t) p = Some node"
  then obtain node0 counts where n: "get_at (dir_entries t0) p = Some node0" "node = node0 \<or> node = linked counts node0"
    using assms by (auto simp: refresh_regular_nlinks_def get_at_refresh split: if_splits)
  then show "\<exists>node0. get_at (dir_entries t0) p = Some node0 \<and>
      (\<forall>f. node = RegularFile f \<longrightarrow> (\<exists>g. node0 = RegularFile g \<and> rf_id g = rf_id f \<and> rf_data g = rf_data f)) \<and>
      (\<forall>l. node = Symlink l \<longrightarrow> node0 = Symlink l)"
    by (cases node0) (auto simp: linked_def)
qed

text \<open>C6. A successful ingestion respects every limit: the number of entries, the total size of the files in
  the tree, the length of the target of every symbolic link, and for each path its depth, its length
  (that of its components joined by single slashes) and its names, none of which is empty, a parent
  reference or holds a slash. Every regular file reads back as the body of an entry of the archive
  that is within the file size limit.\<close>

theorem ingest_bounded:
  assumes "ingest_tar limits archive spool next_id = Inr (t, st)" and "spool_ok spool"
    and "max_total_size limits < u64_max" and "next_id + length archive < two64"
  shows "length archive \<le> max_entry_count limits \<and> total_data_size t \<le> max_total_size limits \<and> ents_ok (dir_entries t) \<and>
    (\<forall>p node. get_at (dir_entries t) p = Some node \<longrightarrow>
      length p \<le> max_path_depth limits \<and> path_len p \<le> max_path_length limits \<and>
      (\<forall>c \<in> set p. c \<noteq> [] \<and> 47 \<notin> set c \<and> c \<noteq> [46, 46]) \<and>
      (\<forall>l. node = Symlink l \<longrightarrow> length (sl_target l) \<le> max_symlink_target limits) \<and>
      (\<forall>f. node = RegularFile f \<longrightarrow> (\<exists>bytes. contents (is_spool st) (rf_data f) = Some bytes \<and> body_of limits archive bytes)))"
proof -
  obtain e: "ingest_entries limits archive (ingest_start spool next_id) = Inr st"
    and t: "t = (if is_saw_hardlink st then refresh_regular_nlinks (is_tree st) else is_tree st)"
    by (rule ingest_tarD [OF assms(1)])
  from inv_entries [OF inv_start [OF assms(2)] e subset_refl assms(3)] assms(4)
  obtain ids content where inv: "ingest_inv limits archive ids content st" and count: "length archive \<le> max_entry_count limits"
    by (auto simp: ingest_start_def)
  have ok: "ents_ok (dir_entries t)" using inv relinked(1) [OF t] by (simp add: ingest_inv_def)
  have at: "path_ok limits p \<and> (\<forall>l. node = Symlink l \<longrightarrow> length (sl_target l) \<le> max_symlink_target limits) \<and>
      (\<forall>f. node = RegularFile f \<longrightarrow> rf_id f \<in> ids \<and> stored (is_spool st) (rf_data f) (content (rf_id f)))"
    if g: "get_at (dir_entries t) p = Some node" for p node
  proof -
    obtain node0 where n: "get_at (dir_entries (is_tree st)) p = Some node0"
        "\<forall>f. node = RegularFile f \<longrightarrow> (\<exists>g. node0 = RegularFile g \<and> rf_id g = rf_id f \<and> rf_data g = rf_data f)"
        "\<forall>l. node = Symlink l \<longrightarrow> node0 = Symlink l"
      using relinked(2) [OF t g] by (elim exE conjE)
    have "good limits ids content (is_spool st) p (shape node0)"
      by (rule all_at_get [OF _ n(1)]) (use inv in \<open>simp add: ingest_inv_def\<close>)
    then show ?thesis using n(2,3) by (fastforce simp: good_def shape_def)
  qed
  have "total_data_size t \<le> max_total_size limits" unfolding total_data_size_def
    using inv at stored_len by (intro inv_size [OF ok, of ids content]) (fastforce simp: ingest_inv_def files_def)+
  moreover have "\<forall>i \<in> ids. body_of limits archive (content i)" using inv by (simp add: ingest_inv_def)
  ultimately show ?thesis using count ok at stored_contents unfolding path_ok_def by blast
qed

section \<open>Link counts\<close>

definition file_at :: "DirectoryNode \<Rightarrow> u8 list list \<Rightarrow> RegularFileNode \<Rightarrow> bool" where
  "file_at t p f \<longleftrightarrow> view (dir_entries t) p = Some (RegularFile f)"

lemma file_at_get: "file_at t p f \<longleftrightarrow> get_at (dir_entries t) p = Some (RegularFile f)"
proof -
  have "shape node = RegularFile f \<longleftrightarrow> node = RegularFile f" for node by (cases node) (simp_all add: shape_def)
  then show ?thesis by (auto simp: file_at_def view_def)
qed

text \<open>Without hard links every file has one path.\<close>

definition lone :: "DirectoryNode \<Rightarrow> nat \<Rightarrow> bool" where
  "lone t next_id \<longleftrightarrow>
     (\<forall>p f. file_at t p f \<longrightarrow> rf_nlink f = 1 \<and> rf_id f < next_id) \<and>
     (\<forall>p q f g. file_at t p f \<and> file_at t q g \<and> rf_id f = rf_id g \<longrightarrow> p = q)"

lemma lone_fewer: "lone t n \<Longrightarrow> (\<And>p f. file_at t' p f \<Longrightarrow> file_at t p f) \<Longrightarrow> lone t' n"
  unfolding lone_def by blast

definition fewer_files :: "DirectoryNode \<Rightarrow> u8 list list \<Rightarrow> TreeNode \<Rightarrow> bool" where
  "fewer_files t q v \<longleftrightarrow> (\<forall>f. v = RegularFile f \<longrightarrow> file_at t q f)"

lemma robust_fewer: "robust limits (fewer_files t)"
proof -
  have "shape (opaque_node node) = RegularFile f \<longleftrightarrow> shape node = RegularFile f" for node f
    by (cases node) (simp_all add: shape_def opaque_node_def)
  then show ?thesis by (simp add: robust_def fewer_files_def)
qed

lemma fewer_self: "all_at (fewer_files t) t"
  by (simp add: all_at_def fewer_files_def file_at_def)

lemma lone_all_at: "lone t n \<Longrightarrow> all_at (fewer_files t) t' \<Longrightarrow> lone t' n"
  by (erule lone_fewer) (simp add: all_at_def fewer_files_def file_at_def)

lemma lone_insert:
  assumes "lone t n" and "insert_node t path node = Inr t'" and "ents_ok (dir_entries t)" and "bare node" and "path_ok limits (comps path)"
    and "\<forall>f. shape node \<noteq> RegularFile f"
  shows "lone t' n"
  using insert_all_at [OF assms(2,3,4) fewer_self robust_fewer assms(5)] assms(6)
  by (intro lone_all_at [OF assms(1)]) (simp add: fewer_files_def)

lemma lone_opaque:
  assumes "lone t n" and "apply_opaque_xattr t path = Inr t'" and "ents_ok (dir_entries t)" and "path_ok limits (comps (path_parent path))"
  shows "lone t' n"
  using opaque_all_at [OF assms(2,3) fewer_self robust_fewer assms(4)] by (intro lone_all_at [OF assms(1)]) simp

lemma lone_new:
  assumes "lone t n" and "insert_node t path (RegularFile f) = Inr t'" and "ents_ok (dir_entries t)" and "rf_id f = n" and "rf_nlink f = 1"
  shows "lone t' (n + 1)"
proof -
  have "file_at t' q g \<Longrightarrow> q = comps path \<and> g = f \<or> file_at t q g" for q g
    using insert_node_view(2) [OF assms(2,3)] inserted_cases [of "view (dir_entries t)" "comps path" "RegularFile f" q "RegularFile g"]
    by (auto simp: file_at_def shape_def)
  then show ?thesis using assms(1,4,5) unfolding lone_def by (metis less_add_one less_irrefl trans_less_add1)
qed

lemma lone_file:
  assumes lone: "lone (is_tree st) (is_next_id st)" and ok: "ents_ok (dir_entries (is_tree st))"
    and step: "ingest_file limits entry path st = Inr st'" and room: "is_next_id st + 1 < two64"
    and path: "normalize_path raw limits = Inr (Some path)"
  shows "lone (is_tree st') (is_next_id st')"
proof (cases "classify_whiteout (path_filename path)")
  case NoWhiteout
  then obtain d n st2 t where s: "file_data entry n (st\<lparr>is_total := saturating_add64 (is_total st) n\<rparr>) = Inr (d, st2)"
      "insert_node (is_tree st2) path (RegularFile \<lparr>rf_id = is_next_id st2, rf_metadata = extract_metadata entry,
         rf_xattrs = [], rf_data = d, rf_nlink = 1\<rparr>) = Inr t"
      "st' = st2\<lparr>is_next_id := fetch_add64 (is_next_id st2) 1, is_tree := t\<rparr>"
    using step by (auto simp: ingest_file_def Let_def split: if_splits)
  have f: "is_tree st2 = is_tree st" "is_next_id st2 = is_next_id st" using file_data_frame [OF s(1)] by simp_all
  then show ?thesis using lone_new [OF lone s(2) [unfolded f] ok] room by (simp add: s(3) fetch_add64_lt)
next
  case Opaque
  then show ?thesis using step lone_opaque [OF lone _ ok parent_ok [OF path]]
    by (auto simp: ingest_file_def Let_def split: if_splits)
next
  case (FileWhiteout real_name)
  then obtain t where t: "insert_node (is_tree st) (replace_filename path real_name) (whiteout_node (extract_metadata entry)) = Inr t"
      "is_tree st' = t" "is_next_id st' = is_next_id st"
    using step by (auto simp: ingest_file_def Let_def split: if_splits)
  show ?thesis unfolding t(2,3)
    by (rule lone_insert [OF lone t(1) ok _ whiteout_ok [OF path FileWhiteout t(1)]]) (simp_all add: whiteout_node_def shape_def)
qed

lemma lone_symlink:
  assumes lone: "lone (is_tree st) (is_next_id st)" and ok: "ents_ok (dir_entries (is_tree st))"
    and step: "ingest_symlink limits entry path st = Inr st'" and path: "normalize_path raw limits = Inr (Some path)"
  shows "lone (is_tree st') (is_next_id st')"
proof (cases "classify_whiteout (path_filename path)")
  case NoWhiteout
  then obtain target t where t: "insert_node (is_tree st) path (Symlink \<lparr>sl_metadata = extract_metadata entry, sl_target = target\<rparr>) = Inr t"
      "is_tree st' = t" "is_next_id st' = is_next_id st"
    using step by (auto simp: ingest_symlink_def split: if_splits)
  show ?thesis unfolding t(2,3)
    by (rule lone_insert [OF lone t(1) ok _ normalized_ok [OF path]]) (simp_all add: shape_def)
next
  case Opaque
  then show ?thesis using step lone_opaque [OF lone _ ok parent_ok [OF path]]
    by (auto simp: ingest_symlink_def split: if_splits)
next
  case (FileWhiteout real_name)
  then obtain t where t: "insert_node (is_tree st) (replace_filename path real_name) (whiteout_node (extract_metadata entry)) = Inr t"
      "is_tree st' = t" "is_next_id st' = is_next_id st"
    using step by (auto simp: ingest_symlink_def split: if_splits)
  show ?thesis unfolding t(2,3)
    by (rule lone_insert [OF lone t(1) ok _ whiteout_ok [OF path FileWhiteout t(1)]]) (simp_all add: whiteout_node_def shape_def)
qed

lemma lone_kind:
  assumes lone: "lone (is_tree st) (is_next_id st)" and ok: "ents_ok (dir_entries (is_tree st))"
    and step: "ingest_kind limits entry path st = Inr st'" and room: "is_next_id st + 1 < two64"
    and path: "normalize_path raw limits = Inr (Some path)"
  shows "is_saw_hardlink st' \<or> lone (is_tree st') (is_next_id st')"
proof -
  have ins: "lone t (is_next_id st)" if "insert_node (is_tree st) path node = Inr t" "bare node" "\<forall>f. shape node \<noteq> RegularFile f" for node t
    by (rule lone_insert [OF lone that(1) ok that(2) normalized_ok [OF path] that(3)])
  show ?thesis
  proof (cases "te_type entry")
    case TRegular
    then show ?thesis using lone_file [OF lone ok _ room path] step by (simp add: ingest_kind_def)
  next
    case TContinuous
    then show ?thesis using lone_file [OF lone ok _ room path] step by (simp add: ingest_kind_def)
  next
    case TLink
    then show ?thesis using step by (auto simp: ingest_kind_def ingest_link_def split: option.splits)
  next
    case TSymlink
    then show ?thesis using lone_symlink [OF lone ok _ path] step by (auto simp: ingest_kind_def)
  next
    case (TOther b)
    then show ?thesis using ins step lone by (fastforce simp: ingest_kind_def shape_def split: if_splits)
  qed (use ins step lone in \<open>fastforce simp: ingest_kind_def ingest_device_def shape_def\<close>)+
qed

lemma saw_kept: "ingest_kind limits entry path st = Inr st' \<Longrightarrow> is_saw_hardlink st \<Longrightarrow> is_saw_hardlink st'"
  by (cases "te_type entry")
    (auto simp: ingest_kind_def ingest_device_def ingest_link_def ingest_symlink_def ingest_file_def Let_def
      dest!: file_data_frame split: if_splits option.splits WhiteoutKind.splits)

lemma lone_entries:
  assumes "ingest_inv limits archive ids content st" and "ingest_entries limits rest st = Inr st'"
    and "set rest \<subseteq> set archive" and "max_total_size limits < u64_max" and "is_next_id st + length rest < two64"
    and "is_saw_hardlink st \<or> lone (is_tree st) (is_next_id st)"
  shows "is_saw_hardlink st' \<or> lone (is_tree st') (is_next_id st')"
  using assms
proof (induction rest arbitrary: st ids content)
  case (Cons e rest)
  obtain st1 where s: "ingest_entry limits e st = Inr st1" "ingest_entries limits rest st1 = Inr st'"
    using Cons.prems(2) by auto
  obtain entry where e: "e = Inr entry" using entry_read [OF s(1)] by blast
  have room: "is_next_id st + 1 < two64" and mem: "Inr entry \<in> set archive" using Cons.prems(3,5) by (auto simp: e)
  note i = inv_entry [OF Cons.prems(1) s(1) [unfolded e] mem Cons.prems(4) room]
  from i(1) obtain ids1 content1 where inv1: "ingest_inv limits archive ids1 content1 st1" by blast
  let ?st = "st\<lparr>is_count := is_count st + 1\<rparr>"
  have ok: "ents_ok (dir_entries (is_tree ?st))" using Cons.prems(1) by (simp add: ingest_inv_def)
  obtain raw path where p: "normalize_path raw limits = Inr path"
      "case path of None \<Rightarrow> st1 = ?st | Some path \<Rightarrow> ingest_kind limits entry path ?st = Inr st1"
    using s(1) by (auto simp: e ingest_entry_def Let_def split: if_splits option.splits)
  have "is_saw_hardlink st1 \<or> lone (is_tree st1) (is_next_id st1)"
  proof (cases path)
    case None
    then show ?thesis using p(2) Cons.prems(6) by simp
  next
    case (Some path')
    then have k: "ingest_kind limits entry path' ?st = Inr st1" and r: "normalize_path raw limits = Inr (Some path')" using p by auto
    show ?thesis using Cons.prems(6) saw_kept [OF k] lone_kind [OF _ ok k _ r] room by auto
  qed
  then show ?case using Cons.IH [OF inv1 s(2) _ Cons.prems(4)] Cons.prems(3,5) i(2) by auto
qed auto

text \<open>C16. Link counts after an ingestion: every regular file of the tree counts exactly the paths that lead to
  it, whether the archive had hard links or none.\<close>

theorem ingest_link_counts:
  assumes "ingest_tar limits archive spool next_id = Inr (t, st)" and "spool_ok spool"
    and "max_total_size limits < u64_max" and "next_id + length archive < two64"
    and "get_at (dir_entries t) p = Some (RegularFile f)"
  shows "rf_nlink f = of_nat (card (links (dir_entries t) (rf_id f)))"
proof -
  obtain e: "ingest_entries limits archive (ingest_start spool next_id) = Inr st"
    and t: "t = (if is_saw_hardlink st then refresh_regular_nlinks (is_tree st) else is_tree st)"
    by (rule ingest_tarD [OF assms(1)])
  note start = inv_start [OF assms(2), of limits archive next_id]
  have room: "is_next_id (ingest_start spool next_id) + length archive < two64" using assms(4) by (simp add: ingest_start_def)
  have "lone (is_tree (ingest_start spool next_id)) next_id"
    by (simp add: lone_def file_at_def ingest_start_def new_tree_def new_directory_def)
  then have l: "is_saw_hardlink st \<or> lone (is_tree st) (is_next_id st)"
    by (intro lone_entries [OF start e subset_refl assms(3) room]) (simp add: ingest_start_def)
  have "\<exists>ids content. ingest_inv limits archive ids content st"
    using inv_entries [OF start e subset_refl assms(3) room] by (simp add: ingest_start_def)
  then have ok: "ents_ok (dir_entries (is_tree st))" by (auto simp: ingest_inv_def)
  show ?thesis
  proof (cases "is_saw_hardlink st")
    case True
    then show ?thesis using refreshed_links [OF ok, of p f] assms(5)
      by (simp add: t refresh_regular_nlinks_def regular_file_link_counts_def)
  next
    case False
    then have one: "lone t (is_next_id st)" and f: "file_at t p f" using l t assms(5) by (auto simp: file_at_get)
    then have "q = p" if "file_at t q g" "rf_id g = rf_id f" for q g using that unfolding lone_def by metis
    then have "links (dir_entries t) (rf_id f) = {p}" using f unfolding links_def file_at_get [symmetric] by blast
    then show ?thesis using one f by (simp add: lone_def)
  qed
qed

section \<open>Whiteout markers\<close>

text \<open>A file or symbolic link called \<^verbatim>\<open>.wh.name\<close> puts a whiteout device at \<^verbatim>\<open>name\<close> beside it.\<close>

lemma whiteout_entry:
  assumes "ingest_entry limits (Inr entry) st = Inr st'" and "ents_ok (dir_entries (is_tree st))"
    and "te_type entry \<in> {TRegular, TContinuous, TSymlink}"
    and "te_path entry = Inr raw" and "normalize_path raw limits = Inr (Some path)"
    and "classify_whiteout (path_filename path) = FileWhiteout real_name"
  shows "view (dir_entries (is_tree st')) =
      inserted (view (dir_entries (is_tree st))) (butlast (comps path) @ [real_name]) (whiteout_node (extract_metadata entry))"
    "ents_ok (dir_entries (is_tree st'))"
proof -
  obtain t where t: "is_tree st' = t"
      "insert_node (is_tree st) (replace_filename path real_name) (whiteout_node (extract_metadata entry)) = Inr t"
    using assms(1,3-6)
    by (auto simp: ingest_entry_def ingest_kind_def ingest_file_def ingest_symlink_def Let_def split: if_splits)
  have c: "comps (replace_filename path real_name) = butlast (comps path) @ [real_name]"
    using replace_comps whiteout_name [OF assms(6)] path_comps normalized(4,5) [OF assms(5)] by simp
  note v = insert_node_view [OF t(2) assms(2)]
  show "view (dir_entries (is_tree st')) =
      inserted (view (dir_entries (is_tree st))) (butlast (comps path) @ [real_name]) (whiteout_node (extract_metadata entry))"
    "ents_ok (dir_entries (is_tree st'))"
    using v(2,3) by (simp_all add: t(1) c whiteout_node_def)
qed

lemma view_whiteout: "view es p = Some (whiteout_node m) \<longleftrightarrow> get_at es p = Some (whiteout_node m)"
proof -
  have "shape v = whiteout_node m \<longleftrightarrow> v = whiteout_node m" for v by (cases v) (auto simp: shape_def whiteout_node_def)
  then show ?thesis by (auto simp: view_def)
qed

lemma overlay_whiteout:
  assumes "get_at layer p = Some w" and "is_whiteout_device w"
  shows "overlay layer below p = None \<or> overlay layer below p = Some w"
  using assms
proof (induction p arbitrary: layer below)
  case (Cons n p)
  have w: "shape w = w" using Cons.prems(2) by (cases w) (auto simp: is_whiteout_device_def shape_def)
  show ?case
  proof (cases "p = []")
    case True
    then show ?thesis using Cons.prems w by (simp add: get_at_Cons)
  next
    case False
    then obtain d where d: "map_of layer n = Some (Directory d)" "get_at (dir_entries d) p = Some w"
      using Cons.prems(1) by (auto simp: get_at_Cons split: option.splits TreeNode.splits)
    have v: "view (dir_entries d) p = Some w" using d(2) w by (simp add: view_def)
    show ?thesis using d v False Cons.IH [OF d(2) Cons.prems(2)]
      by (simp add: is_whiteout_device_def split: option.split TreeNode.split)
  qed
qed simp

text \<open>A whiteout device of a layer hides its name: the merge shows nothing there, unless the device comes
  inside a directory where it meets nothing below.\<close>

lemma whiteout_seen:
  assumes "get_at layer (q @ [name]) = Some w" and "is_whiteout_device w" and "ents_ok layer"
  shows "view (merge_entries base layer) (q @ [name]) = None \<or>
    view (merge_entries base layer) (q @ [name]) = Some w \<and> q \<noteq> [] \<and> (shows_dir (view base) q \<longrightarrow> opaque_above layer q)"
proof (cases "overlay layer (view base) (q @ [name]) = None")
  case False
  then have o: "overlay layer (view base) (q @ [name]) = Some w" using overlay_whiteout [OF assms(1,2), of "view base"] by auto
  then have "fresh_device layer (view base) (q @ [name]) w" using overlay_device [OF view_closed o assms(2)] assms(1) by simp
  then show ?thesis using o merge_overlay [OF assms(3)] by (simp add: fresh_device_def)
qed (simp add: merge_overlay [OF assms(3)])

section \<open>A concrete archive\<close>

text \<open>A directory \<^verbatim>\<open>d/\<close>, a file \<^verbatim>\<open>./d/a\<close>, a hard link \<^verbatim>\<open>d/b\<close> to it, and a marker \<^verbatim>\<open>d/.wh.c\<close>.\<close>

definition sample_entry :: "EntryType \<Rightarrow> u8 list \<Rightarrow> TarEntry" where
  "sample_entry kind path =
     \<lparr>te_path = Inr path, te_type = kind, te_uid = Inr 0, te_gid = Inr 0, te_mode = Inr 0x1A4, te_mtime = Inr 0,
      te_link = Inr (Some [100, 47, 97]), te_size = Inr 2, te_major = Inr None, te_minor = Inr None,
      te_body = [5, 6, 7], te_polls = (\<lambda>_. Inr 1)\<rparr>"

definition sample_archive :: "(IoError + TarEntry) list" where
  "sample_archive =
     [Inr (sample_entry TDirectory [100, 47]), Inr (sample_entry TRegular [46, 47, 100, 47, 97]),
      Inr (sample_entry TLink [100, 47, 98]), Inr (sample_entry TRegular [100, 47, 46, 119, 104, 46, 99])]"

lemma spool_ok_None [simp]: "spool_ok None"
  by (simp add: spool_ok_def)

lemma read_loop_ready:
  "read_loop (\<lambda>_. Inr m) k body remaining data =
     (if remaining \<le> length body then Inr (data @ take remaining body) else Inl (Io UnexpectedEof))"
  using read_loop_exact [where polls = "\<lambda>_. Inr m" and k = k and body = body and remaining = remaining and data = data]
  by (auto simp: poll_fails_def split: sum.splits)

lemmas ingest_simps = ingest_entry_def ingest_kind_def ingest_file_def ingest_link_def sample_entry_def default_limits_def
  and_then_def map_err_def put_tree_def normalize_path_def strip_dot_slash_def strip_leading_slashes_def
  strip_trailing_slashes_def insert_node_def tree_insert_def split_path_def insert_final_def Let_def saturating_add64_def
  path_filename_def classify_whiteout_def OPAQUE_WHITEOUT_def WHITEOUT_PREFIX_def file_data_def SPOOL_THRESHOLD_def
  read_entry_to_memory_def read_loop_ready extract_metadata_def unwrap_or_def fetch_add64_def handle_hardlink_def
  tree_get_def tree_update_def share_node_def share_file_def replace_filename_def path_parent_def whiteout_node_def

definition sample_metadata :: InodeMetadata where
  "sample_metadata = \<lparr>md_uid = 0, md_gid = 0, md_mode = 0x1A4, md_mtime = 0, md_mtime_nsec = 0\<rparr>"

definition linked_file :: RegularFileNode where
  "linked_file = \<lparr>rf_id = 1, rf_metadata = sample_metadata, rf_xattrs = [], rf_data = SharedMemory [5, 6], rf_nlink = 2\<rparr>"

definition sample_tree :: DirectoryNode where
  "sample_tree = Dir default_metadata []
     [([100], Directory (Dir sample_metadata []
        [([97], RegularFile linked_file), ([98], RegularFile linked_file), ([99], whiteout_node sample_metadata)]))]"

definition sample_state :: ingest_state where
  "sample_state = \<lparr>is_tree = sample_tree, is_count = 4, is_total = 4, is_saw_hardlink = True, is_spool = None, is_next_id = 2\<rparr>"

lemma sample_ingested: "ingest_tar default_limits sample_archive None 1 = Inr (refresh_regular_nlinks sample_tree, sample_state)"
  by (simp add: ingest_tar_def sample_archive_def ingest_simps ingest_start_def new_tree_def new_directory_def
    sample_state_def sample_tree_def linked_file_def sample_metadata_def)

lemma sample_room: "max_total_size default_limits < u64_max" "1 + length sample_archive < two64"
  by (simp_all add: default_limits_def sample_archive_def)

definition big_entry :: TarEntry where
  "big_entry = (sample_entry TRegular [97])\<lparr>te_size := Inr 65536, te_body := replicate 65536 7, te_polls := (\<lambda>_. Inr 1000)\<rparr>"

theorem body_stored_exactly_witness:
  "(\<exists>d st. file_data (sample_entry TRegular []) 2 (ingest_start None 1) = Inr (d, st) \<and>
      contents (is_spool st) d = Some [5, 6] \<and> file_data_len d = 2) \<and>
   (\<exists>i off st. file_data big_entry 65536 (ingest_start (Some (new_spool (\<lambda>_. None) 3)) 1) = Inr (Spool i off 65536, st) \<and>
      contents (is_spool st) (Spool i off 65536) = Some (replicate 65536 7))"
proof -
  have "spool_ok (Some (new_spool (\<lambda>_. None) 3))" by (simp add: spool_ok_def tidy_new)
  then show ?thesis
    using body_stored_exactly [of "ingest_start None 1" "sample_entry TRegular []" 2]
      body_stored_exactly [of "ingest_start (Some (new_spool (\<lambda>_. None) 3)) 1" big_entry 65536]
    by (auto simp: ingest_start_def sample_entry_def big_entry_def new_spool_def split: sum.splits)
qed

theorem ingest_bounded_witness:
  "length sample_archive \<le> max_entry_count default_limits \<and>
   total_data_size (refresh_regular_nlinks sample_tree) \<le> max_total_size default_limits"
  using ingest_bounded [OF sample_ingested spool_ok_None sample_room] by simp

theorem ingest_link_counts_witness:
  "of_nat (card (links (dir_entries (refresh_regular_nlinks sample_tree)) 1)) = (2 :: u32)"
  using ingest_link_counts [OF sample_ingested spool_ok_None sample_room, of "[[100], [98]]" linked_file]
  by (simp add: refresh_regular_nlinks_def regular_file_link_counts_def sample_tree_def linked_file_def whiteout_node_def)

end
