(* ===== verification/Spec2Isabelle.thy ===== *)
theory Spec2Isabelle
  imports Net_Policy Wire_Message Transport Memfs_Data Ingest_Tree
begin

text \<open>
  A verification library for microsandbox, a runtime that runs code in small virtual machines. The
  theories model the parts of the Rust sources under \<^verbatim>\<open>src/crates\<close> that decide something: which
  connections a sandbox may open, what the bytes on the host-guest channel mean, what the in-memory
  filesystem answers, and what tree an image unpacks to.

  \<^bold>\<open>Foundations.\<close> \<^verbatim>\<open>Prelude\<close> has the machine types, 64-bit counters with their wrap-around, big-endian
  encodings, the question mark on results, and the rule for invariants of a step relation (locale
  \<^verbatim>\<open>inductive_invariant\<close>). \<^verbatim>\<open>Std_Maps\<close> has the ordered and the hashed map of the standard library and
  shows that both satisfy one interface (locale \<^verbatim>\<open>finite_mapping\<close>).

  \<^bold>\<open>Network policy.\<close> A packet's destination is normalised and classified (\<^verbatim>\<open>Net_Addr\<close>, from
  \<^verbatim>\<open>network/lib/engine/addr.rs\<close>; \<^verbatim>\<open>Net_Destination\<close>, from \<^verbatim>\<open>engine/policy/destination.rs\<close>) and then held against
  the rules (\<^verbatim>\<open>Net_Policy\<close>, from \<^verbatim>\<open>model/policy/types.rs\<close> and \<^verbatim>\<open>name.rs\<close>). Rules about host names ask which
  names the sandbox has resolved to the address: \<^verbatim>\<open>Shared_State\<close> (\<^verbatim>\<open>engine/netstack/shared.rs\<close>) keeps them in the
  expiring index of \<^verbatim>\<open>Ttl_Index\<close> (\<^verbatim>\<open>utils/lib/ttl_reverse_index.rs\<close>). The policy reaches the cache through the locale
  \<^verbatim>\<open>hostname_oracle\<close>, the cache reaches the index through \<^verbatim>\<open>expiring_bindings\<close>; both are interpreted on the
  model. Shown: evaluation is the first match; a decision at connection time is not reversed later by
  a name the client merely claims; suffixes that are denied stay unreachable; the spelling of an
  address is irrelevant; the index refines a table of expiry times and never exceeds its limits.

  \<^bold>\<open>Protocol.\<close> \<^verbatim>\<open>Wire_Codec\<close> (\<^verbatim>\<open>protocol/lib/codec.rs\<close>) frames bytes, \<^verbatim>\<open>Wire_Message\<close> (\<^verbatim>\<open>message.rs\<close>) types the frames,
  \<^verbatim>\<open>Bulk_Flow\<close> (\<^verbatim>\<open>bulk.rs\<close>) negotiates bulk transfers and runs both ends of the credit scheme over ordered
  channels as a step relation, and \<^verbatim>\<open>Transport\<close> (\<^verbatim>\<open>transport.rs\<close>) has the handshake of the second port, the relay's
  leases and the framing of the bulk lane. The decoders share the locale \<^verbatim>\<open>byte_codec\<close>, interpreted for raw frames,
  lease records and lane frames: a stream cut anywhere decodes to what was sent. The flow system moves
  every byte once and in order, within the credit, and can always go on.

  \<^bold>\<open>In-memory filesystem\<close> (\<^verbatim>\<open>filesystem/lib/backends/memfs\<close>). \<^verbatim>\<open>Memfs_Types\<close> is the state: the heap of nodes is a
  list, a reference its index, and the tables map inode numbers and handles. \<^verbatim>\<open>Memfs_Inode\<close>, \<^verbatim>\<open>Memfs_Create\<close>,
  \<^verbatim>\<open>Memfs_Remove\<close>, \<^verbatim>\<open>Memfs_File\<close> and \<^verbatim>\<open>Memfs_Dir\<close> are the operations, file by file. \<^verbatim>\<open>Memfs_Inv\<close> states the invariant,
  \<^verbatim>\<open>Memfs_Ops\<close> shows that each request keeps it, \<^verbatim>\<open>Memfs_Run\<close> composes the requests, \<^verbatim>\<open>Memfs_Names\<close> refines the
  namespace to one map from directory and name to inode number, and \<^verbatim>\<open>Memfs_Data\<close> is about contents, listings
  and types, with lemmas on behaviour of the code that its users may not expect.

  \<^bold>\<open>Image layers.\<close> \<^verbatim>\<open>Image_Ingest\<close> (\<^verbatim>\<open>image/lib/tar/ingest.rs\<close>) reads a tar stream into the tree of \<^verbatim>\<open>Image_Tree\<close>
  (\<^verbatim>\<open>image/lib/tree/model.rs\<close>), which also merges layers. \<^verbatim>\<open>Image_Merge\<close> abstracts a tree to what is seen at
  each path and shows that a merge is the overlay of its layers, with sound provenance; \<^verbatim>\<open>Ingest_Tree\<close> shows
  that an ingestion is within its limits, stores bodies exactly and counts links exactly. This theory
  joins the two: a whiteout marker in an archive hides its name in the merged image.

  \<^bold>\<open>Bounds.\<close> No definition takes fuel: recursion is structural or has a measure. Counters of 64
  bits are natural numbers with the modulus written out where they can wrap; hypotheses such as
  \<^verbatim>\<open>roomy\<close> or \<^verbatim>\<open>next_id + length archive < two64\<close> say how many steps stay clear of it. Identifiers,
  flags and link counts are words.

  \<^bold>\<open>Parameters.\<close> Code outside the repository is an argument with its documented behaviour as a
  hypothesis: CIDR arithmetic, the label grammar of domain names, the CBOR library, the clock, the
  staging file of reads and writes, partial writers, and what the tar reader yields. Locks are
  held for a whole step, so operations are modelled one after the other.

  \<^bold>\<open>Not modelled.\<close> The passthrough, dual and single-file backends, the guest agent, the runtime and its
  relay, the TCP, UDP, ICMP, TLS and DNS engines, port publishing and proxies are wrappers of host
  system calls and of third-party protocol stacks driven by asynchronous I/O: what they do is
  decided outside the repository. The EROFS and ext4 writers produce formats that only the kernel
  reads. The registry client, the caches, the database, the metrics, the command line and the SDKs
  move data between such parts. Of the shared network state the wake pipes, the termination hook and
  the refusal signals are left out, of the codec \<^verbatim>\<open>peek_message_type\<close>, and of the ingestion the decompressors and
  the digest around \<^verbatim>\<open>ingest_tar\<close>.
\<close>

section \<open>From a marker in an archive to the merged image\<close>

text \<open>C12. A whiteout marker takes effect across the components. Let the ingestion read a file or a symbolic
  link called \<^verbatim>\<open>.wh.name\<close>, and merge the resulting layer over any tree. When the marker is in the root,
  or the tree below has its directory and the layer has no opaque directory above that one, nothing
  at all is seen at \<^verbatim>\<open>name\<close> beside the marker. In every other case there is nothing below to hide, and
  at most the whiteout device itself is seen.\<close>

theorem whiteout_marker_hides:
  assumes "ingest_entry limits (Inr entry) st = Inr st'" and "ents_ok (dir_entries (is_tree st))"
    and "te_type entry \<in> {TRegular, TContinuous, TSymlink}"
    and "te_path entry = Inr raw" and "normalize_path raw limits = Inr (Some path)"
    and "path_filename path = WHITEOUT_PREFIX @ name" and "name \<noteq> []" and "path_filename path \<noteq> OPAQUE_WHITEOUT"
    and "q = butlast (comps path)" and "seen = view (dir_entries (merge_layer base (is_tree st'))) (q @ [name])"
  shows "(q = [] \<or> shows_dir (view (dir_entries base)) q \<and> \<not> opaque_above (dir_entries (is_tree st')) q \<longrightarrow> seen = None) \<and>
    (seen = None \<or> seen = Some (whiteout_node (extract_metadata entry)))"
proof -
  let ?p = "q @ [name]" and ?w = "whiteout_node (extract_metadata entry)"
  let ?m = "merge_entries (dir_entries base) (dir_entries (is_tree st'))"
  have c: "classify_whiteout (path_filename path) = FileWhiteout name"
    using assms(6-8) by (simp add: classify_whiteout_def Let_def)
  note w = whiteout_entry [OF assms(1-5) c, folded assms(9)]
  have dev: "is_whiteout_device ?w" "shape ?w = ?w" "linked counts ?w = ?w" for counts
    by (simp_all add: whiteout_node_def is_whiteout_device_def shape_def linked_def)
  have "get_at (dir_entries (is_tree st')) ?p = Some ?w"
    using dev(2) by (simp add: view_whiteout [symmetric] w(1) inserted_def)
  note v = whiteout_seen [OF this dev(1) w(2), of "dir_entries base"]
  then have "view ?m ?p = None \<or> get_at ?m ?p = Some ?w" by (auto simp: view_whiteout)
  then have "seen = view ?m ?p"
    by (auto simp: assms(10) view_def merge_layer_def merge_directory_def refresh_regular_nlinks_def get_at_refresh dev)
  then show ?thesis using v by auto
qed

theorem whiteout_marker_hides_witness:
  "\<exists>st'. ingest_entry default_limits (Inr (sample_entry TRegular [98, 47, 46, 119, 104, 46, 99])) (ingest_start None 1) = Inr st' \<and>
     view (dir_entries lower_layer) [[98], [99]] \<noteq> None \<and>
     view (dir_entries (merge_layer lower_layer (is_tree st'))) [[98], [99]] = None"
proof -
  let ?e = "sample_entry TRegular [98, 47, 46, 119, 104, 46, 99]"
  have "\<exists>st'. ingest_entry default_limits (Inr ?e) (ingest_start None 1) = Inr st'"
    by (simp add: ingest_simps ingest_start_def new_tree_def new_directory_def)
  then obtain st' where s: "ingest_entry default_limits (Inr ?e) (ingest_start None 1) = Inr st'" by blast
  have "comps [98, 47, 46, 119, 104, 46, 99] = [[98], [46, 119, 104, 46, 99]]" by (simp add: comps_def)
  moreover have "shows_dir (view (dir_entries lower_layer)) [[98]]" "view (dir_entries lower_layer) [[98], [99]] \<noteq> None"
    by (simp_all add: shows_dir_def view_Cons lower_layer_def dir_of_def shape_def)
  ultimately show ?thesis
    using s whiteout_marker_hides [OF s, of "[98, 47, 46, 119, 104, 46, 99]" "[98, 47, 46, 119, 104, 46, 99]" "[99]" "[[98]]"
        "view (dir_entries (merge_layer lower_layer (is_tree st'))) [[98], [99]]" lower_layer]
    by (simp add: ingest_start_def new_tree_def new_directory_def) (simp add: ingest_simps)
qed

end
